(* ===== verification/Ouiche_Prelude.thy ===== *)
theory Ouiche_Prelude
  imports Main "HOL-Library.Word"
begin

text \<open>
  The prelude of the ouichefs development: machine integers at their C width, the outcome of
  a kernel operation, byte blocks with their little-endian typed views, and the parts of the
  C and kernel run-time library (\<^verbatim>\<open>memset\<close>, \<^verbatim>\<open>memcpy\<close>, \<^verbatim>\<open>DIV_ROUND_UP\<close>) that the file system
  uses on them.  The target is the one the module is built for: a little-endian machine with
  64-bit longs, so \<^verbatim>\<open>le32_to_cpu\<close> and the raw casts of \<^verbatim>\<open>ouichefs.h\<close> read the same bytes.

  Collections: \<open>block_simps\<close> holds the frame and round-trip facts of typed block accesses.
\<close>

unbundle bit_operations_syntax

named_theorems block_simps

section \<open>Types\<close>

type_synonym u8 = "8 word"
type_synonym u16 = "16 word"
type_synonym u32 = "32 word"
type_synonym u64 = "64 word"

text \<open>The \<^verbatim>\<open>b_data\<close> of a buffer: 4096 bytes by offset. No operation of the model writes an
  offset of 4096 or more; where the C code could, the model returns a fault.\<close>

type_synonym block = "nat \<Rightarrow> u8"

text \<open>How a kernel call can end without returning: a null dereference, an access outside a
  buffer, an explicit \<^verbatim>\<open>panic()\<close>, or running out of the loop bound given to the model.\<close>

datatype fault = NullDeref | OutOfBounds | KernelPanic | NoReturn

type_synonym 'a res = "fault + 'a"

section \<open>Error numbers\<close>

abbreviation (input) EPERM :: int where "EPERM \<equiv> 1"
abbreviation (input) ENOENT :: int where "ENOENT \<equiv> 2"
abbreviation (input) EIO :: int where "EIO \<equiv> 5"
abbreviation (input) ENOMEM :: int where "ENOMEM \<equiv> 12"
abbreviation (input) EFAULT :: int where "EFAULT \<equiv> 14"
abbreviation (input) EEXIST :: int where "EEXIST \<equiv> 17"
abbreviation (input) ENOTDIR :: int where "ENOTDIR \<equiv> 20"
abbreviation (input) EINVAL :: int where "EINVAL \<equiv> 22"
abbreviation (input) EFBIG :: int where "EFBIG \<equiv> 27"
abbreviation (input) ENOSPC :: int where "ENOSPC \<equiv> 28"
abbreviation (input) EMLINK :: int where "EMLINK \<equiv> 31"
abbreviation (input) ENAMETOOLONG :: int where "ENAMETOOLONG \<equiv> 36"
abbreviation (input) ENOTEMPTY :: int where "ENOTEMPTY \<equiv> 39"

section \<open>Little-endian views of a block\<close>

primrec get_le :: "nat \<Rightarrow> block \<Rightarrow> nat \<Rightarrow> 'a::len word" where
  "get_le 0 b off = 0"
| "get_le (Suc n) b off = ucast (b off) OR push_bit 8 (get_le n b (Suc off))"

primrec put_le :: "nat \<Rightarrow> 'a::len word \<Rightarrow> nat \<Rightarrow> block \<Rightarrow> block" where
  "put_le 0 v off b = b"
| "put_le (Suc n) v off b = put_le n (drop_bit 8 v) (Suc off) (b(off := ucast v))"

abbreviation get16 :: "block \<Rightarrow> nat \<Rightarrow> u16" where "get16 \<equiv> get_le 2"
abbreviation get32 :: "block \<Rightarrow> nat \<Rightarrow> u32" where "get32 \<equiv> get_le 4"
abbreviation get64 :: "block \<Rightarrow> nat \<Rightarrow> u64" where "get64 \<equiv> get_le 8"
abbreviation put16 :: "u16 \<Rightarrow> nat \<Rightarrow> block \<Rightarrow> block" where "put16 \<equiv> put_le 2"
abbreviation put32 :: "u32 \<Rightarrow> nat \<Rightarrow> block \<Rightarrow> block" where "put32 \<equiv> put_le 4"
abbreviation put64 :: "u64 \<Rightarrow> nat \<Rightarrow> block \<Rightarrow> block" where "put64 \<equiv> put_le 8"

section \<open>Memory functions\<close>

definition memset :: "block \<Rightarrow> nat \<Rightarrow> u8 \<Rightarrow> nat \<Rightarrow> block" where
  "memset b off v n = (\<lambda>k. if off \<le> k \<and> k < off + n then v else b k)"

definition memcpy :: "block \<Rightarrow> nat \<Rightarrow> u8 list \<Rightarrow> block" where
  "memcpy b off bs = (\<lambda>k. if off \<le> k \<and> k < off + length bs then bs ! (k - off) else b k)"

definition bytes_at :: "block \<Rightarrow> nat \<Rightarrow> nat \<Rightarrow> u8 list" where
  "bytes_at b off n = map b [off..<off + n]"

definition div_round_up :: "nat \<Rightarrow> nat \<Rightarrow> nat" where
  "div_round_up n d = (n + d - 1) div d"

section \<open>Facts about typed views\<close>

lemma bit_get_le:
  "bit (get_le n b off :: 'a::len word) k \<longleftrightarrow>
     k < 8 * n \<and> k < LENGTH('a) \<and> bit (b (off + k div 8)) (k mod 8)"
proof (induction n arbitrary: off k)
  case 0
  show ?case by simp
next
  case (Suc n)
  show ?case
  proof (cases "k < 8")
    case True
    then show ?thesis
      by (auto simp: bit_or_iff bit_push_bit_iff bit_ucast_iff)
  next
    case False
    then have k: "k = (k - 8) + 8" by simp
    have "k div 8 = Suc ((k - 8) div 8)" and "k mod 8 = (k - 8) mod 8"
      using False by (simp_all add: le_div_geq le_mod_geq)
    moreover have "\<not> bit (ucast (b off) :: 'a word) k"
      using False by (auto simp: bit_ucast_iff dest: bit_imp_le_length)
    ultimately show ?thesis
      using False by (auto simp: bit_or_iff bit_push_bit_iff Suc.IH)
  qed
qed

lemma put_le_apply:
  "put_le n (v :: 'a::len word) off b k =
     (if off \<le> k \<and> k < off + n then ucast (drop_bit (8 * (k - off)) v) else b k)"
proof (induction n arbitrary: v off b k)
  case 0
  show ?case by auto
next
  case (Suc n)
  show ?case
  proof (cases "k = off")
    case True
    then show ?thesis by (simp add: Suc.IH)
  next
    case False
    moreover have "off < k \<Longrightarrow> 8 * (k - Suc off) + 8 = 8 * (k - off)" by simp
    ultimately show ?thesis by (auto simp: Suc.IH)
  qed
qed

lemma get_put_le_same [block_simps]:
  assumes "LENGTH('a) = 8 * n"
  shows "get_le n (put_le n (v :: 'a::len word) off b) off = v"
proof (rule bit_word_eqI)
  fix k assume k: "k < LENGTH('a)"
  then have "k div 8 < n" using assms by (simp add: less_mult_imp_div_less mult.commute)
  moreover have "8 * (k div 8) + k mod 8 = k" by simp
  ultimately show "bit (get_le n (put_le n v off b) off :: 'a word) k \<longleftrightarrow> bit v k"
    using k assms by (auto simp: bit_get_le put_le_apply bit_ucast_iff bit_drop_bit_eq)
qed

lemma get_le_cong:
  assumes "\<And>k. off \<le> k \<Longrightarrow> k < off + n \<Longrightarrow> b k = b' k"
  shows "get_le n b off = (get_le n b' off :: 'a::len word)"
  using assms by (induction n arbitrary: off) auto

lemma get_put_le_disjoint [block_simps]:
  "off + n \<le> off' \<or> off' + m \<le> off \<Longrightarrow>
     get_le n (put_le m (v :: 'b::len word) off' b) off = (get_le n b off :: 'a::len word)"
  by (rule get_le_cong) (auto simp: put_le_apply)

lemma put_le_outside [block_simps]:
  "k < off \<or> off + n \<le> k \<Longrightarrow> put_le n (v :: 'a::len word) off b k = b k"
  by (auto simp: put_le_apply)

lemma memset_inside [block_simps]: "off \<le> k \<Longrightarrow> k < off + n \<Longrightarrow> memset b off v n k = v"
  by (auto simp: memset_def)

lemma memset_outside [block_simps]: "k < off \<or> off + n \<le> k \<Longrightarrow> memset b off v n k = b k"
  by (auto simp: memset_def)

lemma get_memset_disjoint [block_simps]:
  "off + n \<le> off' \<or> off' + m \<le> off \<Longrightarrow>
     get_le n (memset b off' v m) off = (get_le n b off :: 'a::len word)"
  by (rule get_le_cong) (auto simp: memset_def)

lemma get_le_zero:
  assumes "\<And>k. off \<le> k \<Longrightarrow> k < off + n \<Longrightarrow> b k = 0"
  shows "get_le n b off = (0 :: 'a::len word)"
  using assms by (induction n arbitrary: off) auto

lemma get_memset_zero [block_simps]:
  "off' \<le> off \<Longrightarrow> off + n \<le> off' + m \<Longrightarrow> get_le n (memset b off' 0 m) off = (0 :: 'a::len word)"
  by (rule get_le_zero) (auto simp: memset_def)

lemma memcpy_inside [block_simps]:
  "off \<le> k \<Longrightarrow> k < off + length bs \<Longrightarrow> memcpy b off bs k = bs ! (k - off)"
  by (auto simp: memcpy_def)

lemma memcpy_outside [block_simps]:
  "k < off \<or> off + length bs \<le> k \<Longrightarrow> memcpy b off bs k = b k"
  by (auto simp: memcpy_def)

lemma get_memcpy_disjoint [block_simps]:
  "off + n \<le> off' \<or> off' + length bs \<le> off \<Longrightarrow>
     get_le n (memcpy b off' bs) off = (get_le n b off :: 'a::len word)"
  by (rule get_le_cong) (auto simp: memcpy_def)

lemma memcpy_Nil [simp]: "memcpy b off [] = b"
  by (rule ext) (auto simp: memcpy_def)

lemma length_bytes_at [simp]: "length (bytes_at b off n) = n"
  by (simp add: bytes_at_def)

lemma nth_bytes_at [simp]: "k < n \<Longrightarrow> bytes_at b off n ! k = b (off + k)"
  by (simp add: bytes_at_def)

lemma bytes_at_memcpy [block_simps]: "bytes_at (memcpy b off bs) off (length bs) = bs"
  by (rule nth_equalityI) (auto simp: memcpy_def)

lemma bytes_at_cong:
  "(\<And>k. off \<le> k \<Longrightarrow> k < off + n \<Longrightarrow> b k = b' k) \<Longrightarrow> bytes_at b off n = bytes_at b' off n"
  by (auto simp: bytes_at_def)

lemma bytes_at_append: "bytes_at b off (m + n) = bytes_at b off m @ bytes_at b (off + m) n"
  using upt_add_eq_append [of off "off + m" n]
  by (simp add: bytes_at_def add.assoc flip: map_append)

section \<open>Arithmetic\<close>

lemma div_round_up_0 [simp]: "div_round_up 0 d = 0"
  by (cases d) (simp_all add: div_round_up_def)

lemma div_round_up_le_iff:
  assumes "0 < d"
  shows "div_round_up n d \<le> k \<longleftrightarrow> n \<le> k * d"
proof
  assume "div_round_up n d \<le> k"
  then have "n + d - 1 < Suc k * d"
    using assms unfolding div_round_up_def by (metis Suc_le_eq le_imp_less_Suc div_less_iff_less_mult)
  then show "n \<le> k * d" using assms by simp
next
  assume "n \<le> k * d"
  then have "n + d - 1 < Suc k * d" using assms by simp
  then show "div_round_up n d \<le> k"
    using assms unfolding div_round_up_def by (metis div_less_iff_less_mult less_Suc_eq_le)
qed

lemma le_div_round_up_mult: "0 < d \<Longrightarrow> n \<le> div_round_up n d * d"
  using div_round_up_le_iff [of d n "div_round_up n d"] by simp

lemma div_round_up_pos: "0 < d \<Longrightarrow> 0 < n \<Longrightarrow> 0 < div_round_up n d"
  using div_round_up_le_iff [of d n 0] by simp

lemma unat_ucast_16_32 [simp]: "unat (ucast (x :: u16) :: u32) = unat x"
  by (simp add: unsigned_ucast_eq take_bit_nat_eq_self_iff order_less_le_trans [OF unsigned_less])

lemma unat_of_nat_u32: "i < 2 ^ 32 \<Longrightarrow> unat (of_nat i :: u32) = i"
  by (simp add: unat_of_nat)

end
