(* ===== verification/Ouiche_Layout.thy ===== *)
theory Ouiche_Layout
  imports Ouiche_Prelude
begin

text \<open>
  The data model of \<^verbatim>\<open>src/ouichefs.h\<close>: the constants, the in-memory superblock and inode, the
  macros that read and write the header of a sliced block, and the packed slice address kept in
  \<^verbatim>\<open>index_block\<close> of a small file (27 bits of block number, 5 bits of slice number).
\<close>

section \<open>Constants\<close>

abbreviation (input) OUICHEFS_MAGIC :: u32 where "OUICHEFS_MAGIC \<equiv> 0x48434957"
abbreviation (input) OUICHEFS_BLOCK_SIZE :: nat where "OUICHEFS_BLOCK_SIZE \<equiv> 4096"
abbreviation (input) OUICHEFS_MAX_FILESIZE :: nat where "OUICHEFS_MAX_FILESIZE \<equiv> 4194304"
abbreviation (input) OUICHEFS_FILENAME_LEN :: nat where "OUICHEFS_FILENAME_LEN \<equiv> 28"
abbreviation (input) OUICHEFS_MAX_SUBFILES :: nat where "OUICHEFS_MAX_SUBFILES \<equiv> 128"
abbreviation (input) OUICHEFS_SLICE_SIZE :: nat where "OUICHEFS_SLICE_SIZE \<equiv> 128"
abbreviation (input) OUICHEFS_SLICES_PER_SLICED_BLOCK :: nat where "OUICHEFS_SLICES_PER_SLICED_BLOCK \<equiv> 31"
abbreviation (input) OUICHEFS_BITMAP_SIZE_BITS :: nat where "OUICHEFS_BITMAP_SIZE_BITS \<equiv> 32"
abbreviation (input) OUICHEFS_BITMAP_ALL_FREE :: u32 where "OUICHEFS_BITMAP_ALL_FREE \<equiv> 4294967294"
abbreviation (input) OUICHEFS_INODE_SIZE :: nat where "OUICHEFS_INODE_SIZE \<equiv> 80"
abbreviation (input) OUICHEFS_INODES_PER_BLOCK :: nat where "OUICHEFS_INODES_PER_BLOCK \<equiv> 51"

section \<open>In-memory structures\<close>

text \<open>An in-memory bitmap is an array of \<^verbatim>\<open>unsigned long\<close>.\<close>

type_synonym bitmap = "nat \<Rightarrow> u64"

record sb_info =
  magic :: u32
  nr_blocks :: u32
  nr_inodes :: u32
  nr_istore_blocks :: u32
  nr_ifree_blocks :: u32
  nr_bfree_blocks :: u32
  nr_sliced_blocks :: u32
  nr_free_inodes :: u32
  nr_free_blocks :: u32
  nr_used_slices :: u32
  s_free_sliced_blocks :: u32
  ifree_bitmap :: bitmap
  bfree_bitmap :: bitmap

text \<open>\<^verbatim>\<open>struct timespec64\<close>: seconds and nanoseconds.\<close>

type_synonym timespec = "u64 \<times> u64"

text \<open>\<^verbatim>\<open>struct ouichefs_inode_info\<close> with the fields of its \<^verbatim>\<open>vfs_inode\<close> the file system uses.
  \<^verbatim>\<open>i_size\<close> is an \<^verbatim>\<open>loff_t\<close>: the VFS keeps file positions non-negative and below \<open>2 ^ 63\<close>, so
  sizes and positions are natural numbers; \<^verbatim>\<open>i_blocks\<close> is an unsigned 64-bit \<^verbatim>\<open>blkcnt_t\<close>, whose
  wrap-around the code meets.\<close>

record inode =
  i_mode :: u32
  i_uid :: u32
  i_gid :: u32
  i_size :: nat
  i_ctime :: timespec
  i_atime :: timespec
  i_mtime :: timespec
  i_blocks :: u64
  i_nlink :: u32
  index_block :: u32
  num_slices :: u16

section \<open>Header of a sliced block\<close>

definition SLICED_BLOCK_SB_BITMAP :: "block \<Rightarrow> u32" where
  "SLICED_BLOCK_SB_BITMAP d = get32 d 0"

definition SLICED_BLOCK_SB_SET_BITMAP :: "u32 \<Rightarrow> block \<Rightarrow> block" where
  "SLICED_BLOCK_SB_SET_BITMAP v d = put32 v 0 d"

definition SLICED_BLOCK_SB_NEXT :: "block \<Rightarrow> u32" where
  "SLICED_BLOCK_SB_NEXT d = get32 d 4"

definition SLICED_BLOCK_SB_SET_NEXT :: "u32 \<Rightarrow> block \<Rightarrow> block" where
  "SLICED_BLOCK_SB_SET_NEXT v d = put32 v 4 d"

definition BITMAP_IS_ALL_FREE :: "block \<Rightarrow> bool" where
  "BITMAP_IS_ALL_FREE d \<longleftrightarrow> SLICED_BLOCK_SB_BITMAP d = OUICHEFS_BITMAP_ALL_FREE"

section \<open>Packed slice address\<close>

definition SMALL_FILE_GET_BNO :: "inode \<Rightarrow> u32" where
  "SMALL_FILE_GET_BNO ci = drop_bit 5 (index_block ci)"

definition SMALL_FILE_GET_SLICE :: "inode \<Rightarrow> u32" where
  "SMALL_FILE_GET_SLICE ci = index_block ci AND 31"

text \<open>The packing of \<^verbatim>\<open>write_small_file\<close>.\<close>

definition pack_slice :: "u32 \<Rightarrow> u32 \<Rightarrow> u32" where
  "pack_slice bno sl = push_bit 5 bno + sl"

section \<open>Facts about sliced-block headers\<close>

lemmas sliced_header_defs =
  SLICED_BLOCK_SB_BITMAP_def SLICED_BLOCK_SB_SET_BITMAP_def
  SLICED_BLOCK_SB_NEXT_def SLICED_BLOCK_SB_SET_NEXT_def

lemma get_set_bitmap [simp]:
  "SLICED_BLOCK_SB_BITMAP (SLICED_BLOCK_SB_SET_BITMAP v d) = v"
  by (simp add: sliced_header_defs block_simps)

lemma get_set_next [simp]:
  "SLICED_BLOCK_SB_NEXT (SLICED_BLOCK_SB_SET_NEXT v d) = v"
  by (simp add: sliced_header_defs block_simps)

lemma get_bitmap_set_next [simp]:
  "SLICED_BLOCK_SB_BITMAP (SLICED_BLOCK_SB_SET_NEXT v d) = SLICED_BLOCK_SB_BITMAP d"
  by (simp add: sliced_header_defs block_simps)

lemma get_next_set_bitmap [simp]:
  "SLICED_BLOCK_SB_NEXT (SLICED_BLOCK_SB_SET_BITMAP v d) = SLICED_BLOCK_SB_NEXT d"
  by (simp add: sliced_header_defs block_simps)

lemma set_bitmap_payload [simp]: "8 \<le> k \<Longrightarrow> SLICED_BLOCK_SB_SET_BITMAP v d k = d k"
  by (simp add: sliced_header_defs block_simps)

lemma set_next_payload [simp]: "8 \<le> k \<Longrightarrow> SLICED_BLOCK_SB_SET_NEXT v d k = d k"
  by (simp add: sliced_header_defs block_simps)

text \<open>The packed address loses nothing when the block number fits 27 bits and the slice 5.\<close>

lemma unat_pack_slice:
  assumes "unat bno < 2 ^ 27" and "unat sl < 32"
  shows "unat (pack_slice bno sl) = unat bno * 32 + unat sl"
proof -
  have "pack_slice bno sl = of_nat (unat bno * 32 + unat sl)"
    by (simp add: pack_slice_def push_bit_eq_mult)
  moreover have "unat bno * 32 + unat sl < 2 ^ 32" using assms by simp
  ultimately show ?thesis by (simp only: unat_of_nat_u32)
qed

lemma pack_slice_roundtrip:
  assumes "unat bno < 2 ^ 27" and "unat sl < 32"
  shows "SMALL_FILE_GET_BNO (ci\<lparr>index_block := pack_slice bno sl\<rparr>) = bno"
    and "SMALL_FILE_GET_SLICE (ci\<lparr>index_block := pack_slice bno sl\<rparr>) = sl"
proof -
  note u = unat_pack_slice [OF assms]
  have "unat (drop_bit 5 (pack_slice bno sl)) = unat bno"
    using assms by (simp only: unat_drop_bit_eq u) (simp add: drop_bit_eq_div)
  then show "SMALL_FILE_GET_BNO (ci\<lparr>index_block := pack_slice bno sl\<rparr>) = bno"
    by (simp add: SMALL_FILE_GET_BNO_def word_unat_eq_iff)
  have "pack_slice bno sl AND 31 = take_bit 5 (pack_slice bno sl)"
    by (simp add: take_bit_eq_mask mask_eq_exp_minus_1)
  then have "unat (pack_slice bno sl AND 31) = unat sl"
    using assms by (simp only: unsigned_take_bit_eq u) (simp add: take_bit_eq_mod)
  then show "SMALL_FILE_GET_SLICE (ci\<lparr>index_block := pack_slice bno sl\<rparr>) = sl"
    by (simp add: SMALL_FILE_GET_SLICE_def word_unat_eq_iff)
qed

end
