(* ===== verification/Ouiche_Bitmap.thy ===== *)
theory Ouiche_Bitmap
  imports Ouiche_Layout
begin

text \<open>
  The allocator of \<^verbatim>\<open>src/bitmap.h\<close>: the first-free-bit search on an array of 64-bit longs, the
  inode and block allocators on the in-memory superblock, and the copies between the in-memory
  bitmaps and the little-endian words of a bitmap block.  A set bit is a free object.

  The contract of an allocator is the locale \<open>free_pool\<close>; it is interpreted for blocks
  (\<open>blocks\<close>) and for inodes (\<open>inos\<close>).
\<close>

section \<open>Bitmaps\<close>

definition test_bit :: "bitmap \<Rightarrow> nat \<Rightarrow> bool" where
  "test_bit m i \<longleftrightarrow> bit (m (i div 64)) (i mod 64)"

definition bitmap_set1 :: "bitmap \<Rightarrow> nat \<Rightarrow> bitmap" where
  "bitmap_set1 m i = m(i div 64 := Bit_Operations.set_bit (i mod 64) (m (i div 64)))"

definition bitmap_clear1 :: "bitmap \<Rightarrow> nat \<Rightarrow> bitmap" where
  "bitmap_clear1 m i = m(i div 64 := Bit_Operations.unset_bit (i mod 64) (m (i div 64)))"

function find_bit_from :: "bitmap \<Rightarrow> nat \<Rightarrow> nat \<Rightarrow> nat" where
  "find_bit_from m i sz =
     (if i < sz then (if test_bit m i then i else find_bit_from m (Suc i) sz) else sz)"
  by pat_completeness auto
termination
  by (relation "measure (\<lambda>(m, i, sz). sz - i)") auto

declare find_bit_from.simps [simp del]

definition find_first_bit :: "bitmap \<Rightarrow> nat \<Rightarrow> nat" where
  "find_first_bit m sz = find_bit_from m 0 sz"

definition get_first_free_bit :: "bitmap \<Rightarrow> nat \<Rightarrow> u32 \<times> bitmap" where
  "get_first_free_bit freemap sz =
     (let ino = of_nat (find_first_bit freemap sz) :: u32 in
      if unat ino = sz then (0, freemap)
      else (ino, bitmap_clear1 freemap (unat ino)))"

text \<open>The guard lets \<open>i = size\<close> through, as in the source.  Setting that bit is not
  modelled as a fault: the bitmaps are allocated in whole blocks, so the store is past the allocation
  only for a size that is a multiple of the bits of a block.\<close>

definition put_free_bit :: "bitmap \<Rightarrow> nat \<Rightarrow> u32 \<Rightarrow> int \<times> bitmap" where
  "put_free_bit freemap sz i =
     (if unat i > sz then (-1, freemap) else (0, bitmap_set1 freemap (unat i)))"

section \<open>The allocators\<close>

definition get_free_inode :: "sb_info \<Rightarrow> u32 \<times> sb_info" where
  "get_free_inode sb =
     (let (ret, m) = get_first_free_bit (ifree_bitmap sb) (unat (nr_inodes sb));
          sb = sb\<lparr>ifree_bitmap := m\<rparr>
      in if ret \<noteq> 0 then (ret, sb\<lparr>nr_free_inodes := nr_free_inodes sb - 1\<rparr>) else (ret, sb))"

definition get_free_block :: "sb_info \<Rightarrow> u32 \<times> sb_info" where
  "get_free_block sb =
     (let (ret, m) = get_first_free_bit (bfree_bitmap sb) (unat (nr_blocks sb));
          sb = sb\<lparr>bfree_bitmap := m\<rparr>
      in if ret \<noteq> 0 then (ret, sb\<lparr>nr_free_blocks := nr_free_blocks sb - 1\<rparr>) else (ret, sb))"

definition put_inode :: "sb_info \<Rightarrow> u32 \<Rightarrow> sb_info" where
  "put_inode sb ino =
     (let (err, m) = put_free_bit (ifree_bitmap sb) (unat (nr_inodes sb)) ino in
      if err \<noteq> 0 then sb
      else sb\<lparr>ifree_bitmap := m, nr_free_inodes := nr_free_inodes sb + 1\<rparr>)"

definition put_block :: "sb_info \<Rightarrow> u32 \<Rightarrow> sb_info" where
  "put_block sb bno =
     (let (err, m) = put_free_bit (bfree_bitmap sb) (unat (nr_blocks sb)) bno in
      if err \<noteq> 0 then sb
      else sb\<lparr>bfree_bitmap := m, nr_free_blocks := nr_free_blocks sb + 1\<rparr>)"

section \<open>Bitmap blocks on disk\<close>

text \<open>\<open>dst\<close> is the destination pointer: the index of its first long in the bitmap.\<close>

definition copy_bitmap_from_le64 :: "bitmap \<Rightarrow> nat \<Rightarrow> block \<Rightarrow> bitmap" where
  "copy_bitmap_from_le64 m dst src =
     fold (\<lambda>i m. m(dst + i := get64 src (8 * i))) [0..<OUICHEFS_BLOCK_SIZE div 8] m"

definition copy_bitmap_to_le64 :: "block \<Rightarrow> bitmap \<Rightarrow> nat \<Rightarrow> block" where
  "copy_bitmap_to_le64 dst m src =
     fold (\<lambda>i b. put64 (m (src + i)) (8 * i) b) [0..<OUICHEFS_BLOCK_SIZE div 8] dst"

section \<open>Bit-level facts\<close>

lemma test_bit_set1 [simp]: "test_bit (bitmap_set1 m i) j \<longleftrightarrow> i = j \<or> test_bit m j"
proof -
  have "i = j \<longleftrightarrow> i div 64 = j div 64 \<and> i mod 64 = j mod 64"
    by (metis div_mult_mod_eq)
  then show ?thesis
    by (auto simp: test_bit_def bitmap_set1_def bit_set_bit_iff)
qed

lemma test_bit_clear1 [simp]: "test_bit (bitmap_clear1 m i) j \<longleftrightarrow> i \<noteq> j \<and> test_bit m j"
proof -
  have "i = j \<longleftrightarrow> i div 64 = j div 64 \<and> i mod 64 = j mod 64"
    by (metis div_mult_mod_eq)
  then show ?thesis
    by (auto simp: test_bit_def bitmap_clear1_def bit_unset_bit_iff)
qed

lemma find_bit_from_spec:
  "i \<le> sz \<Longrightarrow>
     i \<le> find_bit_from m i sz \<and> find_bit_from m i sz \<le> sz \<and>
     (\<forall>j. i \<le> j \<and> j < find_bit_from m i sz \<longrightarrow> \<not> test_bit m j) \<and>
     (find_bit_from m i sz < sz \<longrightarrow> test_bit m (find_bit_from m i sz))"
proof (induction m i sz rule: find_bit_from.induct)
  case (1 m i sz)
  consider "\<not> i < sz" | "i < sz" "test_bit m i" | "i < sz" "\<not> test_bit m i" by blast
  then show ?case
  proof cases
    case 1
    then have "find_bit_from m i sz = sz" by (subst find_bit_from.simps) simp
    with 1 "1.prems" show ?thesis by auto
  next
    case 3
    with "1.IH" have IH: "Suc i \<le> find_bit_from m (Suc i) sz" "find_bit_from m (Suc i) sz \<le> sz"
      "\<forall>j. Suc i \<le> j \<and> j < find_bit_from m (Suc i) sz \<longrightarrow> \<not> test_bit m j"
      "find_bit_from m (Suc i) sz < sz \<longrightarrow> test_bit m (find_bit_from m (Suc i) sz)"
      by auto
    have "find_bit_from m i sz = find_bit_from m (Suc i) sz"
      using 3 by (subst find_bit_from.simps) simp
    moreover have "\<And>j. i \<le> j \<Longrightarrow> j = i \<or> Suc i \<le> j" by auto
    ultimately show ?thesis using IH 3 by (metis Suc_leD)
  qed (auto simp: find_bit_from.simps [of m i sz])
qed

definition free_bits :: "bitmap \<Rightarrow> nat \<Rightarrow> nat set" where
  "free_bits m sz = {i. i < sz \<and> test_bit m i}"

lemma finite_free_bits [simp]: "finite (free_bits m sz)"
  by (simp add: free_bits_def)

lemma find_first_bit_none: "free_bits m sz = {} \<longleftrightarrow> find_first_bit m sz = sz"
  using find_bit_from_spec [of 0 sz m]
  unfolding find_first_bit_def free_bits_def by fastforce

lemma find_first_bit_Min:
  assumes "free_bits m sz \<noteq> {}"
  shows "find_first_bit m sz = Min (free_bits m sz)"
proof -
  let ?f = "find_bit_from m 0 sz"
  have "?f < sz" "test_bit m ?f" "\<forall>j. j < ?f \<longrightarrow> \<not> test_bit m j"
    using find_bit_from_spec [of 0 sz m] find_first_bit_none [of m sz] assms
    by (auto simp: find_first_bit_def)
  then show ?thesis
    unfolding find_first_bit_def
    by (intro Min_eqI [symmetric]) (auto simp: free_bits_def not_less [symmetric])
qed

lemma free_bits_clear1: "free_bits (bitmap_clear1 m i) sz = free_bits m sz - {i}"
  by (auto simp: free_bits_def)

lemma free_bits_set1: "i < sz \<Longrightarrow> free_bits (bitmap_set1 m i) sz = insert i (free_bits m sz)"
  by (auto simp: free_bits_def)

lemma get_first_free_bit_none:
  assumes "sz < 2 ^ 32" and "free_bits m sz = {}"
  shows "get_first_free_bit m sz = (0, m)"
  using assms by (simp add: get_first_free_bit_def Let_def find_first_bit_none [THEN iffD1] unat_of_nat_u32)

lemma get_first_free_bit_some:
  assumes "sz < 2 ^ 32" and "free_bits m sz \<noteq> {}"
  shows "get_first_free_bit m sz =
     (of_nat (Min (free_bits m sz)), bitmap_clear1 m (Min (free_bits m sz)))"
proof -
  have "Min (free_bits m sz) \<in> free_bits m sz" using assms(2) by simp
  then have "Min (free_bits m sz) < sz" by (simp add: free_bits_def)
  then show ?thesis
    using assms by (simp add: get_first_free_bit_def Let_def find_first_bit_Min unat_of_nat_u32)
qed

section \<open>The contract of an allocator\<close>

text \<open>
  What the file system relies on: \<open>grab\<close> hands out a free object and marks it used, or 0 when
  there is none; \<open>put\<close> marks an object that is in use as free; \<open>counter\<close> follows the number of
  free objects.  \<open>slack\<close> is the constant by which the counter exceeds the bitmap: 0 for a
  consistent pool, 1 for the inode pool that \<^verbatim>\<open>mkfs\<close> writes.
\<close>

locale free_pool =
  fixes grab :: "'s \<Rightarrow> u32 \<times> 's"
    and put :: "'s \<Rightarrow> u32 \<Rightarrow> 's"
    and free :: "'s \<Rightarrow> u32 set"
    and univ :: "'s \<Rightarrow> u32 set"
    and counter :: "'s \<Rightarrow> u32"
    and pool :: "'s \<Rightarrow> bool"
    and slack :: nat
  assumes free_univ: "pool s \<Longrightarrow> free s \<subseteq> univ s"
    and univ_nonzero: "pool s \<Longrightarrow> 0 \<notin> univ s"
    and counter_free: "pool s \<Longrightarrow> unat (counter s) = card (free s) + slack"
    and grab_none: "pool s \<Longrightarrow> free s = {} \<Longrightarrow> grab s = (0, s)"
    and grab_free: "pool s \<Longrightarrow> free s \<noteq> {} \<Longrightarrow> fst (grab s) \<in> free s"
    and grab_least: "pool s \<Longrightarrow> b \<in> free s \<Longrightarrow> fst (grab s) \<le> b"
    and grab_pool: "pool s \<Longrightarrow> pool (snd (grab s))"
    and free_grab: "pool s \<Longrightarrow> free (snd (grab s)) = free s - {fst (grab s)}"
    and univ_grab: "pool s \<Longrightarrow> univ (snd (grab s)) = univ s"
    and put_pool: "pool s \<Longrightarrow> b \<in> univ s - free s \<Longrightarrow> pool (put s b)"
    and free_put: "pool s \<Longrightarrow> b \<in> univ s \<Longrightarrow> free (put s b) = insert b (free s)"
    and univ_put: "pool s \<Longrightarrow> univ (put s b) = univ s"
begin

lemma finite_free: "finite (free s)"
  by simp

lemma grab_zero_iff: "pool s \<Longrightarrow> fst (grab s) = 0 \<longleftrightarrow> free s = {}"
  using grab_none grab_free free_univ univ_nonzero by fastforce

lemma grab_fails_iff_counter: "pool s \<Longrightarrow> fst (grab s) = 0 \<longleftrightarrow> unat (counter s) = slack"
  using counter_free [of s] by (simp add: grab_zero_iff)

lemma grab_fresh: "pool s \<Longrightarrow> fst (grab s) \<notin> free (snd (grab s))"
  by (simp add: free_grab)

lemma counter_grab:
  assumes "pool s" and "fst (grab s) \<noteq> 0"
  shows "unat (counter (snd (grab s))) + 1 = unat (counter s)"
proof -
  have "fst (grab s) \<in> free s" using assms grab_zero_iff grab_free by blast
  then have "card (free s - {fst (grab s)}) + 1 = card (free s)"
    by (metis Suc_eq_plus1 card_Suc_Diff1 finite_free)
  then show ?thesis
    using assms by (simp add: counter_free grab_pool free_grab)
qed

text \<open>Freeing what was just taken gives the old pool back.\<close>

lemma grab_put:
  assumes "pool s" and "fst (grab s) \<noteq> 0"
  shows "free (put (snd (grab s)) (fst (grab s))) = free s"
    and "pool (put (snd (grab s)) (fst (grab s)))"
proof -
  have f: "fst (grab s) \<in> free s" using assms grab_zero_iff grab_free by blast
  then have u: "fst (grab s) \<in> univ (snd (grab s))"
    using assms free_univ univ_grab by blast
  show "free (put (snd (grab s)) (fst (grab s))) = free s"
    using assms f u by (auto simp: free_put grab_pool free_grab)
  show "pool (put (snd (grab s)) (fst (grab s)))"
    using assms u by (intro put_pool) (auto simp: grab_pool free_grab)
qed

text \<open>Allocating \<open>n\<close> times.\<close>

primrec grabs :: "nat \<Rightarrow> 's \<Rightarrow> u32 list \<times> 's" where
  "grabs 0 s = ([], s)"
| "grabs (Suc n) s =
     (let (b, s1) = grab s; (bs, s2) = grabs n s1 in (b # bs, s2))"

lemma grabs_sound:
  assumes "pool s" and "n \<le> card (free s)"
  shows "distinct (fst (grabs n s)) \<and> set (fst (grabs n s)) \<subseteq> free s \<and>
    length (fst (grabs n s)) = n \<and> pool (snd (grabs n s)) \<and>
    free (snd (grabs n s)) = free s - set (fst (grabs n s))"
  using assms
proof (induction n arbitrary: s)
  case 0
  then show ?case by simp
next
  case (Suc n)
  obtain b s1 where g: "grab s = (b, s1)" by fastforce
  have ne: "free s \<noteq> {}" using Suc.prems(2) by auto
  have b: "b \<in> free s" using grab_free [OF Suc.prems(1) ne] g by simp
  have s1: "pool s1" "free s1 = free s - {b}"
    using grab_pool [OF Suc.prems(1)] free_grab [OF Suc.prems(1)] g by simp_all
  have "n \<le> card (free s1)" using Suc.prems(2) b s1(2) by simp
  note IH = Suc.IH [OF s1(1) this]
  have "grabs (Suc n) s = (b # fst (grabs n s1), snd (grabs n s1))"
    by (simp add: g case_prod_beta)
  then show ?case using IH b s1(2) by (simp add: subset_iff) blast
qed

end

section \<open>The block and inode pools\<close>

definition free_blocks :: "sb_info \<Rightarrow> u32 set" where
  "free_blocks sb = {b. unat b \<in> free_bits (bfree_bitmap sb) (unat (nr_blocks sb))}"

definition free_inodes :: "sb_info \<Rightarrow> u32 set" where
  "free_inodes sb = {b. unat b \<in> free_bits (ifree_bitmap sb) (unat (nr_inodes sb))}"

definition block_univ :: "sb_info \<Rightarrow> u32 set" where
  "block_univ sb = {b. 0 < b \<and> b < nr_blocks sb}"

definition inode_univ :: "sb_info \<Rightarrow> u32 set" where
  "inode_univ sb = {b. 0 < b \<and> b < nr_inodes sb}"

definition bitmap_pool :: "nat \<Rightarrow> bitmap \<Rightarrow> u32 \<Rightarrow> u32 \<Rightarrow> bool" where
  "bitmap_pool k m sz cnt \<longleftrightarrow>
     \<not> test_bit m 0 \<and> unat cnt = card (free_bits m (unat sz)) + k \<and> unat sz + k \<le> 2 ^ 32"

definition block_pool :: "sb_info \<Rightarrow> bool" where
  "block_pool sb \<longleftrightarrow> bitmap_pool 0 (bfree_bitmap sb) (nr_blocks sb) (nr_free_blocks sb)"

definition inode_pool :: "nat \<Rightarrow> sb_info \<Rightarrow> bool" where
  "inode_pool k sb \<longleftrightarrow> bitmap_pool k (ifree_bitmap sb) (nr_inodes sb) (nr_free_inodes sb)"

text \<open>The fields of the inode pool, which no operation on blocks touches.\<close>

definition inode_part :: "sb_info \<Rightarrow> u32 \<times> bitmap \<times> u32" where
  "inode_part sb = (nr_inodes sb, ifree_bitmap sb, nr_free_inodes sb)"

lemma inode_part_cong:
  assumes "inode_part sb = inode_part sb'"
  shows "free_inodes sb = free_inodes sb'" "inode_univ sb = inode_univ sb'" "inode_pool k sb = inode_pool k sb'"
  using assms by (simp_all add: inode_part_def free_inodes_def inode_univ_def inode_pool_def)

lemma inode_part_get_free_block [simp]: "inode_part (snd (get_free_block sb)) = inode_part sb"
  by (simp add: inode_part_def get_free_block_def Let_def split: prod.splits)

lemma inode_part_upd [simp]:
  "inode_part (sb\<lparr>nr_sliced_blocks := x\<rparr>) = inode_part sb" "inode_part (sb\<lparr>s_free_sliced_blocks := y\<rparr>) = inode_part sb"
  "inode_part (sb\<lparr>nr_used_slices := x\<rparr>) = inode_part sb"
  by (simp_all add: inode_part_def)

lemma bitmap_pool_zero: "bitmap_pool k m sz cnt \<Longrightarrow> 0 \<notin> free_bits m n"
  by (simp add: bitmap_pool_def free_bits_def)

lemma card_unat_vimage:
  assumes "A \<subseteq> {..<2 ^ 32}"
  shows "card {b :: u32. unat b \<in> A} = card A"
proof -
  have "unat ` {b :: u32. unat b \<in> A} = A"
  proof (intro equalityI subsetI)
    fix i assume "i \<in> A"
    moreover from this have "unat (of_nat i :: u32) = i"
      using assms by (intro unat_of_nat_u32) auto
    ultimately show "i \<in> unat ` {b :: u32. unat b \<in> A}" by (metis imageI mem_Collect_eq)
  qed auto
  moreover have "inj_on unat {b :: u32. unat b \<in> A}"
    by (simp add: inj_on_def word_unat_eq_iff)
  ultimately show ?thesis by (metis card_image)
qed

lemma free_bits_bound: "free_bits m (unat (sz :: u32)) \<subseteq> {..<2 ^ 32}"
  using unsigned_less [of sz, where ?'a = nat] by (auto simp: free_bits_def)

lemma card_free_set: "card {b :: u32. unat b \<in> free_bits m (unat (sz :: u32))} = card (free_bits m (unat sz))"
  by (rule card_unat_vimage) (rule free_bits_bound)

lemma get_first_free_bit_pool:
  assumes "bitmap_pool k m sz cnt" and "free_bits m (unat sz) \<noteq> {}"
  obtains b where "get_first_free_bit m (unat sz) = (b, bitmap_clear1 m (unat b))"
    and "unat b = Min (free_bits m (unat sz))" and "unat b \<in> free_bits m (unat sz)"
    and "b \<noteq> 0" and "bitmap_pool k (bitmap_clear1 m (unat b)) sz (cnt - 1)"
proof -
  let ?F = "free_bits m (unat sz)"
  let ?b = "of_nat (Min ?F) :: u32"
  have Min: "Min ?F \<in> ?F" using assms(2) by simp
  then have lt: "Min ?F < 2 ^ 32" using free_bits_bound by auto
  have u: "unat ?b = Min ?F" using lt by (rule unat_of_nat_u32)
  have "Min ?F \<noteq> 0" using Min bitmap_pool_zero [OF assms(1)] by metis
  then have nz: "?b \<noteq> 0" using u by (metis unat_0)
  have c: "card (?F - {Min ?F}) + 1 = card ?F"
    using Min by (metis Suc_eq_plus1 card_Suc_Diff1 finite_free_bits)
  have "unat cnt = card ?F + k" using assms(1) by (simp add: bitmap_pool_def)
  with c have "unat (cnt - 1) + 1 = card ?F + k"
    by (metis Suc_eq_plus1 add_Suc add_is_0 nat.distinct(1) unat_0 unat_minus_one
        Suc_pred' gr0I add.commute)
  then have "bitmap_pool k (bitmap_clear1 m (unat ?b)) sz (cnt - 1)"
    using assms(1) c by (auto simp: bitmap_pool_def free_bits_clear1 u)
  moreover have "get_first_free_bit m (unat sz) = (?b, bitmap_clear1 m (unat ?b))"
    using get_first_free_bit_some [OF _ assms(2)] unsigned_less [of sz, where ?'a = nat] u by simp
  ultimately show thesis using that u nz Min by metis
qed

lemma get_first_free_bit_pool_none:
  "free_bits m (unat (sz :: u32)) = {} \<Longrightarrow> get_first_free_bit m (unat sz) = (0, m)"
  using get_first_free_bit_none [of "unat sz" m] unsigned_less [of sz, where ?'a = nat] by simp

lemma put_free_bit_pool:
  assumes "bitmap_pool k m sz cnt" and "0 < b" and "b < sz" and "\<not> test_bit m (unat b)"
  shows "bitmap_pool k (bitmap_set1 m (unat b)) sz (cnt + 1)"
proof -
  let ?F = "free_bits m (unat sz)"
  have b: "0 < unat b" "unat b < unat sz"
    using assms(2,3) by (simp_all add: word_less_nat_alt)
  have "?F \<subseteq> {..<unat sz} - {0, unat b}"
    using assms(1,4) by (auto simp: bitmap_pool_def free_bits_def intro: gr0I)
  then have "card ?F \<le> card ({..<unat sz} - {0, unat b})" by (intro card_mono) auto
  also have "\<dots> = unat sz - 2" using b by (simp add: card_Diff_subset)
  finally have "card ?F \<le> unat sz - 2" .
  moreover have "unat cnt = card ?F + k" and "unat sz + k \<le> 2 ^ 32"
    using assms(1) by (simp_all add: bitmap_pool_def)
  ultimately have "unat cnt + 1 < 2 ^ 32" using b by simp
  then have "unat (cnt + 1) = card ?F + k + 1"
    using \<open>unat cnt = card ?F + k\<close> by (simp add: unat_word_ariths)
  moreover have "unat b \<notin> ?F" using assms(4) by (simp add: free_bits_def)
  ultimately show ?thesis
    using assms b by (simp add: bitmap_pool_def free_bits_set1)
qed

lemma get_free_block_some:
  assumes "block_pool sb" and "free_blocks sb \<noteq> {}"
  obtains b where "get_free_block sb = (b, sb\<lparr>bfree_bitmap := bitmap_clear1 (bfree_bitmap sb) (unat b),
        nr_free_blocks := nr_free_blocks sb - 1\<rparr>)"
    and "b \<in> free_blocks sb" and "b \<noteq> 0" and "\<And>c. c \<in> free_blocks sb \<Longrightarrow> b \<le> c"
    and "block_pool (snd (get_free_block sb))"
proof -
  have "free_bits (bfree_bitmap sb) (unat (nr_blocks sb)) \<noteq> {}"
    using assms(2) by (auto simp: free_blocks_def)
  from get_first_free_bit_pool [OF assms(1) [unfolded block_pool_def] this]
  obtain b where b: "get_first_free_bit (bfree_bitmap sb) (unat (nr_blocks sb)) =
        (b, bitmap_clear1 (bfree_bitmap sb) (unat b))"
    "unat b = Min (free_bits (bfree_bitmap sb) (unat (nr_blocks sb)))"
    "unat b \<in> free_bits (bfree_bitmap sb) (unat (nr_blocks sb))" "b \<noteq> 0"
    "bitmap_pool 0 (bitmap_clear1 (bfree_bitmap sb) (unat b)) (nr_blocks sb) (nr_free_blocks sb - 1)"
    by blast
  then show thesis
    by (intro that [of b])
      (auto simp: get_free_block_def block_pool_def free_blocks_def word_le_nat_alt)
qed

lemma get_free_block_none:
  "free_blocks sb = {} \<Longrightarrow> block_pool sb \<Longrightarrow> get_free_block sb = (0, sb)"
proof -
  assume "free_blocks sb = {}" and "block_pool sb"
  then have "free_bits (bfree_bitmap sb) (unat (nr_blocks sb)) = {}"
    using card_free_set [of "bfree_bitmap sb" "nr_blocks sb"] by (simp add: free_blocks_def)
  then show ?thesis
    by (simp add: get_free_block_def get_first_free_bit_pool_none)
qed

lemma get_free_inode_some:
  assumes "inode_pool k sb" and "free_inodes sb \<noteq> {}"
  obtains b where "get_free_inode sb = (b, sb\<lparr>ifree_bitmap := bitmap_clear1 (ifree_bitmap sb) (unat b),
        nr_free_inodes := nr_free_inodes sb - 1\<rparr>)"
    and "b \<in> free_inodes sb" and "b \<noteq> 0" and "\<And>c. c \<in> free_inodes sb \<Longrightarrow> b \<le> c"
    and "inode_pool k (snd (get_free_inode sb))"
proof -
  have "free_bits (ifree_bitmap sb) (unat (nr_inodes sb)) \<noteq> {}"
    using assms(2) by (auto simp: free_inodes_def)
  from get_first_free_bit_pool [OF assms(1) [unfolded inode_pool_def] this]
  obtain b where b: "get_first_free_bit (ifree_bitmap sb) (unat (nr_inodes sb)) =
        (b, bitmap_clear1 (ifree_bitmap sb) (unat b))"
    "unat b = Min (free_bits (ifree_bitmap sb) (unat (nr_inodes sb)))"
    "unat b \<in> free_bits (ifree_bitmap sb) (unat (nr_inodes sb))" "b \<noteq> 0"
    "bitmap_pool k (bitmap_clear1 (ifree_bitmap sb) (unat b)) (nr_inodes sb) (nr_free_inodes sb - 1)"
    by blast
  then show thesis
    by (intro that [of b])
      (auto simp: get_free_inode_def inode_pool_def free_inodes_def word_le_nat_alt)
qed

lemma get_free_inode_none:
  "free_inodes sb = {} \<Longrightarrow> inode_pool k sb \<Longrightarrow> get_free_inode sb = (0, sb)"
proof -
  assume "free_inodes sb = {}" and "inode_pool k sb"
  then have "free_bits (ifree_bitmap sb) (unat (nr_inodes sb)) = {}"
    using card_free_set [of "ifree_bitmap sb" "nr_inodes sb"] by (simp add: free_inodes_def)
  then show ?thesis
    by (simp add: get_free_inode_def get_first_free_bit_pool_none)
qed

lemma put_block_in_use:
  "b \<in> block_univ sb \<Longrightarrow>
     put_block sb b = sb\<lparr>bfree_bitmap := bitmap_set1 (bfree_bitmap sb) (unat b),
       nr_free_blocks := nr_free_blocks sb + 1\<rparr>"
  by (auto simp: put_block_def put_free_bit_def block_univ_def word_less_nat_alt)

lemma put_inode_in_use:
  "b \<in> inode_univ sb \<Longrightarrow>
     put_inode sb b = sb\<lparr>ifree_bitmap := bitmap_set1 (ifree_bitmap sb) (unat b),
       nr_free_inodes := nr_free_inodes sb + 1\<rparr>"
  by (auto simp: put_inode_def put_free_bit_def inode_univ_def word_less_nat_alt)

lemma nr_blocks_put_block [simp]: "nr_blocks (put_block sb b) = nr_blocks sb"
  by (simp add: put_block_def split: prod.splits)

lemma nr_inodes_put_inode [simp]: "nr_inodes (put_inode sb b) = nr_inodes sb"
  by (simp add: put_inode_def split: prod.splits)

lemma nr_blocks_get_free_block [simp]: "nr_blocks (snd (get_free_block sb)) = nr_blocks sb"
  by (simp add: get_free_block_def Let_def split: prod.splits)

lemma nr_inodes_get_free_inode [simp]: "nr_inodes (snd (get_free_inode sb)) = nr_inodes sb"
  by (simp add: get_free_inode_def Let_def split: prod.splits)

interpretation blocks: free_pool get_free_block put_block free_blocks block_univ
  nr_free_blocks block_pool 0
proof
  fix s b
  assume pool: "block_pool s"
  show "free_blocks s \<subseteq> block_univ s"
  proof
    fix c assume "c \<in> free_blocks s"
    moreover from this have "c \<noteq> 0"
      using pool bitmap_pool_zero by (auto simp: block_pool_def free_blocks_def)
    ultimately show "c \<in> block_univ s"
      by (auto simp: free_blocks_def block_univ_def free_bits_def word_less_nat_alt unat_gt_0)
  qed
  show "0 \<notin> block_univ s" by (simp add: block_univ_def)
  show "unat (nr_free_blocks s) = card (free_blocks s) + 0"
    using pool by (simp add: block_pool_def bitmap_pool_def free_blocks_def card_free_set)
  show "free_blocks s = {} \<Longrightarrow> get_free_block s = (0, s)"
    using pool by (simp add: get_free_block_none)
  show "free_blocks s \<noteq> {} \<Longrightarrow> fst (get_free_block s) \<in> free_blocks s"
    using pool by (metis get_free_block_some fst_conv)
  show "b \<in> free_blocks s \<Longrightarrow> fst (get_free_block s) \<le> b"
    using pool by (metis get_free_block_some fst_conv empty_iff)
  show "block_pool (snd (get_free_block s))"
    using pool by (metis get_free_block_some get_free_block_none snd_conv)
  show "free_blocks (snd (get_free_block s)) = free_blocks s - {fst (get_free_block s)}"
  proof (cases "free_blocks s = {}")
    case False
    from get_free_block_some [OF pool False] obtain c where
      c: "get_free_block s = (c, s\<lparr>bfree_bitmap := bitmap_clear1 (bfree_bitmap s) (unat c),
        nr_free_blocks := nr_free_blocks s - 1\<rparr>)" by blast
    show ?thesis by (auto simp: c free_blocks_def free_bits_clear1 word_unat_eq_iff)
  qed (use pool in \<open>simp add: get_free_block_none\<close>)
  show "block_univ (snd (get_free_block s)) = block_univ s"
    by (simp add: block_univ_def)
  show "b \<in> block_univ s - free_blocks s \<Longrightarrow> block_pool (put_block s b)"
    using pool by (auto simp: put_block_in_use block_pool_def block_univ_def free_blocks_def
        free_bits_def word_less_nat_alt intro!: put_free_bit_pool)
  show "b \<in> block_univ s \<Longrightarrow> free_blocks (put_block s b) = insert b (free_blocks s)"
    by (auto simp: put_block_in_use) 
      (auto simp: free_blocks_def free_bits_def block_univ_def word_less_nat_alt word_unat_eq_iff)
  show "block_univ (put_block s b) = block_univ s"
    by (simp add: block_univ_def)
qed

interpretation inos: free_pool get_free_inode put_inode free_inodes inode_univ
  nr_free_inodes "inode_pool k" k for k
proof
  fix s b
  assume pool: "inode_pool k s"
  show "free_inodes s \<subseteq> inode_univ s"
  proof
    fix c assume "c \<in> free_inodes s"
    moreover from this have "c \<noteq> 0"
      using pool bitmap_pool_zero by (auto simp: inode_pool_def free_inodes_def)
    ultimately show "c \<in> inode_univ s"
      by (auto simp: free_inodes_def inode_univ_def free_bits_def word_less_nat_alt unat_gt_0)
  qed
  show "0 \<notin> inode_univ s" by (simp add: inode_univ_def)
  show "unat (nr_free_inodes s) = card (free_inodes s) + k"
    using pool by (simp add: inode_pool_def bitmap_pool_def free_inodes_def card_free_set)
  show "free_inodes s = {} \<Longrightarrow> get_free_inode s = (0, s)"
    using pool by (simp add: get_free_inode_none)
  show "free_inodes s \<noteq> {} \<Longrightarrow> fst (get_free_inode s) \<in> free_inodes s"
    using pool by (metis get_free_inode_some fst_conv)
  show "b \<in> free_inodes s \<Longrightarrow> fst (get_free_inode s) \<le> b"
    using pool by (metis get_free_inode_some fst_conv empty_iff)
  show "inode_pool k (snd (get_free_inode s))"
    using pool by (metis get_free_inode_some get_free_inode_none snd_conv)
  show "free_inodes (snd (get_free_inode s)) = free_inodes s - {fst (get_free_inode s)}"
  proof (cases "free_inodes s = {}")
    case False
    from get_free_inode_some [OF pool False] obtain c where
      c: "get_free_inode s = (c, s\<lparr>ifree_bitmap := bitmap_clear1 (ifree_bitmap s) (unat c),
        nr_free_inodes := nr_free_inodes s - 1\<rparr>)" by blast
    show ?thesis by (auto simp: c free_inodes_def free_bits_clear1 word_unat_eq_iff)
  qed (use pool in \<open>simp add: get_free_inode_none\<close>)
  show "inode_univ (snd (get_free_inode s)) = inode_univ s"
    by (simp add: inode_univ_def)
  show "b \<in> inode_univ s - free_inodes s \<Longrightarrow> inode_pool k (put_inode s b)"
    using pool by (auto simp: put_inode_in_use inode_pool_def inode_univ_def free_inodes_def
        free_bits_def word_less_nat_alt intro!: put_free_bit_pool)
  show "b \<in> inode_univ s \<Longrightarrow> free_inodes (put_inode s b) = insert b (free_inodes s)"
    by (auto simp: put_inode_in_use) 
      (auto simp: free_inodes_def free_bits_def inode_univ_def word_less_nat_alt word_unat_eq_iff)
  show "inode_univ (put_inode s b) = inode_univ s"
    by (simp add: inode_univ_def)
qed

section \<open>Bitmap blocks round trip\<close>

lemma copy_bitmap_from_le64_apply:
  "copy_bitmap_from_le64 m dst src j =
     (if dst \<le> j \<and> j < dst + 512 then get64 src (8 * (j - dst)) else m j)"
proof -
  have "fold (\<lambda>i m. m(dst + i := get64 src (8 * i))) [0..<n] m j =
      (if dst \<le> j \<and> j < dst + n then get64 src (8 * (j - dst)) else m j)" for n
    by (induction n) auto
  from this [of 512] show ?thesis by (simp add: copy_bitmap_from_le64_def del: upt_rec_numeral)
qed

lemma fold_put64_get:
  assumes "i < n"
  shows "get64 (fold (\<lambda>i b. put64 (m (src + i)) (8 * i) b) [0..<n] dst) (8 * i) = m (src + i)"
  using assms
proof (induction n)
  case (Suc n)
  then show ?case
    by (cases "i = n") (simp_all add: block_simps)
qed simp

lemma copy_bitmap_to_le64_get:
  "i < 512 \<Longrightarrow> get64 (copy_bitmap_to_le64 dst m src) (8 * i) = m (src + i)"
  using fold_put64_get [of i 512 m src dst] by (simp add: copy_bitmap_to_le64_def del: upt_rec_numeral)

end
