(* ===== verification/Ouiche_Device.thy ===== *)
theory Ouiche_Device
  imports Ouiche_Bitmap
begin

text \<open>
  The mounted file system as one state record, and the services of the Linux kernel the module
  calls.  What the kernel decides (does reading a block succeed, does an allocation succeed,
  what time is it, can an in-memory inode be had) is a parameter \<open>env\<close> of every operation that asks.

  The buffer cache is part of the state: \<^verbatim>\<open>sb_bread\<close> returns the one buffer of a block, whose
  \<^verbatim>\<open>b_data\<close> is \<open>cache s b\<close>, and takes a reference on it; \<^verbatim>\<open>brelse\<close> drops the reference; a
  buffer marked dirty reaches \<open>disk\<close> when it is synced.  References are counted in \<open>refs\<close>, so
  that a leaked or doubly released buffer is visible in the model.  In-memory inodes are objects
  shared by every operation, addressed by inode number.
\<close>

section \<open>State\<close>

record env =
  bread_ok :: "u32 \<Rightarrow> bool"
  kmalloc_ok :: "nat \<Rightarrow> bool"
  current_time :: timespec
  iget_ok :: "u32 \<Rightarrow> bool"

record fs =
  sbi :: sb_info
  cache :: "u32 \<Rightarrow> block"
  disk :: "u32 \<Rightarrow> block"
  dirty :: "u32 set"
  refs :: "u32 \<Rightarrow> int"
  inodes :: "u32 \<Rightarrow> inode"
  icached :: "u32 set"
  idirty :: "u32 set"

section \<open>Buffers\<close>

definition sb_bread :: "env \<Rightarrow> u32 \<Rightarrow> fs \<Rightarrow> fs option" where
  "sb_bread E b s = (if bread_ok E b then Some (s\<lparr>refs := (refs s)(b := refs s b + 1)\<rparr>) else None)"

definition brelse :: "u32 \<Rightarrow> fs \<Rightarrow> fs" where
  "brelse b s = s\<lparr>refs := (refs s)(b := refs s b - 1)\<rparr>"

text \<open>\<^verbatim>\<open>if (bh) brelse(bh)\<close>.\<close>

definition brelse_opt :: "u32 option \<Rightarrow> fs \<Rightarrow> fs" where
  "brelse_opt bh s = (case bh of None \<Rightarrow> s | Some b \<Rightarrow> brelse b s)"

definition mark_buffer_dirty :: "u32 \<Rightarrow> fs \<Rightarrow> fs" where
  "mark_buffer_dirty b s = s\<lparr>dirty := insert b (dirty s)\<rparr>"

definition sync_dirty_buffer :: "u32 \<Rightarrow> fs \<Rightarrow> fs" where
  "sync_dirty_buffer b s =
     (if b \<in> dirty s then s\<lparr>disk := (disk s)(b := cache s b), dirty := dirty s - {b}\<rparr> else s)"

text \<open>A store through \<^verbatim>\<open>bh->b_data\<close>.\<close>

definition buf_upd :: "u32 \<Rightarrow> (block \<Rightarrow> block) \<Rightarrow> fs \<Rightarrow> fs" where
  "buf_upd b f s = s\<lparr>cache := (cache s)(b := f (cache s b))\<rparr>"

section \<open>Inodes and superblock\<close>

definition upd_inode :: "u32 \<Rightarrow> (inode \<Rightarrow> inode) \<Rightarrow> fs \<Rightarrow> fs" where
  "upd_inode i f s = s\<lparr>inodes := (inodes s)(i := f (inodes s i))\<rparr>"

definition mark_inode_dirty :: "u32 \<Rightarrow> fs \<Rightarrow> fs" where
  "mark_inode_dirty i s = s\<lparr>idirty := insert i (idirty s)\<rparr>"

definition upd_sbi :: "(sb_info \<Rightarrow> sb_info) \<Rightarrow> fs \<Rightarrow> fs" where
  "upd_sbi f s = s\<lparr>sbi := f (sbi s)\<rparr>"

definition fs_get_free_block :: "fs \<Rightarrow> u32 \<times> fs" where
  "fs_get_free_block s = (let (b, sb) = get_free_block (sbi s) in (b, s\<lparr>sbi := sb\<rparr>))"

definition fs_put_block :: "u32 \<Rightarrow> fs \<Rightarrow> fs" where
  "fs_put_block b s = s\<lparr>sbi := put_block (sbi s) b\<rparr>"

section \<open>User and kernel iterators\<close>

text \<open>The source of a write: \<open>it_count\<close> bytes are announced (\<^verbatim>\<open>iov_iter_count\<close>) and \<open>it_bytes\<close>
  are the ones that can be read before the first faulting address, so a copy is short exactly
  when it reaches past \<open>it_bytes\<close>.\<close>

record iov_iter =
  it_bytes :: "u8 list"
  it_count :: nat

definition copy_from_iter :: "nat \<Rightarrow> iov_iter \<Rightarrow> u8 list \<times> iov_iter" where
  "copy_from_iter n it =
     (let n' = min n (it_count it); got = take n' (it_bytes it)
      in (got, it\<lparr>it_bytes := drop n' (it_bytes it), it_count := it_count it - length got\<rparr>))"

text \<open>The destination of a read: the bytes copied out so far, and how many more can be stored
  before the first faulting address.\<close>

record out_iter =
  out_bytes :: "u8 list"
  out_room :: nat
  out_count :: nat

definition copy_to_iter :: "u8 list \<Rightarrow> out_iter \<Rightarrow> nat \<times> out_iter" where
  "copy_to_iter bs it =
     (let n = min (length bs) (min (out_room it) (out_count it))
      in (n, it\<lparr>out_bytes := out_bytes it @ take n bs, out_room := out_room it - n,
            out_count := out_count it - n\<rparr>))"

record kiocb =
  ki_pos :: nat
  ki_append :: bool

section \<open>Frame facts\<close>

lemmas fs_defs =
  brelse_def brelse_opt_def mark_buffer_dirty_def sync_dirty_buffer_def buf_upd_def
  upd_inode_def mark_inode_dirty_def upd_sbi_def fs_put_block_def

text \<open>A buffer that is not dirty agrees with the disk: no change is lost when it is evicted.\<close>

definition coherent :: "fs \<Rightarrow> bool" where
  "coherent s \<longleftrightarrow> (\<forall>b. b \<notin> dirty s \<longrightarrow> cache s b = disk s b)"

lemma coherent_buf_upd_dirty:
  "coherent s \<Longrightarrow> coherent (mark_buffer_dirty b (buf_upd b f s))"
  by (simp add: coherent_def fs_defs)

lemma coherent_brelse [simp]: "coherent (brelse b s) = coherent s"
  by (simp add: coherent_def fs_defs)

lemma coherent_sync [simp]: "coherent s \<Longrightarrow> coherent (sync_dirty_buffer b s)"
  by (simp add: coherent_def fs_defs)

lemma coherent_sbi [simp]: "coherent (s\<lparr>sbi := x\<rparr>) = coherent s"
  by (simp add: coherent_def)

lemma coherent_refs [simp]: "coherent (s\<lparr>refs := x\<rparr>) = coherent s"
  by (simp add: coherent_def)

lemma sb_bread_Some:
  "bread_ok E b \<Longrightarrow> sb_bread E b s = Some (s\<lparr>refs := (refs s)(b := refs s b + 1)\<rparr>)"
  by (simp add: sb_bread_def)

lemma sb_bread_None: "\<not> bread_ok E b \<Longrightarrow> sb_bread E b s = None"
  by (simp add: sb_bread_def)

section \<open>Held buffers\<close>

definition hold :: "u32 \<Rightarrow> fs \<Rightarrow> fs" where
  "hold b s = s\<lparr>refs := (refs s)(b := refs s b + 1)\<rparr>"

lemma sb_bread_hold: "bread_ok E b \<Longrightarrow> sb_bread E b s = Some (hold b s)"
  by (simp add: sb_bread_def hold_def)

lemma brelse_hold [simp]: "brelse b (hold b s) = s"
  by (simp add: brelse_def hold_def)

lemma brelse_hold_first: "brelse a (hold b (hold a s)) = hold b s"
  by (cases "a = b") (simp_all add: brelse_def hold_def fun_upd_twist add.commute)

lemma hold_simps [simp]:
  "cache (hold b s) = cache s" "sbi (hold b s) = sbi s" "disk (hold b s) = disk s"
  "dirty (hold b s) = dirty s" "inodes (hold b s) = inodes s" "idirty (hold b s) = idirty s"
  by (simp_all add: hold_def)

section \<open>Free blocks\<close>

text \<open>The invariant the code relies on without stating it: a free block holds zeroes, so that a
  block handed out by the allocator needs no clearing.\<close>

definition zeroed :: "block \<Rightarrow> bool" where
  "zeroed d \<longleftrightarrow> (\<forall>k < 4096. d k = 0)"

definition free_zeroed :: "fs \<Rightarrow> bool" where
  "free_zeroed s \<longleftrightarrow> (\<forall>b \<in> free_blocks (sbi s). zeroed (cache s b))"

lemma zeroed_memset [simp]: "zeroed (memset d 0 0 4096)"
  by (simp add: zeroed_def memset_def)

lemma zeroed_get32: "zeroed d \<Longrightarrow> off + 4 \<le> 4096 \<Longrightarrow> get32 d off = 0"
  by (rule get_le_zero) (simp add: zeroed_def)

end
