(* ===== verification/Ouiche_Slices.thy ===== *)
theory Ouiche_Slices
  imports Ouiche_Device
begin

text \<open>
  Sliced blocks, from \<^verbatim>\<open>src/file.c\<close>: a block of 32 slices of 128 bytes whose slice 0 is a header
  (a bitmap of free slices and the number of the next sliced block), the search for a run of
  free slices, the allocation of a sliced block, and the deletion of a run with the walk that
  frees empty sliced blocks and repairs the chain.
\<close>

section \<open>Operations\<close>

definition is_small_file :: "inode \<Rightarrow> bool" where
  "is_small_file nd \<longleftrightarrow> i_blocks nd = 0"

definition is_new :: "u32 \<Rightarrow> bool" where
  "is_new ib \<longleftrightarrow> ib = 0"

definition will_be_small :: "nat \<Rightarrow> bool" where
  "will_be_small new_size \<longleftrightarrow> new_size \<le> OUICHEFS_BLOCK_SIZE - OUICHEFS_SLICE_SIZE"

text \<open>\<^verbatim>\<open>x << n\<close> on a 32-bit operand: the target takes the shift count modulo 32.\<close>

definition u32_shl :: "u32 \<Rightarrow> u32 \<Rightarrow> u32" where
  "u32_shl x n = push_bit (unat n mod 32) x"

definition init_slice_block :: "env \<Rightarrow> u32 \<Rightarrow> fs \<Rightarrow> fs option" where
  "init_slice_block E blk s =
     (case sb_bread E blk s of
        None \<Rightarrow> None
      | Some s \<Rightarrow> Some (buf_upd blk (\<lambda>d. d(0 := 0xFE, 1 := 0xFF, 2 := 0xFF, 3 := 0xFF)) s))"

text \<open>The result is the \<^verbatim>\<open>ssize_t\<close> and the buffer left in \<^verbatim>\<open>*bh_data\<close>.\<close>

definition allocate_and_init_slice_block :: "env \<Rightarrow> fs \<Rightarrow> int \<times> u32 option \<times> fs" where
  "allocate_and_init_slice_block E s =
     (let (free_block, s) = fs_get_free_block s in
      if free_block = 0 \<or> free_block > 2 ^ 27
      then (- ENOSPC, None, fs_put_block free_block s)
      else case init_slice_block E free_block s of
        None \<Rightarrow> (- EIO, None, fs_put_block free_block s)
      | Some s \<Rightarrow>
          (int (unat free_block), Some free_block,
           upd_sbi (\<lambda>sb. sb\<lparr>nr_sliced_blocks := nr_sliced_blocks sb + 1\<rparr>) s))"

text \<open>The walk of \<^verbatim>\<open>delete_slice\<close> over the chain, with \<open>fuel\<close> steps.\<close>

fun reap_sliced_blocks :: "env \<Rightarrow> nat \<Rightarrow> u32 \<Rightarrow> u32 option \<Rightarrow> fs \<Rightarrow> (int \<times> fs) res" where
  "reap_sliced_blocks E fuel current_bno bh_prev s =
     (if current_bno = 0 then Inr (0, brelse_opt bh_prev s)
      else case fuel of
        0 \<Rightarrow> Inl NoReturn
      | Suc fuel \<Rightarrow>
         (case sb_bread E current_bno s of
            None \<Rightarrow> Inr (- EIO, brelse_opt bh_prev s)
          | Some s \<Rightarrow>
             (let next_bno = SLICED_BLOCK_SB_NEXT (cache s current_bno) in
              if BITMAP_IS_ALL_FREE (cache s current_bno) then
                let s = (case bh_prev of
                           Some p \<Rightarrow> mark_buffer_dirty p (buf_upd p (SLICED_BLOCK_SB_SET_NEXT next_bno) s)
                         | None \<Rightarrow> upd_sbi (\<lambda>sb. sb\<lparr>s_free_sliced_blocks := next_bno\<rparr>) s);
                    s = upd_sbi (\<lambda>sb. sb\<lparr>nr_sliced_blocks := nr_sliced_blocks sb - 1\<rparr>) s;
                    s = buf_upd current_bno (\<lambda>d. memset d 0 0 OUICHEFS_BLOCK_SIZE) s;
                    s = fs_put_block current_bno s;
                    s = brelse current_bno (mark_buffer_dirty current_bno s)
                in reap_sliced_blocks E fuel next_bno bh_prev s
              else reap_sliced_blocks E fuel next_bno (Some current_bno) (brelse_opt bh_prev s))))"

declare reap_sliced_blocks.simps [simp del]

definition delete_slice :: "env \<Rightarrow> nat \<Rightarrow> u32 \<Rightarrow> u32 \<Rightarrow> u32 \<Rightarrow> fs \<Rightarrow> (int \<times> fs) res" where
  "delete_slice E fuel bno slice_no num s =
     (if bno = 0 then Inr (0, s)
      else if num = 0 then Inr (0, s)
      else case sb_bread E bno s of
        None \<Rightarrow> Inr (- EIO, s)
      | Some s \<Rightarrow>
         (let msk = u32_shl (u32_shl 1 num - 1) slice_no;
              s = buf_upd bno (\<lambda>d. SLICED_BLOCK_SB_SET_BITMAP (SLICED_BLOCK_SB_BITMAP d OR msk) d) s
          in if unat slice_no * OUICHEFS_SLICE_SIZE + unat (num * 128) > OUICHEFS_BLOCK_SIZE
             then Inl OutOfBounds
             else
               let s = buf_upd bno (\<lambda>d. memset d (unat slice_no * OUICHEFS_SLICE_SIZE) 0 (unat (num * 128))) s;
                   s = upd_sbi (\<lambda>sb. sb\<lparr>nr_used_slices := nr_used_slices sb - num\<rparr>) s;
                   s = brelse bno (mark_buffer_dirty bno s)
               in reap_sliced_blocks E fuel (s_free_sliced_blocks (sbi s)) None s))"

definition delete_slice_and_clear_inode :: "env \<Rightarrow> nat \<Rightarrow> u32 \<Rightarrow> fs \<Rightarrow> (int \<times> fs) res" where
  "delete_slice_and_clear_inode E fuel i s =
     (let ci = inodes s i in
      case delete_slice E fuel (SMALL_FILE_GET_BNO ci) (SMALL_FILE_GET_SLICE ci)
             (ucast (num_slices ci)) s of
        Inl f \<Rightarrow> Inl f
      | Inr (ret, s) \<Rightarrow>
          if ret < 0 then Inr (ret, s)
          else Inr (0, mark_inode_dirty i (upd_inode i (\<lambda>nd. nd\<lparr>index_block := 0, i_size := 0\<rparr>) s)))"

text \<open>The loop of \<^verbatim>\<open>get_consequitive_free_slices\<close>: the first position whose mask fits.\<close>

function scan_slices :: "u32 \<Rightarrow> u32 \<Rightarrow> nat \<Rightarrow> nat \<Rightarrow> (nat \<times> u32) option" where
  "scan_slices bitmap msk i limit =
     (if i \<le> limit then
        (if bitmap OR msk = bitmap then Some (i, msk)
         else scan_slices bitmap (push_bit 1 msk) (Suc i) limit)
      else None)"
  by pat_completeness auto
termination
  by (relation "measure (\<lambda>(b, m, i, l). Suc l - i)") auto

declare scan_slices.simps [simp del]

definition get_consequitive_free_slices :: "u32 \<Rightarrow> u32 \<Rightarrow> nat \<Rightarrow> fs \<Rightarrow> u32 \<times> fs" where
  "get_consequitive_free_slices bh i file_size s =
     (if file_size > OUICHEFS_BLOCK_SIZE then (0, s)
      else
        let bitmap = SLICED_BLOCK_SB_BITMAP (cache s bh);
            num_slices_needed = of_nat (div_round_up file_size OUICHEFS_SLICE_SIZE) :: u32;
            msk = push_bit 1 (u32_shl 1 num_slices_needed - 1)
        in case scan_slices bitmap msk 1 (OUICHEFS_BITMAP_SIZE_BITS - unat num_slices_needed) of
             None \<Rightarrow> (0, s)
           | Some (j, msk) \<Rightarrow>
               (of_nat j,
                mark_inode_dirty i
                 (upd_inode i (\<lambda>nd. nd\<lparr>num_slices := ucast num_slices_needed\<rparr>)
                   (buf_upd bh (\<lambda>d. SLICED_BLOCK_SB_SET_BITMAP (SLICED_BLOCK_SB_BITMAP d AND NOT msk) d) s))))"

section \<open>Runs of free slices\<close>

definition run_free :: "u32 \<Rightarrow> nat \<Rightarrow> nat \<Rightarrow> bool" where
  "run_free bm j n \<longleftrightarrow> (\<forall>k. j \<le> k \<and> k < j + n \<longrightarrow> bit bm k)"

text \<open>The mask of \<open>n\<close> slices from slice \<open>j\<close> on.\<close>

definition run_mask :: "nat \<Rightarrow> nat \<Rightarrow> u32" where
  "run_mask j n = push_bit j (Bit_Operations.mask n)"

lemma bit_run_mask: "bit (run_mask j n) k \<longleftrightarrow> j \<le> k \<and> k < j + n \<and> k < 32"
  by (auto simp: run_mask_def bit_push_bit_iff bit_mask_iff)

lemma or_run_mask_eq:
  assumes "j + n \<le> 32"
  shows "bm OR run_mask j n = bm \<longleftrightarrow> run_free bm j n"
proof
  assume "bm OR run_mask j n = bm"
  then have "bit bm k \<or> bit (run_mask j n) k \<longleftrightarrow> bit bm k" for k
    by (metis bit_or_iff)
  then show "run_free bm j n" using assms by (fastforce simp: run_free_def bit_run_mask)
next
  assume "run_free bm j n"
  then show "bm OR run_mask j n = bm"
    by (intro bit_word_eqI) (auto simp: bit_or_iff bit_run_mask run_free_def)
qed

lemma run_mask_shift: "push_bit 1 (run_mask j n) = run_mask (Suc j) n"
  by (simp add: run_mask_def push_bit_eq_mult)

lemma run_mask_double: "run_mask j n * 2 = run_mask (Suc j) n"
  by (simp add: run_mask_def push_bit_eq_mult)

lemma run_mask_initial:
  assumes "unat n < 32"
  shows "push_bit 1 (u32_shl 1 n - 1) = run_mask 1 (unat n)"
  using assms by (simp add: u32_shl_def run_mask_def mask_eq_exp_minus_1 push_bit_eq_mult)

lemma run_mask_of_slice:
  assumes "unat n < 32" and "unat j < 32"
  shows "u32_shl (u32_shl 1 n - 1) j = run_mask (unat j) (unat n)"
  using assms by (simp add: u32_shl_def run_mask_def mask_eq_exp_minus_1 push_bit_eq_mult)

lemma scan_slices_spec:
  assumes "limit + n \<le> 32"
  shows "scan_slices bm (run_mask i n) i limit =
    (if \<exists>j. i \<le> j \<and> j \<le> limit \<and> run_free bm j n
     then let j = (LEAST j. i \<le> j \<and> run_free bm j n) in Some (j, run_mask j n) else None)"
proof (induction "Suc limit - i" arbitrary: i)
  case 0
  then show ?case by (subst scan_slices.simps) auto
next
  case (Suc d)
  then have i: "i \<le> limit" by simp
  show ?case
  proof (cases "run_free bm i n")
    case True
    then have "(LEAST j. i \<le> j \<and> run_free bm j n) = i" by (auto intro: Least_equality)
    with True i show ?thesis
      using assms by (subst scan_slices.simps) (auto simp: or_run_mask_eq Let_def)
  next
    case False
    have "scan_slices bm (run_mask i n) i limit = scan_slices bm (run_mask (Suc i) n) (Suc i) limit"
      using False i assms by (subst scan_slices.simps) (simp add: or_run_mask_eq run_mask_double)
    moreover have "(i \<le> j \<and> run_free bm j n) = (Suc i \<le> j \<and> run_free bm j n)" for j
      using False by (cases "j = i") auto
    moreover have "(i \<le> j \<and> j \<le> limit \<and> run_free bm j n) = (Suc i \<le> j \<and> j \<le> limit \<and> run_free bm j n)" for j
      using False by (cases "j = i") auto
    moreover have "d = Suc limit - Suc i" using Suc.hyps(2) by simp
    ultimately show ?thesis using Suc.hyps(1) [of "Suc i"] by simp blast
  qed
qed

text \<open>The search on a buffer: it succeeds exactly when the block has a long enough run of free
  slices, and then claims the first one.\<close>

definition has_run :: "u32 \<Rightarrow> nat \<Rightarrow> bool" where
  "has_run bm n \<longleftrightarrow> (\<exists>j. 1 \<le> j \<and> j + n \<le> 32 \<and> run_free bm j n)"

definition first_run :: "u32 \<Rightarrow> nat \<Rightarrow> nat" where
  "first_run bm n = (LEAST j. 1 \<le> j \<and> run_free bm j n)"

lemma first_run_props:
  assumes "has_run bm n"
  shows "1 \<le> first_run bm n" and "first_run bm n + n \<le> 32" and "run_free bm (first_run bm n) n"
proof -
  from assms obtain j where j: "1 \<le> j \<and> run_free bm j n" "j + n \<le> 32"
    by (auto simp: has_run_def)
  show "1 \<le> first_run bm n" and "run_free bm (first_run bm n) n"
    unfolding first_run_def using LeastI [of "\<lambda>j. 1 \<le> j \<and> run_free bm j n", OF j(1)] by auto
  have "first_run bm n \<le> j"
    unfolding first_run_def using j(1) by (rule Least_le)
  then show "first_run bm n + n \<le> 32" using j(2) by simp
qed

lemma get_consequitive_free_slices_eq:
  assumes "file_size \<le> 31 * 128" and "n = div_round_up file_size 128"
  shows "get_consequitive_free_slices bh i file_size s =
    (let bm = SLICED_BLOCK_SB_BITMAP (cache s bh); j = first_run bm n in
     if has_run bm n then
       (of_nat j, mark_inode_dirty i (upd_inode i (\<lambda>nd. nd\<lparr>num_slices := of_nat n\<rparr>)
          (buf_upd bh (\<lambda>d. SLICED_BLOCK_SB_SET_BITMAP (SLICED_BLOCK_SB_BITMAP d AND NOT (run_mask j n)) d) s)))
     else (0, s))"
proof -
  let ?bm = "SLICED_BLOCK_SB_BITMAP (cache s bh)"
  have n: "n \<le> 31" using assms div_round_up_le_iff [of 128 file_size 31] by simp
  then have un: "unat (of_nat n :: u32) = n" by (simp add: unat_of_nat_u32)
  have m: "push_bit 1 (u32_shl 1 (of_nat n) - 1) = run_mask 1 n"
    using run_mask_initial [of "of_nat n"] n un by simp
  have sc: "scan_slices ?bm (run_mask 1 n) 1 (32 - n) =
      (if has_run ?bm n then Some (first_run ?bm n, run_mask (first_run ?bm n) n) else None)"
    using scan_slices_spec [of "32 - n" n ?bm 1] n
    by (simp add: has_run_def first_run_def Let_def le_diff_conv2 cong: conj_cong)
  have u: "ucast (of_nat n :: u32) = (of_nat n :: u16)"
    using n by (intro word_unat_eq_iff [THEN iffD2])
      (simp add: unsigned_ucast_eq un unat_of_nat take_bit_nat_eq_self_iff)
  show ?thesis
    using assms(1) sc m un u
    by (simp add: get_consequitive_free_slices_def assms(2) [symmetric] Let_def)
qed

section \<open>The chain of sliced blocks\<close>

primrec chain :: "(u32 \<Rightarrow> block) \<Rightarrow> u32 \<Rightarrow> u32 list \<Rightarrow> bool" where
  "chain c h [] \<longleftrightarrow> h = 0"
| "chain c h (b # bs) \<longleftrightarrow> h = b \<and> b \<noteq> 0 \<and> chain c (SLICED_BLOCK_SB_NEXT (c b)) bs"

lemma chain_cong:
  "(\<And>b. b \<in> set bs \<Longrightarrow> SLICED_BLOCK_SB_NEXT (c b) = SLICED_BLOCK_SB_NEXT (c' b)) \<Longrightarrow>
     chain c h bs = chain c' h bs"
  by (induction bs arbitrary: h) auto

lemma chain_unique: "chain c h bs \<Longrightarrow> chain c h bs' \<Longrightarrow> bs = bs'"
proof (induction bs arbitrary: h bs')
  case Nil
  then show ?case by (cases bs') auto
next
  case (Cons b bs)
  then show ?case by (cases bs') auto
qed

text \<open>Where the walk hangs the rest of the chain: the superblock field or the previous block.\<close>

definition link :: "fs \<Rightarrow> u32 option \<Rightarrow> u32" where
  "link s prev = (case prev of None \<Rightarrow> s_free_sliced_blocks (sbi s)
                  | Some p \<Rightarrow> SLICED_BLOCK_SB_NEXT (cache s p))"

text \<open>Two versions of a block that differ at most in the next pointer.\<close>

definition same_but_next :: "block \<Rightarrow> block \<Rightarrow> bool" where
  "same_but_next d d' \<longleftrightarrow> (\<forall>k. k < 4 \<or> 8 \<le> k \<longrightarrow> d k = d' k)"

lemma same_but_next_refl [simp]: "same_but_next d d"
  by (simp add: same_but_next_def)

lemma same_but_next_trans: "same_but_next a b \<Longrightarrow> same_but_next b c \<Longrightarrow> same_but_next a c"
  by (auto simp: same_but_next_def)

lemma same_but_next_set [simp]: "same_but_next d (SLICED_BLOCK_SB_SET_NEXT v d)"
  by (auto simp: same_but_next_def sliced_header_defs block_simps)

lemma same_but_next_bitmap: "same_but_next d d' \<Longrightarrow> SLICED_BLOCK_SB_BITMAP d = SLICED_BLOCK_SB_BITMAP d'"
  unfolding sliced_header_defs by (rule get_le_cong) (simp add: same_but_next_def)

definition empty_blocks :: "fs \<Rightarrow> u32 list \<Rightarrow> u32 list" where
  "empty_blocks s xs = filter (\<lambda>b. BITMAP_IS_ALL_FREE (cache s b)) xs"

definition kept_blocks :: "fs \<Rightarrow> u32 list \<Rightarrow> u32 list" where
  "kept_blocks s xs = filter (\<lambda>b. \<not> BITMAP_IS_ALL_FREE (cache s b)) xs"

text \<open>What the walk from \<open>prev\<close> over the chain blocks \<open>xs\<close> does to the state.\<close>

definition reaped :: "u32 list \<Rightarrow> u32 option \<Rightarrow> fs \<Rightarrow> fs \<Rightarrow> bool" where
  "reaped xs prev s s' \<longleftrightarrow>
     chain (cache s') (link s' prev) (kept_blocks s xs) \<and>
     (\<forall>b \<in> set (empty_blocks s xs). zeroed (cache s' b)) \<and>
     (\<forall>b \<in> set (kept_blocks s xs) \<union> set_option prev. same_but_next (cache s b) (cache s' b)) \<and>
     (\<forall>b. b \<notin> set xs \<and> b \<notin> set_option prev \<longrightarrow> cache s' b = cache s b) \<and>
     block_pool (sbi s') \<and>
     free_blocks (sbi s') = free_blocks (sbi s) \<union> set (empty_blocks s xs) \<and>
     nr_sliced_blocks (sbi s') = nr_sliced_blocks (sbi s) - of_nat (length (empty_blocks s xs)) \<and>
     refs s' = refs (brelse_opt prev s) \<and>
     inodes s' = inodes s \<and> nr_used_slices (sbi s') = nr_used_slices (sbi s) \<and>
     nr_blocks (sbi s') = nr_blocks (sbi s) \<and>
     (prev \<noteq> None \<longrightarrow> s_free_sliced_blocks (sbi s') = s_free_sliced_blocks (sbi s)) \<and>
     (coherent s \<longrightarrow> coherent s')"

text \<open>One removal step of the walk.\<close>

definition unlink_block :: "u32 \<Rightarrow> u32 option \<Rightarrow> fs \<Rightarrow> fs" where
  "unlink_block b prev s =
     (let nxt = SLICED_BLOCK_SB_NEXT (cache s b);
          s = (case prev of
                 Some p \<Rightarrow> mark_buffer_dirty p (buf_upd p (SLICED_BLOCK_SB_SET_NEXT nxt) s)
               | None \<Rightarrow> upd_sbi (\<lambda>sb. sb\<lparr>s_free_sliced_blocks := nxt\<rparr>) s);
          s = upd_sbi (\<lambda>sb. sb\<lparr>nr_sliced_blocks := nr_sliced_blocks sb - 1\<rparr>) s;
          s = buf_upd b (\<lambda>d. memset d 0 0 OUICHEFS_BLOCK_SIZE) s;
          s = fs_put_block b s
      in mark_buffer_dirty b s)"

lemma brelse_bread [simp]: "s\<lparr>refs := (refs s)(b := refs s b)\<rparr> = s"
  by simp

lemma reap_step_empty:
  assumes "b \<noteq> 0" and "bread_ok E b" and "BITMAP_IS_ALL_FREE (cache s b)"
  shows "reap_sliced_blocks E (Suc fuel) b prev s =
    reap_sliced_blocks E fuel (SLICED_BLOCK_SB_NEXT (cache s b)) prev (unlink_block b prev s)"
  using assms
  by (subst reap_sliced_blocks.simps)
    (cases prev; simp add: sb_bread_Some unlink_block_def fs_defs Let_def)

lemma reap_step_keep:
  assumes "b \<noteq> 0" and "bread_ok E b" and "\<not> BITMAP_IS_ALL_FREE (cache s b)"
  shows "reap_sliced_blocks E (Suc fuel) b prev s =
    reap_sliced_blocks E fuel (SLICED_BLOCK_SB_NEXT (cache s b)) (Some b)
      (brelse_opt prev (s\<lparr>refs := (refs s)(b := refs s b + 1)\<rparr>))"
  using assms
  by (subst reap_sliced_blocks.simps) (simp add: sb_bread_Some Let_def)

lemma reap_end: "reap_sliced_blocks E fuel 0 prev s = Inr (0, brelse_opt prev s)"
  by (subst reap_sliced_blocks.simps) simp

lemma unlink_block_facts:
  assumes "block_pool (sbi s)" and "b \<in> block_univ (sbi s)" and "b \<notin> free_blocks (sbi s)"
    and "b \<notin> set_option prev"
  shows "link (unlink_block b prev s) prev = SLICED_BLOCK_SB_NEXT (cache s b)"
    and "zeroed (cache (unlink_block b prev s) b)"
    and "p \<in> set_option prev \<Longrightarrow> same_but_next (cache s p) (cache (unlink_block b prev s) p)"
    and "c \<noteq> b \<Longrightarrow> c \<notin> set_option prev \<Longrightarrow> cache (unlink_block b prev s) c = cache s c"
    and "block_pool (sbi (unlink_block b prev s))"
    and "free_blocks (sbi (unlink_block b prev s)) = insert b (free_blocks (sbi s))"
    and "nr_sliced_blocks (sbi (unlink_block b prev s)) = nr_sliced_blocks (sbi s) - 1"
    and "refs (unlink_block b prev s) = refs s"
    and "inodes (unlink_block b prev s) = inodes s"
    and "nr_used_slices (sbi (unlink_block b prev s)) = nr_used_slices (sbi s)"
    and "nr_blocks (sbi (unlink_block b prev s)) = nr_blocks (sbi s)"
    and "prev \<noteq> None \<Longrightarrow> s_free_sliced_blocks (sbi (unlink_block b prev s)) = s_free_sliced_blocks (sbi s)"
    and "coherent s \<Longrightarrow> coherent (unlink_block b prev s)"
proof -
  have pb: "put_block sb b = sb\<lparr>bfree_bitmap := bitmap_set1 (bfree_bitmap sb) (unat b),
       nr_free_blocks := nr_free_blocks sb + 1\<rparr>" if "nr_blocks sb = nr_blocks (sbi s)" for sb
    using assms(2) that by (intro put_block_in_use) (simp add: block_univ_def)
  show "block_pool (sbi (unlink_block b prev s))"
    using blocks.put_pool [OF assms(1), of b] assms(2,3)
    by (cases prev) (simp_all add: unlink_block_def fs_defs pb block_pool_def Let_def)
  show "free_blocks (sbi (unlink_block b prev s)) = insert b (free_blocks (sbi s))"
    using blocks.free_put [OF assms(1,2)]
    by (cases prev) (simp_all add: unlink_block_def fs_defs pb free_blocks_def Let_def)
  show "coherent s \<Longrightarrow> coherent (unlink_block b prev s)"
    by (cases prev) (auto simp: unlink_block_def fs_defs coherent_def Let_def)
qed (use assms(4) in \<open>cases prev; simp add: unlink_block_def fs_defs link_def Let_def put_block_def put_free_bit_def split: prod.splits if_splits\<close>)+

lemma empty_blocks_cong:
  "(\<And>b. b \<in> set xs \<Longrightarrow> cache s b = cache s' b) \<Longrightarrow> empty_blocks s xs = empty_blocks s' xs"
  unfolding empty_blocks_def by (rule filter_cong) auto

lemma kept_blocks_cong:
  "(\<And>b. b \<in> set xs \<Longrightarrow> cache s b = cache s' b) \<Longrightarrow> kept_blocks s xs = kept_blocks s' xs"
  unfolding kept_blocks_def by (rule filter_cong) auto

lemma reaped_cons_empty:
  assumes R: "reaped xs prev (unlink_block b prev s) s'"
    and b: "b \<notin> set xs" "b \<notin> set_option prev" "BITMAP_IS_ALL_FREE (cache s b)"
    and xs: "set xs \<inter> set_option prev = {}"
    and pool: "block_pool (sbi s)" "b \<in> block_univ (sbi s)" "b \<notin> free_blocks (sbi s)"
  shows "reaped (b # xs) prev s s'"
proof -
  let ?u = "unlink_block b prev s"
  note U = unlink_block_facts [OF pool b(2)]
  have same: "cache ?u c = cache s c" if "c \<in> set xs" for c
    using that b(1) xs by (intro U(4)) auto
  have e: "empty_blocks ?u xs = empty_blocks s xs"
    by (rule empty_blocks_cong) (rule same)
  have k: "kept_blocks ?u xs = kept_blocks s xs"
    by (rule kept_blocks_cong) (rule same)
  have e': "empty_blocks s (b # xs) = b # empty_blocks s xs"
    and k': "kept_blocks s (b # xs) = kept_blocks s xs"
    using b(3) by (simp_all add: empty_blocks_def kept_blocks_def)
  note R = R [unfolded reaped_def e k]
  have z: "zeroed (cache s' b)" using R U(2) b by metis
  have sbn: "same_but_next (cache s c) (cache s' c)" if "c \<in> set (kept_blocks s xs) \<union> set_option prev" for c
  proof (cases "c \<in> set_option prev")
    case True
    with U(3) R show ?thesis using same_but_next_trans by blast
  next
    case False
    with that have "c \<in> set xs" "c \<in> set (kept_blocks s xs)" by (auto simp: kept_blocks_def)
    with R have "same_but_next (cache ?u c) (cache s' c)" by blast
    then show ?thesis using same [OF \<open>c \<in> set xs\<close>] by simp
  qed
  show ?thesis
    unfolding reaped_def e' k'
    using R z sbn U b(1,2) by (auto simp: brelse_opt_def brelse_def split: option.splits)
qed

lemma reaped_cons_keep:
  assumes R: "reaped xs (Some b) (brelse_opt prev (s\<lparr>refs := (refs s)(b := refs s b + 1)\<rparr>)) s'"
    and b: "b \<notin> set xs" "b \<notin> set_option prev" "b \<noteq> 0" "\<not> BITMAP_IS_ALL_FREE (cache s b)"
    and xs: "set xs \<inter> set_option prev = {}" and l: "link s prev = b"
  shows "reaped (b # xs) prev s s'"
proof -
  let ?u = "brelse_opt prev (s\<lparr>refs := (refs s)(b := refs s b + 1)\<rparr>)"
  have u: "cache ?u = cache s" "sbi ?u = sbi s" "inodes ?u = inodes s" "coherent ?u = coherent s"
    by (cases prev; simp add: brelse_opt_def brelse_def coherent_def)+
  have e: "empty_blocks ?u xs = empty_blocks s xs" and k: "kept_blocks ?u xs = kept_blocks s xs"
    by (simp_all add: empty_blocks_def kept_blocks_def u)
  have e': "empty_blocks s (b # xs) = empty_blocks s xs"
    and k': "kept_blocks s (b # xs) = b # kept_blocks s xs"
    using b(4) by (simp_all add: empty_blocks_def kept_blocks_def)
  note R = R [unfolded reaped_def e k u]
  have p: "p \<in> set_option prev \<Longrightarrow> cache s' p = cache s p" for p
    using R b(2) xs by auto
  have l': "link s' prev = b"
    using l R p by (cases prev) (auto simp: link_def)
  have r: "refs s' = refs (brelse_opt prev s)"
    using R b(2) by (cases prev) (auto simp: brelse_opt_def brelse_def fun_eq_iff)
  show ?thesis
    unfolding reaped_def e' k'
    using R p l' r b(3) by (auto simp: link_def)
qed

theorem reap_sliced_blocks_correct:
  assumes "chain (cache s) cur xs" and "link s prev = cur" and "distinct xs"
    and "set xs \<inter> set_option prev = {}" and "length xs \<le> fuel"
    and "\<forall>b \<in> set xs. bread_ok E b \<and> b \<in> block_univ (sbi s) \<and> b \<notin> free_blocks (sbi s)"
    and "block_pool (sbi s)"
  shows "\<exists>s'. reap_sliced_blocks E fuel cur prev s = Inr (0, s') \<and> reaped xs prev s s'"
  using assms
proof (induction xs arbitrary: cur prev s fuel)
  case Nil
  have "reaped [] prev s (brelse_opt prev s)"
    using Nil by (cases prev)
      (auto simp: reaped_def kept_blocks_def empty_blocks_def brelse_opt_def brelse_def coherent_def link_def)
  with Nil show ?case by (simp add: reap_end)
next
  case (Cons b xs)
  obtain fuel' where fuel: "fuel = Suc fuel'" using Cons.prems(5) by (cases fuel) auto
  have b: "cur = b" "b \<noteq> 0" "b \<notin> set xs" "b \<notin> set_option prev" "bread_ok E b"
    "b \<in> block_univ (sbi s)" "b \<notin> free_blocks (sbi s)" "chain (cache s) (SLICED_BLOCK_SB_NEXT (cache s b)) xs"
    and xs: "distinct xs" "length xs \<le> fuel'" "set xs \<inter> set_option prev = {}"
    using Cons.prems fuel by auto
  let ?nxt = "SLICED_BLOCK_SB_NEXT (cache s b)"
  show ?case
  proof (cases "BITMAP_IS_ALL_FREE (cache s b)")
    case True
    let ?u = "unlink_block b prev s"
    note U = unlink_block_facts [OF Cons.prems(7) b(6,7,4)]
    have "chain (cache ?u) ?nxt xs"
      using b(8) chain_cong [of xs "cache ?u" "cache s" ?nxt] U(4) b(3) xs(3) by fastforce
    moreover have "\<forall>c \<in> set xs. bread_ok E c \<and> c \<in> block_univ (sbi ?u) \<and> c \<notin> free_blocks (sbi ?u)"
      using Cons.prems(6) b(3) U(6,11) by (auto simp: block_univ_def)
    ultimately obtain s' where s': "reap_sliced_blocks E fuel' ?nxt prev ?u = Inr (0, s')"
      "reaped xs prev ?u s'"
      using Cons.IH [of ?u ?nxt prev fuel'] U(1,5) xs by blast
    have "reaped (b # xs) prev s s'"
      using s'(2) b(3,4) True xs(3) Cons.prems(7) b(6,7) by (rule reaped_cons_empty)
    then show ?thesis
      using s'(1) reap_step_empty [OF b(2,5) True] b(1) fuel by auto
  next
    case False
    let ?u = "brelse_opt prev (s\<lparr>refs := (refs s)(b := refs s b + 1)\<rparr>)"
    have u: "cache ?u = cache s" "sbi ?u = sbi s"
      by (cases prev; simp add: brelse_opt_def brelse_def)+
    have "link ?u (Some b) = ?nxt" by (simp add: link_def u)
    moreover have "set xs \<inter> set_option (Some b) = {}" using b(3) by simp
    moreover have "\<forall>c \<in> set xs. bread_ok E c \<and> c \<in> block_univ (sbi ?u) \<and> c \<notin> free_blocks (sbi ?u)"
      using Cons.prems(6) u by simp
    ultimately obtain s' where s': "reap_sliced_blocks E fuel' ?nxt (Some b) ?u = Inr (0, s')"
      "reaped xs (Some b) ?u s'"
      using Cons.IH [of ?u ?nxt "Some b" fuel'] b(8) xs u Cons.prems(7) by metis
    have "reaped (b # xs) prev s s'"
      using s'(2) b(3,4,2) False xs(3) Cons.prems(2) [unfolded b(1)] by (rule reaped_cons_keep)
    then show ?thesis
      using s'(1) reap_step_keep [OF b(2,5) False] b(1) fuel by auto
  qed
qed

section \<open>Deleting a run of slices\<close>

definition clear_run :: "block \<Rightarrow> nat \<Rightarrow> nat \<Rightarrow> block" where
  "clear_run d j n =
     memset (SLICED_BLOCK_SB_SET_BITMAP (SLICED_BLOCK_SB_BITMAP d OR run_mask j n) d)
       (j * OUICHEFS_SLICE_SIZE) 0 (n * OUICHEFS_SLICE_SIZE)"

definition run_cleared :: "u32 \<Rightarrow> nat \<Rightarrow> nat \<Rightarrow> fs \<Rightarrow> fs" where
  "run_cleared bno j n s =
     s\<lparr>cache := (cache s)(bno := clear_run (cache s bno) j n),
       sbi := (sbi s)\<lparr>nr_used_slices := nr_used_slices (sbi s) - of_nat n\<rparr>,
       dirty := insert bno (dirty s)\<rparr>"

lemma unat_mult_128: "unat (n :: u32) \<le> 32 \<Longrightarrow> unat (n * 128) = unat n * 128"
  by (simp add: unat_word_ariths)

lemma delete_slice_reap:
  assumes "bno \<noteq> 0" and "num \<noteq> 0" and "unat sl + unat num \<le> 32" and "unat sl \<noteq> 0"
    and "bread_ok E bno"
  shows "delete_slice E fuel bno sl num s =
    reap_sliced_blocks E fuel (s_free_sliced_blocks (sbi s)) None
      (run_cleared bno (unat sl) (unat num) s)"
proof -
  have "0 < unat num" using assms(2) by (simp add: unat_gt_0)
  then have lt: "unat num < 32" "unat sl < 32" using assms(3,4) by linarith+
  have m: "u32_shl (u32_shl 1 num - 1) sl = run_mask (unat sl) (unat num)"
    using lt by (rule run_mask_of_slice)
  have u: "unat (num * 128) = unat num * 128" using lt by (intro unat_mult_128) simp
  show ?thesis
    using assms lt
    by (simp add: delete_slice_def sb_bread_Some m u fs_defs run_cleared_def clear_run_def Let_def)
qed

lemma clear_run_bitmap:
  assumes "1 \<le> j"
  shows "SLICED_BLOCK_SB_BITMAP (clear_run d j n) = SLICED_BLOCK_SB_BITMAP d OR run_mask j n"
proof -
  have "SLICED_BLOCK_SB_BITMAP (clear_run d j n) =
      SLICED_BLOCK_SB_BITMAP (SLICED_BLOCK_SB_SET_BITMAP (SLICED_BLOCK_SB_BITMAP d OR run_mask j n) d)"
    unfolding clear_run_def SLICED_BLOCK_SB_BITMAP_def using assms by (intro get_memset_disjoint) simp
  then show ?thesis by simp
qed

lemma clear_run_next:
  assumes "1 \<le> j"
  shows "SLICED_BLOCK_SB_NEXT (clear_run d j n) = SLICED_BLOCK_SB_NEXT d"
proof -
  have "SLICED_BLOCK_SB_NEXT (clear_run d j n) =
      SLICED_BLOCK_SB_NEXT (SLICED_BLOCK_SB_SET_BITMAP (SLICED_BLOCK_SB_BITMAP d OR run_mask j n) d)"
    unfolding clear_run_def SLICED_BLOCK_SB_NEXT_def using assms by (intro get_memset_disjoint) simp
  then show ?thesis by simp
qed

lemma clear_run_payload:
  "8 \<le> k \<Longrightarrow> clear_run d j n k = (if j * 128 \<le> k \<and> k < (j + n) * 128 then 0 else d k)"
  by (simp add: clear_run_def memset_def add_mult_distrib)

text \<open>The well-formed chain of sliced blocks: it starts at \<^verbatim>\<open>s_free_sliced_blocks\<close>, visits every
  block once, every block of it is allocated and readable.\<close>

definition sliced_chain :: "env \<Rightarrow> fs \<Rightarrow> u32 list \<Rightarrow> bool" where
  "sliced_chain E s xs \<longleftrightarrow>
     chain (cache s) (s_free_sliced_blocks (sbi s)) xs \<and> distinct xs \<and>
     (\<forall>b \<in> set xs. bread_ok E b \<and> b \<in> block_univ (sbi s) \<and> b \<notin> free_blocks (sbi s)) \<and>
     block_pool (sbi s)"

lemma delete_slice_reaped:
  assumes "sliced_chain E s xs" and "bno \<in> set xs" and "num \<noteq> 0"
    and "unat sl \<noteq> 0" and "unat sl + unat num \<le> 32" and "length xs \<le> fuel"
  shows "\<exists>s'. delete_slice E fuel bno sl num s = Inr (0, s') \<and>
    reaped xs None (run_cleared bno (unat sl) (unat num) s) s'"
proof -
  let ?u = "run_cleared bno (unat sl) (unat num) s"
  have c: "chain (cache s) (s_free_sliced_blocks (sbi s)) xs" and "distinct xs"
    and xs: "\<forall>b \<in> set xs. bread_ok E b \<and> b \<in> block_univ (sbi s) \<and> b \<notin> free_blocks (sbi s)"
    and pool: "block_pool (sbi s)"
    using assms(1) by (auto simp: sliced_chain_def)
  have nz: "bno \<noteq> 0" using xs assms(2) by (auto simp: block_univ_def)
  have "SLICED_BLOCK_SB_NEXT (cache s b) = SLICED_BLOCK_SB_NEXT (cache ?u b)" for b
    using assms(4) by (simp add: run_cleared_def clear_run_next)
  then have "chain (cache ?u) (s_free_sliced_blocks (sbi s)) xs"
    using c chain_cong [of xs "cache s" "cache ?u"] by blast
  moreover have "link ?u None = s_free_sliced_blocks (sbi s)"
    by (simp add: link_def run_cleared_def)
  moreover have "\<forall>b \<in> set xs. bread_ok E b \<and> b \<in> block_univ (sbi ?u) \<and> b \<notin> free_blocks (sbi ?u)"
    using xs by (simp add: run_cleared_def block_univ_def free_blocks_def)
  moreover have "block_pool (sbi ?u)"
    using pool by (simp add: run_cleared_def block_pool_def)
  ultimately have "\<exists>s'. reap_sliced_blocks E fuel (s_free_sliced_blocks (sbi s)) None ?u = Inr (0, s') \<and>
      reaped xs None ?u s'"
    using \<open>distinct xs\<close> assms(6) by (intro reap_sliced_blocks_correct) auto
  then show ?thesis
    using delete_slice_reap [OF nz assms(3,5,4)] xs assms(2) by auto
qed

lemma reaped_None_chain:
  assumes "reaped xs None u s'" and "distinct xs"
    and "\<forall>b \<in> set xs. bread_ok E b \<and> b \<in> block_univ (sbi u) \<and> b \<notin> free_blocks (sbi u)"
  shows "sliced_chain E s' (kept_blocks u xs)"
  using assms unfolding reaped_def sliced_chain_def
  by (auto simp: link_def kept_blocks_def empty_blocks_def block_univ_def)

text \<open>The bitmap of a chain block after the run of \<open>bno\<close> is given back.\<close>

definition bitmap_after_delete :: "fs \<Rightarrow> u32 \<Rightarrow> u32 \<Rightarrow> u32 \<Rightarrow> u32 \<Rightarrow> u32" where
  "bitmap_after_delete s bno sl num b =
     SLICED_BLOCK_SB_BITMAP (cache s b) OR (if b = bno then run_mask (unat sl) (unat num) else 0)"

lemma bitmap_run_cleared:
  "unat sl \<noteq> 0 \<Longrightarrow> SLICED_BLOCK_SB_BITMAP (cache (run_cleared bno (unat sl) (unat num) s) b) =
     bitmap_after_delete s bno sl num b"
  by (simp add: run_cleared_def bitmap_after_delete_def clear_run_bitmap)

end
