(* ===== verification/Ouiche_File.thy ===== *)
theory Ouiche_File
  imports Ouiche_Slices
begin

text \<open>
  The regular-file operations of \<^verbatim>\<open>src/file.c\<close>: block mapping, the address-space hooks, opening
  with truncation, reading, and the three write paths (a file kept in slices, a file kept in
  blocks, and the conversion of the first into the second).

  A handler takes the inode by its number \<open>i\<close> and returns the \<^verbatim>\<open>ssize_t\<close> of the C function with
  the new request block, iterator and state; a fault ends the call.  The helpers of the kernel's
  generic file code (\<^verbatim>\<open>block_write_begin\<close>, \<^verbatim>\<open>generic_write_end\<close>) are function parameters.
\<close>

section \<open>Index blocks\<close>

text \<open>\<^verbatim>\<open>index->blocks[k]\<close>.\<close>

definition index_get :: "block \<Rightarrow> nat \<Rightarrow> u32" where
  "index_get d k = get32 d (4 * k)"

definition index_set :: "nat \<Rightarrow> u32 \<Rightarrow> block \<Rightarrow> block" where
  "index_set k v d = put32 v (4 * k) d"

text \<open>The block mapped into \<^verbatim>\<open>bh_result\<close> is the second component.\<close>

definition ouichefs_file_get_block ::
  "env \<Rightarrow> u32 \<Rightarrow> nat \<Rightarrow> bool \<Rightarrow> fs \<Rightarrow> int \<times> u32 option \<times> fs" where
  "ouichefs_file_get_block E i iblock create s =
     (if iblock \<ge> OUICHEFS_BLOCK_SIZE div 4 then (- EFBIG, None, s)
      else
        let ib = index_block (inodes s i) in
        case sb_bread E ib s of
          None \<Rightarrow> (- EIO, None, s)
        | Some s \<Rightarrow>
            if index_get (cache s ib) iblock = 0 then
              (if \<not> create then (0, None, brelse ib s)
               else
                 let (bno, s) = fs_get_free_block s in
                 if bno = 0 then (- ENOSPC, None, brelse ib s)
                 else
                   let s = mark_buffer_dirty ib (buf_upd ib (index_set iblock bno) s)
                   in (0, Some bno, brelse ib s))
            else (0, Some (index_get (cache s ib) iblock), brelse ib s))"

section \<open>Address-space hooks\<close>

definition ouichefs_write_begin ::
  "(fs \<Rightarrow> int \<times> fs) \<Rightarrow> u32 \<Rightarrow> nat \<Rightarrow> nat \<Rightarrow> fs \<Rightarrow> int \<times> fs" where
  "ouichefs_write_begin block_write_begin i pos len s =
     (let nd = inodes s i in
      if pos + len > OUICHEFS_MAX_FILESIZE then (- ENOSPC, s)
      else
        let nr_allocs = of_nat (max (pos + len) (i_size nd) div OUICHEFS_BLOCK_SIZE) :: u32;
            nr_allocs = (if (ucast nr_allocs :: u64) > i_blocks nd - 1
                         then ucast ((ucast nr_allocs :: u64) - (i_blocks nd - 1)) else 0) :: u32
        in if nr_allocs > nr_free_blocks (sbi s) then (- ENOSPC, s)
           else block_write_begin s)"

text \<open>The loop that gives back the blocks of a shrunken file.\<close>

fun put_index_range :: "u32 \<Rightarrow> nat \<Rightarrow> nat \<Rightarrow> fs \<Rightarrow> fs res" where
  "put_index_range ib k 0 s = Inr s"
| "put_index_range ib k (Suc n) s =
     (if k \<ge> OUICHEFS_BLOCK_SIZE div 4 then Inl OutOfBounds
      else put_index_range ib (Suc k) n
             (buf_upd ib (index_set k 0) (fs_put_block (index_get (cache s ib) k) s)))"

definition ouichefs_write_end ::
  "env \<Rightarrow> (fs \<Rightarrow> int \<times> fs) \<Rightarrow> u32 \<Rightarrow> nat \<Rightarrow> fs \<Rightarrow> (int \<times> fs) res" where
  "ouichefs_write_end E generic_write_end i len s =
     (let (ret, s) = generic_write_end s in
      if (word_of_int ret :: u32) < of_nat len then Inr (ret, s)
      else
        let nr_blocks_old = ucast (i_blocks (inodes s i)) :: u32;
            s = mark_inode_dirty i (upd_inode i (\<lambda>nd. nd\<lparr>
                  i_blocks := of_nat (div_round_up (i_size nd) OUICHEFS_BLOCK_SIZE) + 1,
                  i_mtime := current_time E, i_ctime := current_time E\<rparr>) s);
            nr_blocks_new = i_blocks (inodes s i)
        in if (ucast nr_blocks_old :: u64) > nr_blocks_new then
             (let ib = index_block (inodes s i) in
              case sb_bread E ib s of
                None \<Rightarrow> Inr (ret, s)
              | Some s \<Rightarrow>
                  (case put_index_range ib (unat (nr_blocks_new - 1))
                          (unat (nr_blocks_old - 1) - unat (nr_blocks_new - 1)) s of
                     Inl f \<Rightarrow> Inl f
                   | Inr s \<Rightarrow> Inr (ret, brelse ib (mark_buffer_dirty ib s))))
           else Inr (ret, s))"

section \<open>Opening with truncation\<close>

text \<open>\<^verbatim>\<open>for (iblock = 0; index->blocks[iblock] != 0; iblock++)\<close>: the loop has no bound of its own.\<close>

function truncate_index :: "u32 \<Rightarrow> nat \<Rightarrow> fs \<Rightarrow> fs res" where
  "truncate_index ib k s =
     (if k \<ge> OUICHEFS_BLOCK_SIZE div 4 then Inl OutOfBounds
      else if index_get (cache s ib) k = 0 then Inr s
      else truncate_index ib (Suc k)
             (buf_upd ib (index_set k 0) (fs_put_block (index_get (cache s ib) k) s)))"
  by pat_completeness auto
termination
  by (relation "measure (\<lambda>(ib, k, s). 1024 - k)") auto

declare truncate_index.simps [simp del]

definition ouichefs_open :: "env \<Rightarrow> bool \<Rightarrow> bool \<Rightarrow> bool \<Rightarrow> u32 \<Rightarrow> fs \<Rightarrow> (int \<times> fs) res" where
  "ouichefs_open E wronly rdwr trunc i s =
     (if (wronly \<or> rdwr) \<and> trunc \<and> i_size (inodes s i) \<noteq> 0 then
        let ib = index_block (inodes s i) in
        case sb_bread E ib s of
          None \<Rightarrow> Inr (- EIO, s)
        | Some s \<Rightarrow>
            (case truncate_index ib 0 s of
               Inl f \<Rightarrow> Inl f
             | Inr s \<Rightarrow>
                 Inr (0, brelse ib (mark_buffer_dirty ib (upd_inode i (\<lambda>nd. nd\<lparr>i_size := 0\<rparr>) s))))
      else Inr (0, s))"

section \<open>Reading\<close>

text \<open>The loop of \<^verbatim>\<open>custom_read_iter\<close> over the blocks of a big file.  The result is the return
  value (the bytes copied, or an error), the file position reached, the iterator and the state.\<close>

function read_big_loop ::
  "env \<Rightarrow> u32 \<Rightarrow> nat \<Rightarrow> nat \<Rightarrow> nat \<Rightarrow> out_iter \<Rightarrow> fs \<Rightarrow> int \<times> nat \<times> out_iter \<times> fs" where
  "read_big_loop E ib pos count copied to s =
     (if count = 0 then (int copied, pos, to, s)
      else
        let block_idx = pos div OUICHEFS_BLOCK_SIZE;
            block_offset = pos mod OUICHEFS_BLOCK_SIZE;
            to_read = min count (OUICHEFS_BLOCK_SIZE - block_offset)
        in if block_idx \<ge> OUICHEFS_BLOCK_SIZE div 4 then (- EFBIG, pos, to, s)
           else
             let physical_block = index_get (cache s ib) block_idx in
             if physical_block = 0 then
               (let (n, to) = copy_to_iter (replicate to_read 0) to in
                if n \<noteq> to_read then (- EFAULT, pos, to, s)
                else read_big_loop E ib (pos + to_read) (count - to_read) (copied + to_read) to s)
             else
               (case sb_bread E physical_block s of
                  None \<Rightarrow> (- EIO, pos, to, s)
                | Some s \<Rightarrow>
                    (let (n, to) = copy_to_iter (bytes_at (cache s physical_block) block_offset to_read) to in
                     if n \<noteq> to_read
                     then (- EFAULT, pos, to, brelse physical_block (brelse physical_block s))
                     else read_big_loop E ib (pos + to_read) (count - to_read) (copied + to_read) to
                            (brelse physical_block s))))"
  by pat_completeness auto
termination
  by (relation "measure (\<lambda>(E, ib, pos, count, copied, to, s). count)") auto

declare read_big_loop.simps [simp del]

definition custom_read_iter ::
  "env \<Rightarrow> u32 \<Rightarrow> kiocb \<Rightarrow> out_iter \<Rightarrow> fs \<Rightarrow> (int \<times> kiocb \<times> out_iter \<times> fs) res" where
  "custom_read_iter E i iocb to s =
     (let ci = inodes s i; pos = ki_pos iocb; count = out_count to in
      if pos \<ge> i_size ci then Inr (0, iocb, to, s)
      else
        let count = (if pos + count > i_size ci then i_size ci - pos else count) in
        if count = 0 then Inr (0, iocb, to, s)
        else if is_small_file ci then
          (let bno = SMALL_FILE_GET_BNO ci; slice_no = SMALL_FILE_GET_SLICE ci in
           case sb_bread E bno s of
             None \<Rightarrow> Inr (- EIO, iocb, to, s)
           | Some s \<Rightarrow>
               if slice_no = 0 \<or> unat slice_no \<ge> OUICHEFS_SLICE_SIZE div 4
               then Inr (- EIO, iocb, to, brelse bno (brelse bno s))
               else if unat slice_no * OUICHEFS_SLICE_SIZE + count > OUICHEFS_BLOCK_SIZE
               then Inl OutOfBounds
               else
                 let (n, to) = copy_to_iter
                       (bytes_at (cache s bno) (unat slice_no * OUICHEFS_SLICE_SIZE) count) to in
                 if n \<noteq> count then Inr (- EFAULT, iocb, to, brelse bno (brelse bno s))
                 else Inr (int count, iocb\<lparr>ki_pos := count\<rparr>, to, brelse bno s))
        else if index_block ci = 0 then Inr (0, iocb, to, s)
        else
          let ib = index_block ci in
          case sb_bread E ib s of
            None \<Rightarrow> Inr (- EIO, iocb, to, s)
          | Some s \<Rightarrow>
              (case read_big_loop E ib pos count 0 to s of
                 (ret, pos, to, s) \<Rightarrow>
                   Inr (ret, if ret < 0 then iocb else iocb\<lparr>ki_pos := pos\<rparr>, to, brelse ib s)))"

section \<open>Writing a big file\<close>

text \<open>The zeroing of the gap between the old end of the file and the write position, in the block
  being written.\<close>

definition zero_gap :: "nat \<Rightarrow> nat \<Rightarrow> nat \<Rightarrow> block \<Rightarrow> block" where
  "zero_gap isize pos block_idx d =
     (if pos > isize \<and> isize div OUICHEFS_BLOCK_SIZE = block_idx then
        let gap_offset = isize mod OUICHEFS_BLOCK_SIZE;
            gap_size = min (pos - isize) (OUICHEFS_BLOCK_SIZE - gap_offset)
        in memset d gap_offset 0 gap_size
      else d)"

text \<open>Get or allocate the physical block of one index entry; 0 when there is no free block.\<close>

definition big_block_for_write :: "u32 \<Rightarrow> nat \<Rightarrow> fs \<Rightarrow> u32 \<times> fs" where
  "big_block_for_write ib block_idx s =
     (let physical_block = index_get (cache s ib) block_idx in
      if physical_block = 0 then
        (let (physical_block, s) = fs_get_free_block s in
         if physical_block = 0 then (0, s)
         else (physical_block, mark_buffer_dirty ib (buf_upd ib (index_set block_idx physical_block) s)))
      else (physical_block, s))"

function write_big_loop ::
  "env \<Rightarrow> u32 \<Rightarrow> u32 \<Rightarrow> nat \<Rightarrow> nat \<Rightarrow> nat \<Rightarrow> iov_iter \<Rightarrow> fs \<Rightarrow> int \<times> nat \<times> iov_iter \<times> fs" where
  "write_big_loop E i ib pos count copied from s =
     (if count = 0 then (int copied, pos, from, s)
      else
        let block_idx = pos div OUICHEFS_BLOCK_SIZE;
            block_offset = pos mod OUICHEFS_BLOCK_SIZE;
            to_write = min count (OUICHEFS_BLOCK_SIZE - block_offset)
        in if block_idx \<ge> OUICHEFS_BLOCK_SIZE div 4 then (- EFBIG, pos, from, s)
           else
             let (physical_block, s) = big_block_for_write ib block_idx s in
             if physical_block = 0 then (- ENOSPC, pos, from, s)
             else
               (case sb_bread E physical_block s of
                  None \<Rightarrow> (- EIO, pos, from, s)
                | Some s \<Rightarrow>
                    (let s = buf_upd physical_block (zero_gap (i_size (inodes s i)) pos block_idx) s;
                         (got, from) = copy_from_iter to_write from;
                         s = buf_upd physical_block (\<lambda>d. memcpy d block_offset got) s
                     in if length got \<noteq> to_write
                        then (- EFAULT, pos, from, brelse physical_block (brelse physical_block s))
                        else write_big_loop E i ib (pos + to_write) (count - to_write)
                               (copied + to_write) from
                               (brelse physical_block
                                 (sync_dirty_buffer physical_block
                                   (mark_buffer_dirty physical_block s))))))"
  by pat_completeness auto
termination
  by (relation "measure (\<lambda>(E, i, ib, pos, count, copied, from, s). count)") auto

declare write_big_loop.simps [simp del]

definition write_big_file ::
  "env \<Rightarrow> u32 \<Rightarrow> kiocb \<Rightarrow> iov_iter \<Rightarrow> fs \<Rightarrow> int \<times> kiocb \<times> iov_iter \<times> fs" where
  "write_big_file E i iocb from s =
     (let count = it_count from;
          pos = (if ki_append iocb then i_size (inodes s i) else ki_pos iocb);
          old_size = i_size (inodes s i);
          new_size = max (pos + count) old_size;
          (ok, s) = (if index_block (inodes s i) = 0 then
                       (let (bno, s) = fs_get_free_block s in
                        if bno = 0 then (False, s)
                        else (True, upd_inode i (\<lambda>nd. nd\<lparr>index_block := bno\<rparr>) s))
                     else (True, s))
      in if \<not> ok then (- ENOSPC, iocb, from, s)
      else
        let nr_allocs = of_nat (div_round_up new_size OUICHEFS_BLOCK_SIZE) :: u32;
            nblocks = i_blocks (inodes s i);
            blocks_needed = ucast ((ucast nr_allocs :: u64) - (nblocks - 1)) :: u32
        in if (ucast nr_allocs :: u64) > nblocks - 1 \<and> blocks_needed > nr_free_blocks (sbi s)
        then (- ENOSPC, iocb, from, s)
        else
          let ib = index_block (inodes s i) in
          case sb_bread E ib s of
            None \<Rightarrow> (- EIO, iocb, from, s)
          | Some s \<Rightarrow>
              (case write_big_loop E i ib pos count 0 from s of
                 (ret, pos, from, s) \<Rightarrow>
                   if ret < 0 then (ret, iocb, from, brelse ib s)
                   else
                     let s = mark_inode_dirty i (upd_inode i (\<lambda>nd.
                               let sz = (if pos > i_size nd then pos else i_size nd)
                               in nd\<lparr>i_size := sz,
                                     i_blocks := of_nat (div_round_up sz OUICHEFS_BLOCK_SIZE) + 1,
                                     i_mtime := current_time E, i_ctime := current_time E\<rparr>) s)
                     in (ret, iocb\<lparr>ki_pos := pos\<rparr>, from, brelse ib (sync_dirty_buffer ib s))))"

section \<open>Writing a small file\<close>

text \<open>The loop \<^verbatim>\<open>while (slice_to_write == 0)\<close>, which walks the chain of sliced blocks and extends it
  when it ends.  The result is an error or the block and slice found; the buffer of that block
  is held.\<close>

fun slice_search ::
  "env \<Rightarrow> nat \<Rightarrow> u32 \<Rightarrow> nat \<Rightarrow> u32 \<Rightarrow> u32 \<Rightarrow> fs \<Rightarrow> ((int + u32 \<times> u32) \<times> fs) res" where
  "slice_search E fuel i new_size bh slice_to_write s =
     (if slice_to_write \<noteq> 0 then Inr (Inr (bh, slice_to_write), s)
      else case fuel of
        0 \<Rightarrow> Inl NoReturn
      | Suc fuel \<Rightarrow>
          (let block_to_write = SLICED_BLOCK_SB_NEXT (cache s bh) in
           if block_to_write = 0 then
             (case allocate_and_init_slice_block E s of
                (free_block, bh_data, s) \<Rightarrow>
                  if free_block \<le> 0 then Inr (Inl free_block, brelse_opt bh_data (brelse bh s))
                  else
                    let block_to_write = word_of_int free_block;
                        s = buf_upd bh (SLICED_BLOCK_SB_SET_NEXT block_to_write) s;
                        s = brelse bh (sync_dirty_buffer bh (mark_buffer_dirty bh s));
                        (slice_to_write, s) = get_consequitive_free_slices block_to_write i new_size s
                    in slice_search E fuel i new_size block_to_write slice_to_write s)
           else
             (case sb_bread E block_to_write s of
                None \<Rightarrow> Inr (Inl (- EIO), brelse bh (brelse bh s))
              | Some s \<Rightarrow>
                  let s = brelse bh s;
                      (slice_to_write, s) = get_consequitive_free_slices block_to_write i new_size s
                  in slice_search E fuel i new_size block_to_write slice_to_write s)))"

declare slice_search.simps [simp del]

text \<open>The tail of \<^verbatim>\<open>write_small_file\<close>: copy the user data into the slices and update the inode.\<close>

definition write_small_finish ::
  "env \<Rightarrow> u32 \<Rightarrow> u32 \<Rightarrow> u32 \<Rightarrow> nat \<Rightarrow> nat \<Rightarrow> kiocb \<Rightarrow> iov_iter \<Rightarrow> fs \<Rightarrow>
     (int \<times> kiocb \<times> iov_iter \<times> fs) res" where
  "write_small_finish E i block_to_write slice_to_write pos new_size iocb from s =
     (let count = it_count from;
          off = unat slice_to_write * OUICHEFS_SLICE_SIZE + pos
      in if off + count > OUICHEFS_BLOCK_SIZE then Inl OutOfBounds
      else
        let (got, from) = copy_from_iter count from;
            s = buf_upd block_to_write (\<lambda>d. memcpy d off got) s
        in if length got \<noteq> count
           then Inr (- EFAULT, iocb, from, brelse block_to_write (brelse block_to_write s))
           else
             let s = upd_sbi (\<lambda>sb. sb\<lparr>nr_used_slices := nr_used_slices sb +
                       of_nat (div_round_up new_size OUICHEFS_SLICE_SIZE)\<rparr>) s;
                 s = brelse block_to_write
                       (sync_dirty_buffer block_to_write (mark_buffer_dirty block_to_write s));
                 s = mark_inode_dirty i (upd_inode i (\<lambda>nd. nd\<lparr>i_size := new_size,
                       i_mtime := current_time E, i_ctime := current_time E,
                       index_block := pack_slice block_to_write slice_to_write\<rparr>) s)
             in Inr (int count, iocb\<lparr>ki_pos := pos\<rparr>, from, s))"

text \<open>The branch of \<^verbatim>\<open>write_small_file\<close> for an inode without an index block.  The \<^verbatim>\<open>ssize_t\<close> of
  the block allocation is stored in a \<^verbatim>\<open>uint32_t\<close> before it is tested.\<close>

definition write_small_new ::
  "env \<Rightarrow> nat \<Rightarrow> u32 \<Rightarrow> kiocb \<Rightarrow> iov_iter \<Rightarrow> fs \<Rightarrow> (int \<times> kiocb \<times> iov_iter \<times> fs) res" where
  "write_small_new E fuel i iocb from s =
     (let count = it_count from;
          pos = (if ki_append iocb then i_size (inodes s i) else ki_pos iocb);
          new_size = max (pos + count) (i_size (inodes s i));
          (ret, block_to_write, bh_data, s) =
            (if s_free_sliced_blocks (sbi s) = 0 then
               (case allocate_and_init_slice_block E s of
                  (r, bh, s) \<Rightarrow>
                    let block_to_write = word_of_int r :: u32 in
                    if block_to_write \<le> 0 then (int (unat block_to_write), block_to_write, bh, s)
                    else (1, block_to_write, bh,
                          upd_sbi (\<lambda>sb. sb\<lparr>s_free_sliced_blocks := block_to_write\<rparr>) s))
             else
               let block_to_write = s_free_sliced_blocks (sbi s) in
               case sb_bread E block_to_write s of
                 None \<Rightarrow> (- EIO, block_to_write, None, s)
               | Some s \<Rightarrow> (1, block_to_write, Some block_to_write, s))
      in if ret \<le> 0 then Inr (ret, iocb, from, brelse_opt bh_data s)
         else case bh_data of
           None \<Rightarrow> Inl NullDeref
         | Some bh \<Rightarrow>
             (case get_consequitive_free_slices bh i new_size s of
                (slice_to_write, s) \<Rightarrow>
                  (case slice_search E fuel i new_size bh slice_to_write s of
                     Inl f \<Rightarrow> Inl f
                   | Inr (Inl err, s) \<Rightarrow> Inr (err, iocb, from, s)
                   | Inr (Inr (block_to_write, slice_to_write), s) \<Rightarrow>
                       write_small_finish E i block_to_write slice_to_write pos new_size iocb from s)))"

text \<open>The content of the kernel buffer \<^verbatim>\<open>combined_buf\<close>: the old data, zeroes up to the write
  position, the new data over it.\<close>

definition combined_buf :: "u8 list \<Rightarrow> nat \<Rightarrow> u8 list \<Rightarrow> u8 list" where
  "combined_buf old pos new =
     take pos (old @ replicate (pos - length old) 0) @ new @ drop (pos + length new) old"

text \<open>\<^verbatim>\<open>write_small_file\<close>.  Its recursive calls run after \<^verbatim>\<open>ci->index_block = 0\<close>, so they take the
  branch \<open>write_small_new\<close>.\<close>

definition write_small_file ::
  "env \<Rightarrow> nat \<Rightarrow> u32 \<Rightarrow> kiocb \<Rightarrow> iov_iter \<Rightarrow> fs \<Rightarrow> (int \<times> kiocb \<times> iov_iter \<times> fs) res" where
  "write_small_file E fuel i iocb from s =
     (let ci = inodes s i in
      if index_block ci = 0 then write_small_new E fuel i iocb from s
      else
        let count = it_count from;
            pos = (if ki_append iocb then i_size ci else ki_pos iocb);
            old_size = i_size ci;
            new_size = max (pos + count) old_size;
            new_num_slices = of_nat (div_round_up new_size OUICHEFS_SLICE_SIZE) :: u32;
            old_bno = SMALL_FILE_GET_BNO ci;
            old_slice_no = SMALL_FILE_GET_SLICE ci;
            old_index_block = index_block ci;
            old_num_slices = ucast (num_slices ci) :: u32
        in if num_slices ci = 0 then Inr (- EIO, iocb, from, s)
        else if old_bno = 0 \<or> old_slice_no = 0 then Inr (- EIO, iocb, from, s)
        else case sb_bread E old_bno s of
          None \<Rightarrow> Inr (- EIO, iocb, from, s)
        | Some s \<Rightarrow>
            if old_num_slices = new_num_slices
            then write_small_finish E i old_bno old_slice_no pos new_size iocb from s
            else
              let s = upd_inode i (\<lambda>nd. nd\<lparr>index_block := 0, i_size := 0\<rparr>) s;
                  outcome =
                    (if pos = 0 then map_sum id Inr (write_small_new E fuel i iocb from s)
                     else if \<not> kmalloc_ok E new_size
                     then Inr (Inl (- ENOMEM, iocb, from, brelse old_bno s))
                     else if unat old_slice_no * OUICHEFS_SLICE_SIZE + old_size > OUICHEFS_BLOCK_SIZE
                     then Inl OutOfBounds
                     else
                       let old = bytes_at (cache s old_bno) (unat old_slice_no * OUICHEFS_SLICE_SIZE) old_size;
                           (got, from) = copy_from_iter count from
                       in if length got \<noteq> count
                          then Inr (Inl (- EFAULT, iocb, from, brelse old_bno s))
                          else if \<not> kmalloc_ok E 16
                          then Inr (Inl (- ENOMEM, iocb, from, brelse old_bno s))
                          else map_sum id Inr (write_small_new E fuel i
                                 (iocb\<lparr>ki_pos := 0, ki_append := False\<rparr>)
                                 \<lparr>it_bytes = combined_buf old pos got, it_count = new_size\<rparr> s))
              in case outcome of
                   Inl f \<Rightarrow> Inl f
                 | Inr (Inl r) \<Rightarrow> Inr r
                 | Inr (Inr (ret, iocb, from, s)) \<Rightarrow>
                     if ret > 0 then
                       (case delete_slice E fuel old_bno old_slice_no old_num_slices s of
                          Inl f \<Rightarrow> Inl f
                        | Inr (_, s) \<Rightarrow> Inr (int count, iocb\<lparr>ki_pos := pos + count\<rparr>, from, s))
                     else Inr (ret, iocb\<lparr>ki_pos := pos\<rparr>, from,
                            upd_inode i (\<lambda>nd. nd\<lparr>index_block := old_index_block, i_size := old_size\<rparr>) s))"

section \<open>From small to big\<close>

definition convert_small_to_big ::
  "env \<Rightarrow> nat \<Rightarrow> u32 \<Rightarrow> kiocb \<Rightarrow> iov_iter \<Rightarrow> fs \<Rightarrow> (int \<times> kiocb \<times> iov_iter \<times> fs) res" where
  "convert_small_to_big E fuel i iocb from s =
     (let ci = inodes s i;
          pos = ki_pos iocb;
          count = it_count from;
          old_size = i_size ci;
          old_index_block = index_block ci;
          write_pos = (if ki_append iocb then old_size else pos);
          bno = SMALL_FILE_GET_BNO ci;
          slice_no = SMALL_FILE_GET_SLICE ci;
          new_file_size = max (write_pos + count) old_size
      in case sb_bread E bno s of
           None \<Rightarrow> Inr (- EIO, iocb, from, s)
         | Some s \<Rightarrow>
             if \<not> kmalloc_ok E new_file_size then Inr (- ENOMEM, iocb, from, brelse bno s)
             else if unat slice_no * OUICHEFS_SLICE_SIZE + old_size > OUICHEFS_BLOCK_SIZE
             then Inl OutOfBounds
             else
               let old = bytes_at (cache s bno) (unat slice_no * OUICHEFS_SLICE_SIZE) old_size;
                   s = brelse bno s;
                   (got, from) = copy_from_iter count from
               in if length got \<noteq> count then Inr (- EFAULT, iocb, from, s)
               else if \<not> kmalloc_ok E 16 then Inr (- ENOMEM, iocb, from, s)
               else
                 let s = upd_inode i (\<lambda>nd. nd\<lparr>i_size := 0\<rparr>) s;
                     (ret, _, _, s) = write_big_file E i (iocb\<lparr>ki_pos := 0, ki_append := False\<rparr>)
                       \<lparr>it_bytes = combined_buf old write_pos got, it_count = new_file_size\<rparr> s
                 in if ret > 0 then
                      (let ci = inodes s i in
                       case delete_slice E fuel (SMALL_FILE_GET_BNO ci) (SMALL_FILE_GET_SLICE ci)
                              (ucast (num_slices ci)) s of
                         Inl f \<Rightarrow> Inl f
                       | Inr (ret, s) \<Rightarrow> Inr (ret, iocb\<lparr>ki_pos := write_pos + count\<rparr>, from, s))
                    else Inr (ret, iocb\<lparr>ki_pos := pos\<rparr>, from,
                           upd_inode i (\<lambda>nd. nd\<lparr>index_block := old_index_block, i_size := old_size\<rparr>) s))"

definition custom_write_iter ::
  "env \<Rightarrow> nat \<Rightarrow> u32 \<Rightarrow> kiocb \<Rightarrow> iov_iter \<Rightarrow> fs \<Rightarrow> (int \<times> kiocb \<times> iov_iter \<times> fs) res" where
  "custom_write_iter E fuel i iocb from s =
     (let ci = inodes s i;
          new_size = max (ki_pos iocb + it_count from) (i_size ci)
      in if is_new (index_block ci) then
           (if will_be_small new_size then write_small_file E fuel i iocb from s
            else Inr (write_big_file E i iocb from s))
         else
           (if \<not> is_small_file ci then Inr (write_big_file E i iocb from s)
            else if will_be_small new_size then write_small_file E fuel i iocb from s
            else if \<not> will_be_small new_size \<and> is_small_file ci
            then convert_small_to_big E fuel i iocb from s
            else Inr (- EINVAL, iocb, from, s)))"

end
