(* ===== verification/Ouiche_BigFile.thy ===== *)
theory Ouiche_BigFile
  imports Ouiche_File
begin

text \<open>
  Correctness of big files: a file whose blocks are listed in an index block.  The abstract file
  is the function \<open>file_byte\<close> from positions to bytes, with holes read as zeroes; the write loop
  overlays the written bytes on it and leaves every other file alone, and the read loop returns
  its values.  The locale \<open>byte_file\<close> is the contract a client of a file sees.
\<close>

section \<open>Well-formed index blocks and the abstract file\<close>

definition io_ok :: "env \<Rightarrow> fs \<Rightarrow> bool" where
  "io_ok E s \<longleftrightarrow> (\<forall>b \<in> block_univ (sbi s). bread_ok E b)"

definition big_wf :: "fs \<Rightarrow> u32 \<Rightarrow> bool" where
  "big_wf s ib \<longleftrightarrow>
     block_pool (sbi s) \<and> free_zeroed s \<and>
     ib \<in> block_univ (sbi s) \<and> ib \<notin> free_blocks (sbi s) \<and>
     (\<forall>k < 1024. index_get (cache s ib) k \<noteq> 0 \<longrightarrow>
        index_get (cache s ib) k \<noteq> ib \<and> index_get (cache s ib) k \<in> block_univ (sbi s) \<and>
        index_get (cache s ib) k \<notin> free_blocks (sbi s)) \<and>
     (\<forall>k < 1024. \<forall>l < 1024. k \<noteq> l \<and> index_get (cache s ib) k \<noteq> 0 \<longrightarrow>
        index_get (cache s ib) k \<noteq> index_get (cache s ib) l)"

definition file_byte :: "fs \<Rightarrow> u32 \<Rightarrow> nat \<Rightarrow> u8" where
  "file_byte s ib p =
     (let b = index_get (cache s ib) (p div OUICHEFS_BLOCK_SIZE)
      in if b = 0 then 0 else cache s b (p mod OUICHEFS_BLOCK_SIZE))"

definition data_blocks :: "fs \<Rightarrow> u32 \<Rightarrow> u32 set" where
  "data_blocks s ib = {index_get (cache s ib) k | k. k < 1024 \<and> index_get (cache s ib) k \<noteq> 0}"

lemma index_get_set_same [simp]: "index_get (index_set k v d) k = v"
  by (simp add: index_get_def index_set_def block_simps)

lemma index_get_set_other [simp]: "k \<noteq> l \<Longrightarrow> index_get (index_set k v d) l = index_get d l"
  unfolding index_get_def index_set_def by (rule get_put_le_disjoint) (cases "k < l"; simp)

lemma zeroed_index_get: "zeroed d \<Longrightarrow> k < 1024 \<Longrightarrow> index_get d k = 0"
  by (simp add: index_get_def zeroed_get32)

section \<open>Getting the block of an index entry\<close>

text \<open>What \<^verbatim>\<open>index->blocks[k]\<close> allocation does: the entry is mapped to \<open>pb\<close>, and nothing a reader
  sees has changed.\<close>

definition entry_mapped :: "u32 \<Rightarrow> nat \<Rightarrow> u32 \<Rightarrow> fs \<Rightarrow> fs \<Rightarrow> bool" where
  "entry_mapped ib k pb s s' \<longleftrightarrow>
     pb \<noteq> 0 \<and> pb \<noteq> ib \<and> pb \<in> block_univ (sbi s) \<and> big_wf s' ib \<and>
     index_get (cache s' ib) k = pb \<and>
     (\<forall>l. l \<noteq> k \<longrightarrow> index_get (cache s' ib) l = index_get (cache s ib) l) \<and>
     (\<forall>c. c \<noteq> ib \<longrightarrow> cache s' c = cache s c) \<and>
     free_blocks (sbi s') = free_blocks (sbi s) - {pb} \<and>
     (pb \<in> free_blocks (sbi s) \<or> pb = index_get (cache s ib) k) \<and>
     (\<forall>p. file_byte s' ib p = file_byte s ib p \<or> 4194304 \<le> p) \<and>
     refs s' = refs s \<and> inodes s' = inodes s \<and> nr_blocks (sbi s') = nr_blocks (sbi s) \<and>
     (coherent s \<longrightarrow> coherent s')"

lemma entry_mapped_old:
  assumes "big_wf s ib" and "k < 1024" and "index_get (cache s ib) k \<noteq> 0"
  shows "big_block_for_write ib k s = (index_get (cache s ib) k, s)"
    and "entry_mapped ib k (index_get (cache s ib) k) s s"
  using assms by (auto simp: big_block_for_write_def entry_mapped_def big_wf_def)

lemma entry_mapped_fresh:
  assumes wf: "big_wf s ib" and k: "k < 1024" "index_get (cache s ib) k = 0"
    and pb: "get_free_block (sbi s) = (pb, sb')" "pb \<in> free_blocks (sbi s)"
  shows "entry_mapped ib k pb s
    (mark_buffer_dirty ib (buf_upd ib (index_set k pb) (s\<lparr>sbi := sb'\<rparr>)))"
    (is "entry_mapped ib k pb s ?t")
proof -
  have pool: "block_pool (sbi s)" and fz: "free_zeroed s" using wf by (auto simp: big_wf_def)
  have pbu: "pb \<in> block_univ (sbi s)" using blocks.free_univ [OF pool] pb(2) by blast
  have nz: "pb \<noteq> 0" using pbu by (auto simp: block_univ_def)
  have ne: "pb \<noteq> ib" using wf pb(2) by (auto simp: big_wf_def)
  have fr: "free_blocks sb' = free_blocks (sbi s) - {pb}" and pool': "block_pool sb'"
    and nb: "nr_blocks sb' = nr_blocks (sbi s)" and un: "block_univ sb' = block_univ (sbi s)"
    using blocks.free_grab [OF pool] blocks.grab_pool [OF pool] blocks.univ_grab [OF pool]
      nr_blocks_get_free_block [of "sbi s"] pb(1) by auto
  have c: "cache ?t = (cache s)(ib := index_set k pb (cache s ib))" and sb: "sbi ?t = sb'"
    and ot: "refs ?t = refs s" "inodes ?t = inodes s"
    by (simp_all add: fs_defs)
  have idx: "index_get (cache ?t ib) l = (if l = k then pb else index_get (cache s ib) l)" for l
    by (simp add: c)
  have z: "zeroed (cache s pb)" using fz pb(2) by (simp add: free_zeroed_def)
  have "free_zeroed ?t"
    using fz wf by (auto simp: free_zeroed_def sb c fr big_wf_def)
  then have "big_wf ?t ib"
    using wf k nz ne pb(2) pbu unfolding big_wf_def idx sb fr un by (simp add: pool') metis
  moreover have "file_byte ?t ib p = file_byte s ib p \<or> 4194304 \<le> p" for p
  proof (cases "p < 4194304")
    case True
    then have "p div 4096 < 1024" by (simp add: less_mult_imp_div_less)
    then have "index_get (cache s ib) (p div 4096) \<noteq> 0 \<Longrightarrow> index_get (cache s ib) (p div 4096) \<noteq> ib"
      using wf by (simp add: big_wf_def)
    then show ?thesis
      using z k ne nz unfolding file_byte_def idx Let_def by (auto simp: c zeroed_def)
  qed simp
  moreover have "coherent s \<longrightarrow> coherent ?t"
    by (auto simp: coherent_def fs_defs)
  ultimately show ?thesis
    unfolding entry_mapped_def using nz ne pbu pb(2) by (simp add: idx sb ot fr nb c)
qed

lemma big_block_for_write_mapped:
  assumes "big_wf s ib" and "k < 1024"
    and "index_get (cache s ib) k \<noteq> 0 \<or> free_blocks (sbi s) \<noteq> {}"
  obtains pb s' where "big_block_for_write ib k s = (pb, s')" and "entry_mapped ib k pb s s'"
proof (cases "index_get (cache s ib) k = 0")
  case True
  obtain pb sb' where g: "get_free_block (sbi s) = (pb, sb')" by fastforce
  have pool: "block_pool (sbi s)" using assms(1) by (simp add: big_wf_def)
  have pb: "pb \<in> free_blocks (sbi s)" using blocks.grab_free [OF pool] assms(3) True g by simp
  then have "pb \<noteq> 0" using blocks.grab_zero_iff [OF pool] g by auto
  then have "big_block_for_write ib k s =
      (pb, mark_buffer_dirty ib (buf_upd ib (index_set k pb) (s\<lparr>sbi := sb'\<rparr>)))"
    using True g by (simp add: big_block_for_write_def fs_get_free_block_def)
  then show thesis using entry_mapped_fresh [OF assms(1,2) True g pb] that by blast
qed (use that entry_mapped_old [OF assms(1,2)] in blast)

section \<open>One block of a write\<close>

text \<open>The abstract effect of a write on the bytes of a file of size \<open>isize\<close>: the new bytes, zeroes
  in the gap before them when the old end is in the same block, the old bytes elsewhere.\<close>

definition overlay :: "nat \<Rightarrow> nat \<Rightarrow> u8 list \<Rightarrow> (nat \<Rightarrow> u8) \<Rightarrow> nat \<Rightarrow> u8" where
  "overlay isize pos bs f p =
     (if pos \<le> p \<and> p < pos + length bs then bs ! (p - pos)
      else if isize \<le> p \<and> p < pos \<and> isize div OUICHEFS_BLOCK_SIZE = pos div OUICHEFS_BLOCK_SIZE then 0
      else f p)"

lemma overlay_append:
  assumes "(pos + length bs) mod 4096 = 0"
  shows "overlay isize (pos + length bs) cs (overlay isize pos bs f) = overlay isize pos (bs @ cs) f"
proof -
  have "isize div 4096 < (pos + length bs) div 4096" if "isize < pos + length bs"
    using that assms by (metis add.right_neutral div_mult_mod_eq less_mult_imp_div_less)
  then show ?thesis
    by (fastforce simp: overlay_def nth_append fun_eq_iff)
qed

lemma overlay_cong: "f p = g p \<Longrightarrow> overlay isize pos bs f p = overlay isize pos bs g p"
  by (simp add: overlay_def)

lemma overlay_outside: "p < isize \<Longrightarrow> p < pos \<or> pos + length bs \<le> p \<Longrightarrow> overlay isize pos bs f p = f p"
  by (auto simp: overlay_def)

definition big_written :: "u32 \<Rightarrow> nat \<Rightarrow> nat \<Rightarrow> u8 list \<Rightarrow> fs \<Rightarrow> fs \<Rightarrow> bool" where
  "big_written ib isize pos bs s s' \<longleftrightarrow>
     big_wf s' ib \<and>
     (\<forall>p < 4194304. file_byte s' ib p = overlay isize pos bs (file_byte s ib) p) \<and>
     (\<forall>c. c \<noteq> ib \<and> c \<notin> data_blocks s ib \<and> c \<notin> free_blocks (sbi s) \<longrightarrow> cache s' c = cache s c) \<and>
     free_blocks (sbi s') \<subseteq> free_blocks (sbi s) \<and>
     data_blocks s' ib \<subseteq> data_blocks s ib \<union> free_blocks (sbi s) \<and>
     refs s' = refs s \<and> inodes s' = inodes s \<and> nr_blocks (sbi s') = nr_blocks (sbi s) \<and>
     (coherent s \<longrightarrow> coherent s')"

text \<open>The state after the data block \<open>pb\<close> has been written, synced and released.\<close>

definition data_stored :: "u32 \<Rightarrow> (block \<Rightarrow> block) \<Rightarrow> fs \<Rightarrow> fs" where
  "data_stored pb f s =
     s\<lparr>cache := (cache s)(pb := f (cache s pb)), disk := (disk s)(pb := f (cache s pb)),
       dirty := dirty s - {pb}\<rparr>"

lemma zero_gap_byte:
  assumes "pos div 4096 = k" and "p div 4096 = k"
  shows "zero_gap isize pos k d (p mod 4096) =
    (if isize \<le> p \<and> p < pos \<and> isize div 4096 = k then 0 else d (p mod 4096))"
proof (cases "isize div 4096 = k")
  case True
  obtain a q r where a: "isize = 4096 * k + a" "isize mod 4096 = a" "a < 4096"
    and q: "pos = 4096 * k + q" "q < 4096" and r: "p = 4096 * k + r" "p mod 4096 = r"
    using assms True by (metis mod_less_divisor mult_div_mod_eq zero_less_numeral)
  have "min (pos - isize) (4096 - a) = q - a" using a q by simp
  then have "zero_gap isize pos k d r = (if a < q \<and> a \<le> r \<and> r < q then 0 else d r)"
    using a q True by (auto simp: zero_gap_def memset_def Let_def)
  moreover have "isize \<le> p \<and> p < pos \<longleftrightarrow> a < q \<and> a \<le> r \<and> r < q"
    using a(1) q(1) r(1) by auto
  ultimately show ?thesis using True r(2) by simp
qed (simp add: zero_gap_def)

lemma data_byte:
  assumes "pos div 4096 = k" and "pos mod 4096 + length bs \<le> 4096" and "p div 4096 = k"
  shows "memcpy (zero_gap isize pos k d) (pos mod 4096) bs (p mod 4096) =
    overlay isize pos bs (\<lambda>p. d (p mod 4096)) p"
proof -
  have p: "p = 4096 * k + p mod 4096" and q: "pos = 4096 * k + pos mod 4096"
    using assms(1,3) div_mult_mod_eq [of p 4096] div_mult_mod_eq [of pos 4096] by auto
  have "pos \<le> p \<longleftrightarrow> pos mod 4096 \<le> p mod 4096"
    and "p < pos + length bs \<longleftrightarrow> p mod 4096 < pos mod 4096 + length bs"
    and "p - pos = p mod 4096 - pos mod 4096"
    using p q by linarith+
  then show ?thesis
    using zero_gap_byte [OF assms(1,3)] assms(1) by (simp add: memcpy_def overlay_def)
qed

lemma data_stored_written:
  assumes m: "entry_mapped ib k pb s s1" and k: "pos div 4096 = k" "k < 1024"
    and bs: "pos mod 4096 + length bs \<le> 4096"
  shows "big_written ib isize pos bs s
    (data_stored pb (\<lambda>d. memcpy (zero_gap isize pos k d) (pos mod 4096) bs) s1)"
    (is "big_written ib isize pos bs s ?t")
proof -
  note M = m [unfolded entry_mapped_def]
  have ne: "ib \<noteq> pb" using M by blast
  have ct: "cache ?t ib = cache s1 ib" and st: "sbi ?t = sbi s1"
    using ne by (simp_all add: data_stored_def)
  have wf1: "big_wf s1 ib" and pbf: "pb \<notin> free_blocks (sbi s1)" using M by auto
  have "free_zeroed ?t"
    using wf1 pbf by (simp add: big_wf_def free_zeroed_def data_stored_def)
  then have wf: "big_wf ?t ib" using wf1 by (simp add: big_wf_def ct st)
  have byte: "file_byte ?t ib p = overlay isize pos bs (file_byte s ib) p" if "p < 4194304" for p
  proof (cases "p div 4096 = k")
    case True
    have idx: "index_get (cache s1 ib) (p div 4096) = pb" "pb \<noteq> 0" using M True by auto
    then have "file_byte s1 ib p = cache s1 pb (p mod 4096)" by (simp add: file_byte_def)
    moreover have "file_byte s1 ib p = file_byte s ib p" using M that by fastforce
    moreover have "file_byte ?t ib p = cache ?t pb (p mod 4096)"
      using idx by (simp add: file_byte_def ct)
    moreover have "cache ?t pb (p mod 4096) = overlay isize pos bs (\<lambda>p. cache s1 pb (p mod 4096)) p"
      using data_byte [OF k(1) bs True] by (simp add: data_stored_def)
    ultimately show ?thesis by (metis overlay_cong)
  next
    case False
    have l: "p div 4096 < 1024" using that by (simp add: less_mult_imp_div_less)
    have "index_get (cache s1 ib) (p div 4096) \<noteq> pb"
      using wf1 M l k(2) False unfolding big_wf_def by metis
    then have "file_byte ?t ib p = file_byte s1 ib p"
      by (simp add: file_byte_def ct) (simp add: data_stored_def Let_def)
    moreover have "file_byte s1 ib p = file_byte s ib p" using M that by fastforce
    moreover have "overlay isize pos bs (file_byte s ib) p = file_byte s ib p"
    proof -
      have "p div 4096 = k" if "pos \<le> p" "p < pos + length bs"
        using that k(1) bs div_mult_mod_eq [of pos 4096] by (intro div_nat_eqI) simp_all
      then have "p < pos \<or> pos + length bs \<le> p" using False by linarith
      moreover have "isize \<le> p \<Longrightarrow> p < pos \<Longrightarrow> isize div 4096 \<noteq> pos div 4096"
        using False k(1) by (metis div_le_mono le_antisym order_less_imp_le)
      ultimately show ?thesis by (auto simp: overlay_def)
    qed
    ultimately show ?thesis by simp
  qed
  have db: "data_blocks ?t ib \<subseteq> data_blocks s ib \<union> free_blocks (sbi s)"
  proof
    fix c assume "c \<in> data_blocks ?t ib"
    then obtain l where "l < 1024" "c = index_get (cache s1 ib) l" "c \<noteq> 0"
      unfolding data_blocks_def ct by blast
    then show "c \<in> data_blocks s ib \<union> free_blocks (sbi s)"
      using M by (cases "l = k") (auto simp: data_blocks_def)
  qed
  have fr: "cache ?t c = cache s c" if "c \<noteq> ib" "c \<notin> data_blocks s ib" "c \<notin> free_blocks (sbi s)" for c
  proof -
    have "c \<noteq> pb" using M that k(2) by (auto simp: data_blocks_def)
    then show ?thesis using M that by (simp add: data_stored_def)
  qed
  have "coherent s1 \<Longrightarrow> coherent ?t" by (auto simp: coherent_def data_stored_def)
  then show ?thesis
    unfolding big_written_def st using wf byte db fr M
    by (intro conjI allI impI) (simp_all add: data_stored_def)
qed

section \<open>The write loop\<close>

text \<open>The index entries a write has to allocate.\<close>

definition holes :: "fs \<Rightarrow> u32 \<Rightarrow> nat \<Rightarrow> nat \<Rightarrow> nat set" where
  "holes s ib lo hi = {k. lo \<le> k \<and> k < hi \<and> index_get (cache s ib) k = 0}"

lemma finite_holes [simp]: "finite (holes s ib lo hi)"
  by (simp add: holes_def)

lemma copy_from_iter_enough:
  assumes "n \<le> length (it_bytes it)" and "n \<le> it_count it"
  shows "copy_from_iter n it =
    (take n (it_bytes it), it\<lparr>it_bytes := drop n (it_bytes it), it_count := it_count it - n\<rparr>)"
  using assms by (simp add: copy_from_iter_def Let_def min_def)

lemma io_ok_data:
  assumes "io_ok E s" and "entry_mapped ib k pb s s1"
  shows "bread_ok E pb"
  using assms by (auto simp: io_ok_def entry_mapped_def)

lemma write_big_loop_iter:
  assumes "count \<noteq> 0" and "pos div 4096 = k" and "\<not> 1024 \<le> k"
    and "min count (4096 - pos mod 4096) = tw"
    and "big_block_for_write ib k s = (pb, s1)" and "pb \<noteq> 0" and "bread_ok E pb"
    and "inodes s1 = inodes s" and "copy_from_iter tw it = (bs, it')" and "length bs = tw"
  shows "write_big_loop E i ib pos count copied it s =
    write_big_loop E i ib (pos + tw) (count - tw) (copied + tw) it'
      (data_stored pb (\<lambda>d. memcpy (zero_gap (i_size (inodes s i)) pos k d) (pos mod 4096) bs) s1)"
  by (subst write_big_loop.simps)
    (simp add: assms Let_def sb_bread_Some fs_defs data_stored_def)

lemma write_big_loop_step:
  assumes wf: "big_wf s ib" and io: "io_ok E s" and k: "k = pos div 4096" "k < 1024"
    and n: "0 < count" "tw = min count (4096 - pos mod 4096)"
    and src: "tw \<le> length (it_bytes it)" "tw \<le> it_count it"
    and space: "index_get (cache s ib) k \<noteq> 0 \<or> free_blocks (sbi s) \<noteq> {}"
  obtains s' where "write_big_loop E i ib pos count copied it s =
      write_big_loop E i ib (pos + tw) (count - tw) (copied + tw)
        (it\<lparr>it_bytes := drop tw (it_bytes it), it_count := it_count it - tw\<rparr>) s'"
    and "big_written ib (i_size (inodes s i)) pos (take tw (it_bytes it)) s s'"
    and "holes s' ib (Suc k) hi = holes s ib (Suc k) hi"
    and "card (free_blocks (sbi s)) \<le> card (free_blocks (sbi s')) + (if index_get (cache s ib) k = 0 then 1 else 0)"
proof -
  let ?bs = "take tw (it_bytes it)" and ?isz = "i_size (inodes s i)"
  obtain pb s1 where b: "big_block_for_write ib k s = (pb, s1)" and m: "entry_mapped ib k pb s s1"
    using wf k(2) space by (rule big_block_for_write_mapped)
  note M = m [unfolded entry_mapped_def]
  have "pb \<noteq> 0" and "inodes s1 = inodes s" using M by blast+
  have br: "bread_ok E pb" using io m by (rule io_ok_data)
  have len: "length ?bs = tw" using src by simp
  let ?t = "data_stored pb (\<lambda>d. memcpy (zero_gap ?isz pos k d) (pos mod 4096) ?bs) s1"
  have "write_big_loop E i ib pos count copied it s =
      write_big_loop E i ib (pos + tw) (count - tw) (copied + tw)
        (it\<lparr>it_bytes := drop tw (it_bytes it), it_count := it_count it - tw\<rparr>) ?t"
    by (rule write_big_loop_iter [OF _ _ _ _ b \<open>pb \<noteq> 0\<close> br \<open>inodes s1 = inodes s\<close>
          copy_from_iter_enough [OF src] len]) (use n k in simp_all)
  moreover have "big_written ib ?isz pos ?bs s ?t"
  proof (rule data_stored_written [OF m])
    have "tw \<le> 4096 - pos mod 4096" and "pos mod 4096 < 4096" using n(2) by simp_all
    then show "pos mod 4096 + length ?bs \<le> 4096" unfolding len by linarith
  qed (use k in simp_all)
  moreover have "holes ?t ib (Suc k) hi = holes s ib (Suc k) hi"
    using M by (auto simp: holes_def data_stored_def)
  moreover have "card (free_blocks (sbi s)) \<le> card (free_blocks (sbi ?t)) + (if index_get (cache s ib) k = 0 then 1 else 0)"
  proof -
    have f: "free_blocks (sbi ?t) = free_blocks (sbi s) - {pb}" using M by (simp add: data_stored_def)
    have "index_get (cache s ib) k \<noteq> 0 \<Longrightarrow> pb \<notin> free_blocks (sbi s)"
      using M wf k(2) b by (auto simp: big_block_for_write_def big_wf_def)
    then show ?thesis unfolding f by (auto simp: card_Diff_singleton_if)
  qed
  ultimately show thesis by (rule that)
qed

lemma big_written_trans:
  assumes a: "big_written ib isize pos bs s s1" and b: "big_written ib isize (pos + length bs) cs s1 s2"
    and al: "(pos + length bs) mod 4096 = 0"
  shows "big_written ib isize pos (bs @ cs) s s2"
proof -
  note A = a [unfolded big_written_def] and B = b [unfolded big_written_def]
  have "file_byte s2 ib p = overlay isize pos (bs @ cs) (file_byte s ib) p" if "p < 4194304" for p
  proof -
    have "file_byte s2 ib p = overlay isize (pos + length bs) cs (file_byte s1 ib) p"
      using B that by blast
    also have "\<dots> = overlay isize (pos + length bs) cs (overlay isize pos bs (file_byte s ib)) p"
      using A that by (intro overlay_cong) blast
    finally show ?thesis by (simp add: overlay_append [OF al])
  qed
  then show ?thesis
    unfolding big_written_def using A B by (intro conjI allI impI) (auto dest: subsetD)
qed

lemma big_written_nil: "big_wf s ib \<Longrightarrow> isize div 4096 \<noteq> pos div 4096 \<or> pos \<le> isize \<Longrightarrow>
    big_written ib isize pos [] s s"
  by (auto simp: big_written_def overlay_def)

theorem write_big_loop_correct:
  assumes "big_wf s ib" and "io_ok E s" and "0 < count" and "pos + count \<le> 4194304"
    and "count \<le> length (it_bytes it)" and "count \<le> it_count it"
    and "card (holes s ib (pos div 4096) (div_round_up (pos + count) 4096)) \<le> card (free_blocks (sbi s))"
  shows "\<exists>it' s'. write_big_loop E i ib pos count copied it s =
      (int (copied + count), pos + count, it', s') \<and>
      big_written ib (i_size (inodes s i)) pos (take count (it_bytes it)) s s'"
  using assms
proof (induction count arbitrary: pos copied it s rule: less_induct)
  case (less count)
  define k where "k = pos div 4096"
  define tw where "tw = min count (4096 - pos mod 4096)"
  let ?hi = "div_round_up (pos + count) 4096"
  let ?bs = "take tw (it_bytes it)"
  have k: "k < 1024"
    using less.prems(3,4) by (simp add: k_def less_mult_imp_div_less)
  have tw: "0 < tw" "tw \<le> count" using less.prems(3) by (simp_all add: tw_def)
  have khi: "k < ?hi"
  proof -
    have "k * 4096 \<le> pos" by (simp add: k_def)
    then have "\<not> pos + count \<le> k * 4096" using less.prems(3) by linarith
    then show ?thesis using div_round_up_le_iff [of 4096 "pos + count" k] by simp
  qed
  have space: "index_get (cache s ib) k \<noteq> 0 \<or> free_blocks (sbi s) \<noteq> {}"
  proof (rule ccontr)
    assume "\<not> ?thesis"
    then have "k \<in> holes s ib (pos div 4096) ?hi" and "card (free_blocks (sbi s)) = 0"
      using khi by (auto simp: holes_def k_def)
    then show False using less.prems(7) by auto
  qed
  obtain s1 where step: "write_big_loop E i ib pos count copied it s =
      write_big_loop E i ib (pos + tw) (count - tw) (copied + tw)
        (it\<lparr>it_bytes := drop tw (it_bytes it), it_count := it_count it - tw\<rparr>) s1"
    and w1: "big_written ib (i_size (inodes s i)) pos ?bs s s1"
    and h1: "holes s1 ib (Suc k) ?hi = holes s ib (Suc k) ?hi"
    and f1: "card (free_blocks (sbi s)) \<le> card (free_blocks (sbi s1)) + (if index_get (cache s ib) k = 0 then 1 else 0)"
  proof (rule write_big_loop_step [OF less.prems(1,2) k_def k less.prems(3) tw_def _ _ space])
    show "tw \<le> length (it_bytes it)" and "tw \<le> it_count it" using tw less.prems by simp_all
  qed
  note W = w1 [unfolded big_written_def]
  show ?case
  proof (cases "count = tw")
    case True
    then show ?thesis using step w1 by (subst step, subst write_big_loop.simps) simp
  next
    case False
    have tw': "tw = 4096 - pos mod 4096" using False by (simp add: tw_def min_def split: if_splits)
    have al: "pos + tw = 4096 * Suc k"
    proof -
      have "pos mod 4096 < 4096" by simp
      then have "tw + pos mod 4096 = 4096" using tw' by simp
      then show ?thesis using mult_div_mod_eq [of 4096 pos] by (simp only: mult_Suc_right k_def)
    qed
    have holes: "card (holes s1 ib ((pos + tw) div 4096) (div_round_up (pos + tw + (count - tw)) 4096))
        \<le> card (free_blocks (sbi s1))"
    proof -
      have "holes s ib k ?hi = holes s ib (Suc k) ?hi \<union> (if index_get (cache s ib) k = 0 then {k} else {})"
        using khi by (auto simp: holes_def le_eq_less_or_eq [of k])
      moreover have "k \<notin> holes s ib (Suc k) ?hi" by (simp add: holes_def)
      ultimately have "card (holes s ib k ?hi) = card (holes s ib (Suc k) ?hi) + (if index_get (cache s ib) k = 0 then 1 else 0)"
        by (simp add: card_insert_if)
      then have "card (holes s1 ib (Suc k) ?hi) \<le> card (free_blocks (sbi s1))"
        using less.prems(7) f1 h1 by (simp add: k_def split: if_splits)
      moreover have "(pos + tw) div 4096 = Suc k" unfolding al by simp
      moreover have "pos + tw + (count - tw) = pos + count" using tw(2) by simp
      ultimately show ?thesis by (simp only:)
    qed
    have "\<exists>it' s'. write_big_loop E i ib (pos + tw) (count - tw) (copied + tw)
        (it\<lparr>it_bytes := drop tw (it_bytes it), it_count := it_count it - tw\<rparr>) s1 =
        (int (copied + tw + (count - tw)), pos + tw + (count - tw), it', s') \<and>
        big_written ib (i_size (inodes s1 i)) (pos + tw) (take (count - tw) (drop tw (it_bytes it))) s1 s'"
      using less.IH [of "count - tw" s1 "pos + tw"
          "it\<lparr>it_bytes := drop tw (it_bytes it), it_count := it_count it - tw\<rparr>" "copied + tw"]
        tw False less.prems W holes by (simp add: io_ok_def block_univ_def)
    then obtain it' s' where r: "write_big_loop E i ib pos count copied it s =
        (int (copied + count), pos + count, it', s')"
      and w2: "big_written ib (i_size (inodes s i)) (pos + tw) (take (count - tw) (drop tw (it_bytes it))) s1 s'"
      using step tw W by auto
    have "length ?bs = tw" using less.prems(5) tw by simp
    then have "big_written ib (i_size (inodes s i)) pos (?bs @ take (count - tw) (drop tw (it_bytes it))) s s'"
      using w1 w2 al by (intro big_written_trans) simp_all
    moreover have "?bs @ take (count - tw) (drop tw (it_bytes it)) = take count (it_bytes it)"
      using tw(2) by (metis le_add_diff_inverse take_add)
    ultimately show ?thesis using r by auto
  qed
qed

section \<open>The read loop\<close>

lemma copy_to_iter_room:
  assumes "length bs \<le> out_room it" and "length bs \<le> out_count it"
  shows "copy_to_iter bs it = (length bs, it\<lparr>out_bytes := out_bytes it @ bs,
    out_room := out_room it - length bs, out_count := out_count it - length bs\<rparr>)"
  using assms by (simp add: copy_to_iter_def Let_def min_def)

text \<open>The bytes of one chunk, as the loop copies them.\<close>

lemma chunk_bytes:
  assumes "pos mod 4096 + n \<le> 4096"
  shows "map (file_byte s ib) [pos..<pos + n] =
    (let b = index_get (cache s ib) (pos div 4096)
     in if b = 0 then replicate n 0 else bytes_at (cache s b) (pos mod 4096) n)"
proof -
  have "(pos + j) div 4096 = pos div 4096" and "(pos + j) mod 4096 = pos mod 4096 + j" if "j < n" for j
  proof -
    show d: "(pos + j) div 4096 = pos div 4096"
    proof (rule div_nat_eqI)
      show "4096 * (pos div 4096) \<le> pos + j" by (simp add: trans_le_add1)
      show "pos + j < 4096 * Suc (pos div 4096)"
        using that assms mult_div_mod_eq [of 4096 pos] unfolding mult_Suc_right by linarith
    qed
    show "(pos + j) mod 4096 = pos mod 4096 + j"
      using d mult_div_mod_eq [of 4096 pos] mult_div_mod_eq [of 4096 "pos + j"] by linarith
  qed
  then show ?thesis
    by (intro nth_equalityI) (auto simp: file_byte_def Let_def)
qed

lemma read_big_loop_iter:
  assumes "count \<noteq> 0" and "min count (4096 - pos mod 4096) = n" and "\<not> 1024 \<le> pos div 4096"
    and "index_get (cache s ib) (pos div 4096) \<noteq> 0 \<longrightarrow> bread_ok E (index_get (cache s ib) (pos div 4096))"
    and "map (file_byte s ib) [pos..<pos + n] = bs"
    and "n \<le> out_room it" and "n \<le> out_count it"
  shows "read_big_loop E ib pos count copied it s =
    read_big_loop E ib (pos + n) (count - n) (copied + n)
      (it\<lparr>out_bytes := out_bytes it @ bs, out_room := out_room it - n, out_count := out_count it - n\<rparr>) s"
proof -
  have "pos mod 4096 + n \<le> 4096"
  proof -
    have "n \<le> 4096 - pos mod 4096" and "pos mod 4096 < 4096" using assms(2) by auto
    then show ?thesis by linarith
  qed
  note ch = chunk_bytes [OF this, of s ib] and len = assms(5) [THEN arg_cong, of length]
  show ?thesis
  proof (cases "index_get (cache s ib) (pos div 4096) = 0")
    case True
    then have "bs = replicate n 0" using ch assms(5) by simp
    then show ?thesis
      using True assms(1-4,6,7)
      by (subst read_big_loop.simps) (simp add: Let_def copy_to_iter_room)
  next
    case False
    then have "bs = bytes_at (cache s (index_get (cache s ib) (pos div 4096))) (pos mod 4096) n"
      using ch assms(5) by (simp add: Let_def)
    then show ?thesis
      using False assms(1-4,6,7)
      by (subst read_big_loop.simps) (simp add: Let_def copy_to_iter_room sb_bread_Some fs_defs)
  qed
qed

theorem read_big_loop_correct:
  assumes "big_wf s ib" and "io_ok E s" and "pos + count \<le> 4194304"
    and "count \<le> out_room it" and "count \<le> out_count it"
  shows "read_big_loop E ib pos count copied it s =
    (int (copied + count), pos + count,
     it\<lparr>out_bytes := out_bytes it @ map (file_byte s ib) [pos..<pos + count],
        out_room := out_room it - count, out_count := out_count it - count\<rparr>, s)"
  using assms(3-5)
proof (induction count arbitrary: pos copied it rule: less_induct)
  case (less count)
  show ?case
  proof (cases "count = 0")
    case True
    then show ?thesis by (subst read_big_loop.simps) simp
  next
    case False
    define n where "n = min count (4096 - pos mod 4096)"
    have n: "0 < n" "n \<le> count" using False by (simp_all add: n_def)
    have k: "pos div 4096 < 1024" using less.prems(1) False by (simp add: less_mult_imp_div_less)
    have io: "index_get (cache s ib) (pos div 4096) \<noteq> 0 \<longrightarrow> bread_ok E (index_get (cache s ib) (pos div 4096))"
      using assms(1,2) k by (simp add: big_wf_def io_ok_def)
    let ?it = "it\<lparr>out_bytes := out_bytes it @ map (file_byte s ib) [pos..<pos + n],
      out_room := out_room it - n, out_count := out_count it - n\<rparr>"
    have "read_big_loop E ib pos count copied it s =
        read_big_loop E ib (pos + n) (count - n) (copied + n) ?it s"
      using k io less.prems n by (intro read_big_loop_iter) (simp_all add: n_def False)
    also have "\<dots> = (int (copied + n + (count - n)), pos + n + (count - n),
        ?it\<lparr>out_bytes := out_bytes ?it @ map (file_byte s ib) [pos + n..<pos + n + (count - n)],
        out_room := out_room ?it - (count - n), out_count := out_count ?it - (count - n)\<rparr>, s)"
      using less.prems n False by (intro less.IH) simp_all
    finally have r: "read_big_loop E ib pos count copied it s = \<dots>" .
    have "[pos..<pos + count] = [pos..<pos + n] @ [pos + n..<pos + count]"
      using n(2) by (metis le_add1 le_add_diff_inverse upt_add_eq_append add.assoc)
    then show ?thesis using n(2) by (simp add: r)
  qed
qed

section \<open>Reading and writing a big file\<close>

text \<open>A mounted big file: its size and block count agree, its index block is well formed.\<close>

definition big_file :: "env \<Rightarrow> u32 \<Rightarrow> fs \<Rightarrow> bool" where
  "big_file E i s \<longleftrightarrow>
     big_wf s (index_block (inodes s i)) \<and> io_ok E s \<and>
     i_size (inodes s i) \<le> OUICHEFS_MAX_FILESIZE \<and>
     i_blocks (inodes s i) = of_nat (div_round_up (i_size (inodes s i)) OUICHEFS_BLOCK_SIZE) + 1"

definition content :: "u32 \<Rightarrow> fs \<Rightarrow> nat \<Rightarrow> u8" where
  "content i s p = file_byte s (index_block (inodes s i)) p"

lemma big_file_blocks:
  assumes "big_file E i s"
  shows "unat (i_blocks (inodes s i)) = div_round_up (i_size (inodes s i)) 4096 + 1"
    and "i_blocks (inodes s i) \<noteq> 0" and "index_block (inodes s i) \<noteq> 0"
proof -
  let ?n = "div_round_up (i_size (inodes s i)) 4096"
  have "?n \<le> 1024"
    using assms div_round_up_le_iff [of 4096 "i_size (inodes s i)" 1024] by (simp add: big_file_def)
  then have "unat (of_nat (?n + 1) :: u64) = ?n + 1" by (subst unat_of_nat) simp
  then show u: "unat (i_blocks (inodes s i)) = ?n + 1"
    using assms by (simp add: big_file_def add.commute)
  then show "i_blocks (inodes s i) \<noteq> 0" by auto
  show "index_block (inodes s i) \<noteq> 0"
    using assms by (auto simp: big_file_def big_wf_def block_univ_def)
qed

lemma custom_read_iter_big:
  assumes "big_file E i s" and "ki_pos iocb < i_size (inodes s i)" and "0 < out_count it"
    and "n = min (out_count it) (i_size (inodes s i) - ki_pos iocb)" and "n \<le> out_room it"
  shows "custom_read_iter E i iocb it s =
    Inr (int n, iocb\<lparr>ki_pos := ki_pos iocb + n\<rparr>,
      it\<lparr>out_bytes := out_bytes it @ map (content i s) [ki_pos iocb..<ki_pos iocb + n],
         out_room := out_room it - n, out_count := out_count it - n\<rparr>, s)"
proof -
  let ?ib = "index_block (inodes s i)" and ?s = "s\<lparr>refs := (refs s)(index_block (inodes s i) := refs s (index_block (inodes s i)) + 1)\<rparr>"
  have ib: "bread_ok E ?ib" using assms(1) by (auto simp: big_file_def big_wf_def io_ok_def)
  have wf: "big_wf ?s ?ib" and io: "io_ok E ?s"
    using assms(1) by (simp_all add: big_file_def big_wf_def io_ok_def free_zeroed_def)
  have fb: "file_byte ?s ?ib = content i s" by (simp add: fun_eq_iff content_def file_byte_def Let_def)
  have n: "0 < n" "ki_pos iocb + n \<le> i_size (inodes s i)" "n \<le> out_count it"
    using assms(2-4) by auto
  have "ki_pos iocb + n \<le> 4194304" using n assms(1) by (simp add: big_file_def)
  note loop = read_big_loop_correct [OF wf io this assms(5) n(3), unfolded fb]
  have cnt: "(if ki_pos iocb + out_count it > i_size (inodes s i) then i_size (inodes s i) - ki_pos iocb
      else out_count it) = n"
    using assms(2,4) by auto
  show ?thesis
    using big_file_blocks [OF assms(1)] assms(2) n(1) loop
    by (simp add: custom_read_iter_def Let_def cnt is_small_file_def sb_bread_Some [OF ib] fs_defs)
qed

lemma big_wf_cong: "sbi s = sbi s' \<Longrightarrow> cache s = cache s' \<Longrightarrow> big_wf s ib = big_wf s' ib"
  by (simp add: big_wf_def free_zeroed_def)

lemma file_byte_cong: "cache s = cache s' \<Longrightarrow> file_byte s ib p = file_byte s' ib p"
  by (simp add: file_byte_def Let_def)

lemma holes_cong: "cache s = cache s' \<Longrightarrow> holes s ib lo hi = holes s' ib lo hi"
  by (simp add: holes_def)

text \<open>What a successful write leaves behind.\<close>

definition file_written :: "env \<Rightarrow> u32 \<Rightarrow> u32 \<Rightarrow> nat \<Rightarrow> u8 list \<Rightarrow> fs \<Rightarrow> fs \<Rightarrow> bool" where
  "file_written E i ib pos bs s s' \<longleftrightarrow>
     index_block (inodes s' i) = ib \<and> big_file E i s' \<and>
     i_size (inodes s' i) = max (i_size (inodes s i)) (pos + length bs) \<and>
     (\<forall>p < 4194304. content i s' p = overlay (i_size (inodes s i)) pos bs (file_byte s ib) p) \<and>
     (\<forall>c. c \<noteq> ib \<and> c \<notin> data_blocks s ib \<and> c \<notin> free_blocks (sbi s) \<longrightarrow> cache s' c = cache s c) \<and>
     free_blocks (sbi s') \<subseteq> free_blocks (sbi s) \<and>
     (\<forall>j. j \<noteq> i \<longrightarrow> inodes s' j = inodes s j) \<and> refs s' = refs s \<and>
     i \<in> idirty s' \<and> (coherent s \<longrightarrow> coherent s')"

text \<open>The free-space check of \<^verbatim>\<open>write_big_file\<close>.\<close>

definition space_check_fails :: "nat \<Rightarrow> u64 \<Rightarrow> u32 \<Rightarrow> bool" where
  "space_check_fails new_size nblocks nfree \<longleftrightarrow>
     (let nr_allocs = of_nat (div_round_up new_size OUICHEFS_BLOCK_SIZE) :: u32
      in (ucast nr_allocs :: u64) > nblocks - 1 \<and>
         (ucast ((ucast nr_allocs :: u64) - (nblocks - 1)) :: u32) > nfree)"

lemma write_big_file_indexed:
  assumes wf: "big_wf s ib" and ib: "ib = index_block (inodes s i)" and io: "io_ok E s"
    and pos: "pos = (if ki_append iocb then i_size (inodes s i) else ki_pos iocb)"
    and n: "0 < it_count it" "length (it_bytes it) = it_count it"
    and lim: "pos + it_count it \<le> 4194304" "i_size (inodes s i) \<le> 4194304"
    and chk: "\<not> space_check_fails (max (pos + it_count it) (i_size (inodes s i)))
        (i_blocks (inodes s i)) (nr_free_blocks (sbi s))"
    and sp: "card (holes s ib (pos div 4096) (div_round_up (pos + it_count it) 4096)) \<le> card (free_blocks (sbi s))"
  shows "\<exists>it' s'. write_big_file E i iocb it s =
      (int (it_count it), iocb\<lparr>ki_pos := pos + it_count it\<rparr>, it', s') \<and>
      file_written E i ib pos (it_bytes it) s s'"
proof -
  let ?s = "s\<lparr>refs := (refs s)(ib := refs s ib + 1)\<rparr>"
  have nz: "ib \<noteq> 0" and br: "bread_ok E ib"
    using wf io by (auto simp: big_wf_def block_univ_def io_ok_def)
  have "\<exists>it' s1. write_big_loop E i ib pos (it_count it) 0 it ?s =
      (int (0 + it_count it), pos + it_count it, it', s1) \<and>
      big_written ib (i_size (inodes ?s i)) pos (take (it_count it) (it_bytes it)) ?s s1"
    using wf io n lim(1) sp
    by (intro write_big_loop_correct) (auto simp: big_wf_def io_ok_def free_zeroed_def holes_def)
  then obtain it' s1 where loop: "write_big_loop E i ib pos (it_count it) 0 it ?s =
      (int (it_count it), pos + it_count it, it', s1)"
    and "big_written ib (i_size (inodes s i)) pos (it_bytes it) ?s s1"
    using n(2) by auto
  note W = this(2) [unfolded big_written_def]
  define sz where "sz = max (i_size (inodes s i)) (pos + it_count it)"
  define t where "t = brelse ib (sync_dirty_buffer ib (mark_inode_dirty i (upd_inode i (\<lambda>nd.
      nd\<lparr>i_size := sz, i_blocks := of_nat (div_round_up sz 4096) + 1,
         i_mtime := current_time E, i_ctime := current_time E\<rparr>) s1)))"
  have szeq: "(if pos + it_count it > i_size (inodes s1 i) then pos + it_count it else i_size (inodes s1 i)) = sz"
    using W by (simp add: sz_def)
  have run: "write_big_file E i iocb it s = (int (it_count it), iocb\<lparr>ki_pos := pos + it_count it\<rparr>, it', t)"
    unfolding write_big_file_def pos [symmetric] ib [symmetric]
    using nz chk loop szeq
    by (simp add: Let_def sb_bread_Some [OF br] space_check_fails_def ib [symmetric] t_def upd_inode_def)
  have tc: "cache t = cache s1" and ts: "sbi t = sbi s1"
    by (auto simp: t_def fs_defs)
  have ti: "inodes t i = (inodes s i)\<lparr>i_size := sz, i_blocks := of_nat (div_round_up sz 4096) + 1,
         i_mtime := current_time E, i_ctime := current_time E\<rparr>"
    and tj: "\<forall>j. j \<noteq> i \<longrightarrow> inodes t j = inodes s j" and td: "i \<in> idirty t"
    using W by (auto simp: t_def fs_defs)
  have tr: "refs t = refs s"
    using W by (auto simp: t_def fs_defs fun_eq_iff)
  have co: "coherent s \<Longrightarrow> coherent t"
    using W by (auto simp: t_def fs_defs coherent_def)
  have "big_file E i t"
    using W io lim ti ts tc
    by (simp add: big_file_def io_ok_def block_univ_def big_wf_cong [OF ts tc] ib sz_def)
  moreover have "content i t p = overlay (i_size (inodes s i)) pos (it_bytes it) (file_byte s ib) p"
    if "p < 4194304" for p
  proof -
    have "content i t p = file_byte s1 ib p" using ti ib file_byte_cong [OF tc] by (simp add: content_def)
    also have "\<dots> = overlay (i_size (inodes s i)) pos (it_bytes it) (file_byte ?s ib) p" using W that by blast
    also have "\<dots> = overlay (i_size (inodes s i)) pos (it_bytes it) (file_byte s ib) p"
      by (intro overlay_cong file_byte_cong) simp
    finally show ?thesis .
  qed
  ultimately have "file_written E i ib pos (it_bytes it) s t"
    unfolding file_written_def using W ti tj tr td co n(2) ib
    by (simp add: tc ts sz_def) (simp add: data_blocks_def)
  with run show ?thesis by blast
qed

section \<open>The free-space check\<close>

text \<open>For an existing big file the check compares the growth with the free blocks; for a file with
  no blocks \<^verbatim>\<open>i_blocks - 1\<close> wraps around and the check never rejects a write.\<close>

lemma ucast_up_unat: "unat (ucast (x :: u32) :: u64) = unat x"
  by (simp add: unsigned_ucast_eq take_bit_nat_eq_self_iff order_less_le_trans [OF unsigned_less])

lemma space_check_new: "\<not> space_check_fails new_size 0 nfree"
proof -
  have "\<not> (x :: u64) > - 1" for x by (simp add: not_less word_order.extremum)
  then show ?thesis by (simp add: space_check_fails_def Let_def)
qed

lemma space_check_existing:
  assumes "new_size \<le> 4194304" and "old_size \<le> new_size"
  shows "space_check_fails new_size (of_nat (div_round_up old_size 4096) + 1) nfree \<longleftrightarrow>
    div_round_up new_size 4096 - div_round_up old_size 4096 > unat nfree"
proof -
  let ?n = "div_round_up new_size 4096" and ?o = "div_round_up old_size 4096"
  have o: "?o \<le> ?n" using assms(2) by (simp add: div_round_up_def div_le_mono)
  have n: "?n \<le> 1024" using assms(1) div_round_up_le_iff [of 4096 new_size 1024] by simp
  have u: "unat (of_nat ?n :: u32) = ?n" "unat (of_nat ?o :: u64) = ?o"
    using n o by (simp_all add: unat_of_nat)
  have a: "(ucast (of_nat ?n :: u32) :: u64) = of_nat ?n"
    using n by (intro word_unat_eq_iff [THEN iffD2]) (simp add: ucast_up_unat u unat_of_nat)
  have d: "(of_nat ?n :: u64) - of_nat ?o = of_nat (?n - ?o)" using o by simp
  have "unat (ucast (of_nat (?n - ?o) :: u64) :: u32) = ?n - ?o"
    using n by (simp add: unsigned_ucast_eq unat_of_nat take_bit_nat_eq_self_iff)
  moreover have "(of_nat ?n :: u64) > of_nat ?o \<longleftrightarrow> ?o < ?n"
    using n o by (simp add: word_less_nat_alt unat_of_nat)
  ultimately show ?thesis
    by (auto simp: space_check_fails_def Let_def a d word_less_nat_alt)
qed

section \<open>Writing an existing and a new big file\<close>

definition room_for :: "u32 \<Rightarrow> fs \<Rightarrow> nat \<Rightarrow> nat \<Rightarrow> bool" where
  "room_for i s pos n \<longleftrightarrow>
     pos + n \<le> OUICHEFS_MAX_FILESIZE \<and>
     div_round_up (max (pos + n) (i_size (inodes s i))) OUICHEFS_BLOCK_SIZE
       - div_round_up (i_size (inodes s i)) OUICHEFS_BLOCK_SIZE \<le> unat (nr_free_blocks (sbi s)) \<and>
     card (holes s (index_block (inodes s i)) (pos div OUICHEFS_BLOCK_SIZE)
             (div_round_up (pos + n) OUICHEFS_BLOCK_SIZE)) \<le> unat (nr_free_blocks (sbi s))"

lemma write_big_file_existing:
  assumes bf: "big_file E i s" and rm: "room_for i s pos (it_count it)"
    and pos: "pos = (if ki_append iocb then i_size (inodes s i) else ki_pos iocb)"
    and n: "0 < it_count it" "length (it_bytes it) = it_count it"
  shows "\<exists>it' s'. write_big_file E i iocb it s =
      (int (it_count it), iocb\<lparr>ki_pos := pos + it_count it\<rparr>, it', s') \<and>
      file_written E i (index_block (inodes s i)) pos (it_bytes it) s s'"
proof (rule write_big_file_indexed [OF _ refl _ pos n])
  have "block_pool (sbi s)" using bf by (simp add: big_file_def big_wf_def)
  note cf = blocks.counter_free [OF this]
  show "\<not> space_check_fails (max (pos + it_count it) (i_size (inodes s i)))
      (i_blocks (inodes s i)) (nr_free_blocks (sbi s))"
    using space_check_existing [of "max (pos + it_count it) (i_size (inodes s i))" "i_size (inodes s i)"]
      bf rm by (simp add: big_file_def room_for_def not_less)
  show "card (holes s (index_block (inodes s i)) (pos div 4096) (div_round_up (pos + it_count it) 4096))
      \<le> card (free_blocks (sbi s))"
    using rm cf by (simp add: room_for_def)
qed (use bf rm in \<open>simp_all add: big_file_def room_for_def\<close>)

text \<open>The first write of a big file allocates its index block and then runs as on an existing one.\<close>

lemma write_big_file_alloc:
  assumes "index_block (inodes s i) = 0" and "get_free_block (sbi s) = (bno, sb')" and "bno \<noteq> 0"
  shows "write_big_file E i iocb it s =
    write_big_file E i iocb it (upd_inode i (\<lambda>nd. nd\<lparr>index_block := bno\<rparr>) (s\<lparr>sbi := sb'\<rparr>))"
proof -
  let ?t = "upd_inode i (\<lambda>nd. nd\<lparr>index_block := bno\<rparr>) (s\<lparr>sbi := sb'\<rparr>)"
  have g: "fs_get_free_block s = (bno, s\<lparr>sbi := sb'\<rparr>)" using assms by (simp add: fs_get_free_block_def)
  have t: "index_block (inodes ?t i) = bno" "i_size (inodes ?t i) = i_size (inodes s i)"
    by (simp_all add: upd_inode_def)
  show ?thesis
    unfolding write_big_file_def Let_def t assms(1) g using assms(3) by simp
qed

lemma zeroed_big_wf:
  assumes "block_pool (sbi s)" and "free_zeroed s" and "bno \<in> block_univ (sbi s)"
    and "bno \<notin> free_blocks (sbi s)" and "zeroed (cache s bno)"
  shows "big_wf s bno"
  using assms by (simp add: big_wf_def zeroed_index_get)

lemma write_big_file_new:
  assumes new: "index_block (inodes s i) = 0" "i_blocks (inodes s i) = 0" "i_size (inodes s i) = 0"
    and pool: "block_pool (sbi s)" "free_zeroed s" and io: "io_ok E s"
    and pos: "pos = (if ki_append iocb then 0 else ki_pos iocb)"
    and n: "0 < it_count it" "length (it_bytes it) = it_count it" "pos + it_count it \<le> 4194304"
    and sp: "div_round_up (pos + it_count it) 4096 - pos div 4096 < unat (nr_free_blocks (sbi s))"
  shows "\<exists>ib it' s'. write_big_file E i iocb it s =
      (int (it_count it), iocb\<lparr>ki_pos := pos + it_count it\<rparr>, it', s') \<and>
      ib \<in> free_blocks (sbi s) \<and> ib \<notin> free_blocks (sbi s') \<and> index_block (inodes s' i) = ib \<and>
      big_file E i s' \<and> i_size (inodes s' i) = pos + it_count it \<and>
      (\<forall>p < 4194304. content i s' p = overlay 0 pos (it_bytes it) (\<lambda>_. 0) p) \<and>
      (\<forall>c. c \<notin> free_blocks (sbi s) \<longrightarrow> cache s' c = cache s c) \<and>
      (\<forall>j. j \<noteq> i \<longrightarrow> inodes s' j = inodes s j) \<and> refs s' = refs s \<and>
      (coherent s \<longrightarrow> coherent s')"
proof -
  note cf = blocks.counter_free [OF pool(1)]
  obtain ib sb' where g: "get_free_block (sbi s) = (ib, sb')" by fastforce
  have ne: "free_blocks (sbi s) \<noteq> {}" using sp cf by auto
  have ib: "ib \<in> free_blocks (sbi s)" using blocks.grab_free [OF pool(1) ne] g by simp
  then have nz: "ib \<noteq> 0" using blocks.grab_zero_iff [OF pool(1)] g by auto
  have fr: "free_blocks sb' = free_blocks (sbi s) - {ib}" and pool': "block_pool sb'"
    and un: "block_univ sb' = block_univ (sbi s)"
    using blocks.free_grab [OF pool(1)] blocks.grab_pool [OF pool(1)] blocks.univ_grab [OF pool(1)] g by auto
  let ?t = "upd_inode i (\<lambda>nd. nd\<lparr>index_block := ib\<rparr>) (s\<lparr>sbi := sb'\<rparr>)"
  have t: "cache ?t = cache s" "sbi ?t = sb'" "refs ?t = refs s" "coherent ?t = coherent s"
    "inodes ?t i = (inodes s i)\<lparr>index_block := ib\<rparr>" "j \<noteq> i \<Longrightarrow> inodes ?t j = inodes s j" for j
    by (simp_all add: upd_inode_def coherent_def)
  have z: "zeroed (cache s ib)" using pool(2) ib by (simp add: free_zeroed_def)
  have wf: "big_wf ?t ib"
    using pool' pool(2) blocks.free_univ [OF pool(1)] ib z
    by (intro zeroed_big_wf) (auto simp: t fr un free_zeroed_def)
  have io': "io_ok E ?t" using io by (simp add: io_ok_def t un)
  have hc: "card (holes ?t ib (pos div 4096) (div_round_up (pos + it_count it) 4096)) \<le> card (free_blocks (sbi ?t))"
  proof -
    have "card (holes ?t ib (pos div 4096) (div_round_up (pos + it_count it) 4096))
        \<le> card {pos div 4096..<div_round_up (pos + it_count it) 4096}"
      by (intro card_mono) (auto simp: holes_def)
    also have "\<dots> \<le> card (free_blocks (sbi s)) - 1" using sp cf by simp
    finally show ?thesis using ib by (simp add: t fr)
  qed
  have "\<exists>it' s'. write_big_file E i iocb it ?t =
      (int (it_count it), iocb\<lparr>ki_pos := pos + it_count it\<rparr>, it', s') \<and>
      file_written E i ib pos (it_bytes it) ?t s'"
    using wf io' pos n new hc
    by (intro write_big_file_indexed) (simp_all add: t space_check_new)
  then obtain it' s' where r: "write_big_file E i iocb it s =
      (int (it_count it), iocb\<lparr>ki_pos := pos + it_count it\<rparr>, it', s')"
    and W: "file_written E i ib pos (it_bytes it) ?t s'"
    using write_big_file_alloc [OF new(1) g nz] by metis
  note W = W [unfolded file_written_def]
  have db: "data_blocks ?t ib = {}"
    using z zeroed_index_get by (auto simp: data_blocks_def t)
  have byte: "content i s' p = overlay 0 pos (it_bytes it) (\<lambda>_. 0) p" if "p < 4194304" for p
  proof -
    have "index_get (cache s ib) (p div 4096) = 0"
      using that by (intro zeroed_index_get z) (simp add: less_mult_imp_div_less)
    then have "file_byte ?t ib p = 0" by (simp add: file_byte_def t)
    then show ?thesis using W that new(3) overlay_cong [of "file_byte ?t ib" p "\<lambda>_. 0"] by (simp add: t)
  qed
  have nf: "ib \<notin> free_blocks (sbi s')"
    using W fr t(2) by auto
  have frame: "cache s' c = cache s c" if "c \<notin> free_blocks (sbi s)" for c
    using W that db ib by (simp add: t fr) metis
  have rest: "index_block (inodes s' i) = ib" "big_file E i s'" "i_size (inodes s' i) = pos + it_count it"
    "\<forall>j. j \<noteq> i \<longrightarrow> inodes s' j = inodes s j" "refs s' = refs s" "coherent s \<longrightarrow> coherent s'"
    using W n(2) new(3) by (simp_all add: t)
  show ?thesis
    using r ib nf byte frame rest by blast
qed

section \<open>The contract of a file\<close>

text \<open>What a client of a file relies on: a read returns the bytes of the file up to its end, a
  write that fits succeeds, stores its bytes, extends the file if it ends beyond it and keeps every
  other byte.\<close>

locale byte_file =
  fixes rd :: "'s \<Rightarrow> nat \<Rightarrow> nat \<Rightarrow> 'b list option"
    and wr :: "'s \<Rightarrow> nat \<Rightarrow> 'b list \<Rightarrow> 's option"
    and byte :: "'s \<Rightarrow> nat \<Rightarrow> 'b"
    and len :: "'s \<Rightarrow> nat"
    and ok :: "'s \<Rightarrow> bool"
    and fits :: "'s \<Rightarrow> nat \<Rightarrow> nat \<Rightarrow> bool"
  assumes rd: "ok s \<Longrightarrow> pos < len s \<Longrightarrow> 0 < n \<Longrightarrow>
      rd s pos n = Some (map (byte s) [pos..<pos + min n (len s - pos)])"
    and wr: "ok s \<Longrightarrow> fits s pos (length bs) \<Longrightarrow> bs \<noteq> [] \<Longrightarrow> \<exists>s'. wr s pos bs = Some s'"
    and wr_ok: "ok s \<Longrightarrow> fits s pos (length bs) \<Longrightarrow> bs \<noteq> [] \<Longrightarrow> wr s pos bs = Some s' \<Longrightarrow> ok s'"
    and wr_len: "ok s \<Longrightarrow> fits s pos (length bs) \<Longrightarrow> bs \<noteq> [] \<Longrightarrow> wr s pos bs = Some s' \<Longrightarrow>
      len s' = max (len s) (pos + length bs)"
    and wr_new: "ok s \<Longrightarrow> fits s pos (length bs) \<Longrightarrow> bs \<noteq> [] \<Longrightarrow> wr s pos bs = Some s' \<Longrightarrow>
      k < length bs \<Longrightarrow> byte s' (pos + k) = bs ! k"
    and wr_old: "ok s \<Longrightarrow> fits s pos (length bs) \<Longrightarrow> bs \<noteq> [] \<Longrightarrow> wr s pos bs = Some s' \<Longrightarrow>
      p < len s \<Longrightarrow> p < pos \<or> pos + length bs \<le> p \<Longrightarrow> byte s' p = byte s p"
begin

lemma read_written:
  assumes "ok s" and "fits s pos (length bs)" and "bs \<noteq> []" and "wr s pos bs = Some s'"
  shows "rd s' pos (length bs) = Some bs"
proof -
  note a = assms
  have "map (byte s') [pos..<pos + length bs] = bs"
    by (rule nth_equalityI) (use wr_new [OF a] in auto)
  moreover have "min (length bs) (len s' - pos) = length bs" "pos < len s'"
    using wr_len [OF a] a(3) by (auto simp: max_def)
  ultimately show ?thesis
    using rd [OF wr_ok [OF a], of pos "length bs"] a(3) by simp
qed

lemma read_unwritten:
  assumes "ok s" and "fits s pos (length bs)" and "bs \<noteq> []" and "wr s pos bs = Some s'"
    and "0 < n" and "q + n \<le> len s" and "q + n \<le> pos \<or> pos + length bs \<le> q"
  shows "rd s' q n = rd s q n"
proof -
  note a = assms(1-4)
  have "map (byte s') [q..<q + n] = map (byte s) [q..<q + n]"
    using assms(5-7) by (auto intro!: wr_old [OF a])
  moreover have "min n (len s' - q) = n" "min n (len s - q) = n" "q < len s'" "q < len s"
    using wr_len [OF a] assms(5,6) by (auto simp: max_def)
  ultimately show ?thesis
    using rd [OF wr_ok [OF a], of q n] rd [OF a(1), of q n] assms(5) by simp
qed

text \<open>Appending: afterwards the file reads as its old content followed by the new bytes.\<close>

lemma read_appended:
  assumes "ok s" and "fits s (len s) (length bs)" and "bs \<noteq> []" and "wr s (len s) bs = Some s'"
    and "rd s 0 (len s) = Some old" and "0 < len s"
  shows "rd s' 0 (len s + length bs) = Some (old @ bs)"
proof -
  note a = assms(1-4)
  have len: "len s' = len s + length bs" using wr_len [OF a] by simp
  have old: "old = map (byte s) [0..<len s]" using rd [OF a(1), of 0 "len s"] assms(5,6) by simp
  have "map (byte s') [0..<len s + length bs] = map (byte s') [0..<len s] @ map (byte s') [len s..<len s + length bs]"
    by (metis map_append upt_add_eq_append zero_le)
  also have "map (byte s') [0..<len s] = old"
    using wr_old [OF a] by (simp add: old)
  also have "map (byte s') [len s..<len s + length bs] = bs"
    by (rule nth_equalityI) (use wr_new [OF a] in auto)
  finally show ?thesis
    using rd [OF wr_ok [OF a], of 0 "len s + length bs"] a(3) len by simp
qed

end

text \<open>The two system calls as the client sees them: \<^verbatim>\<open>pread\<close> with a buffer of \<open>n\<close> bytes and
  \<^verbatim>\<open>pwrite\<close> of all of \<open>bs\<close>, through the handlers of \<^verbatim>\<open>ouichefs_file_ops\<close>.\<close>

definition read_bytes :: "env \<Rightarrow> u32 \<Rightarrow> fs \<Rightarrow> nat \<Rightarrow> nat \<Rightarrow> u8 list option" where
  "read_bytes E i s pos n =
     (case custom_read_iter E i \<lparr>ki_pos = pos, ki_append = False\<rparr>
             \<lparr>out_bytes = [], out_room = n, out_count = n\<rparr> s of
        Inl _ \<Rightarrow> None
      | Inr (ret, _, it, _) \<Rightarrow> if ret = int (length (out_bytes it)) then Some (out_bytes it) else None)"

definition write_bytes :: "env \<Rightarrow> nat \<Rightarrow> u32 \<Rightarrow> fs \<Rightarrow> nat \<Rightarrow> u8 list \<Rightarrow> fs option" where
  "write_bytes E fuel i s pos bs =
     (case custom_write_iter E fuel i \<lparr>ki_pos = pos, ki_append = False\<rparr>
             \<lparr>it_bytes = bs, it_count = length bs\<rparr> s of
        Inl _ \<Rightarrow> None
      | Inr (ret, _, _, s') \<Rightarrow> if ret = int (length bs) then Some s' else None)"

lemma custom_write_iter_big:
  assumes "big_file E i s"
  shows "custom_write_iter E fuel i iocb it s = Inr (write_big_file E i iocb it s)"
  using big_file_blocks [OF assms] by (simp add: custom_write_iter_def is_new_def is_small_file_def Let_def)

lemma read_bytes_big:
  assumes "big_file E i s" and "pos < i_size (inodes s i)" and "0 < n"
  shows "read_bytes E i s pos n =
    Some (map (content i s) [pos..<pos + min n (i_size (inodes s i) - pos)])"
  using assms custom_read_iter_big [OF assms(1), of "\<lparr>ki_pos = pos, ki_append = False\<rparr>"
      "\<lparr>out_bytes = [], out_room = n, out_count = n\<rparr>"]
  by (simp add: read_bytes_def)

lemma write_bytes_big:
  assumes "big_file E i s" and "room_for i s pos (length bs)" and "bs \<noteq> []"
  shows "\<exists>s'. write_bytes E fuel i s pos bs = Some s' \<and>
    file_written E i (index_block (inodes s i)) pos bs s s'"
  using write_big_file_existing [OF assms(1), of pos "\<lparr>it_bytes = bs, it_count = length bs\<rparr>"
      "\<lparr>ki_pos = pos, ki_append = False\<rparr>"] assms(2,3)
  by (auto simp: write_bytes_def custom_write_iter_big [OF assms(1)])

lemma write_bytes_big_written:
  assumes "big_file E i s" and "room_for i s pos (length bs)" and "bs \<noteq> []"
    and "write_bytes E fuel i s pos bs = Some s'"
  shows "file_written E i (index_block (inodes s i)) pos bs s s'"
  using write_bytes_big [OF assms(1-3), of fuel] assms(4) by auto

interpretation bigf: byte_file "read_bytes E i" "write_bytes E fuel i" "content i"
  "\<lambda>s. i_size (inodes s i)" "big_file E i" "room_for i"
  for E fuel i
proof
  fix s s' pos bs k p
  assume a: "big_file E i s" "room_for i s pos (length bs)" "(bs :: u8 list) \<noteq> []"
    "write_bytes E fuel i s pos bs = Some s'"
  note W = write_bytes_big_written [OF a, unfolded file_written_def]
  have lim: "pos + length bs \<le> 4194304" "i_size (inodes s i) \<le> 4194304"
    using a(1,2) by (simp_all add: room_for_def big_file_def)
  show "big_file E i s'" "i_size (inodes s' i) = max (i_size (inodes s i)) (pos + length bs)"
    using W by simp_all
  show "content i s' (pos + k) = bs ! k" if "k < length bs"
    using W lim that by (simp add: overlay_def)
  show "content i s' p = content i s p"
    if "p < i_size (inodes s i)" "p < pos \<or> pos + length bs \<le> p"
  proof -
    have "content i s' p = overlay (i_size (inodes s i)) pos bs (file_byte s (index_block (inodes s i))) p"
      using W lim(2) that(1) by simp
    then show ?thesis by (simp add: overlay_outside [OF that] content_def)
  qed
qed (use read_bytes_big write_bytes_big in blast)+

end
