(* ===== verification/Ouiche_SmallFile.thy ===== *)
theory Ouiche_SmallFile
  imports Ouiche_BigFile
begin

text \<open>
  Correctness of small files: a file kept in consecutive slices of a sliced block.  The search of
  \<^verbatim>\<open>write_small_file\<close> along the chain ends and returns the first block with a long enough run of
  free slices, or a fresh block hung at the end of the chain.  The invariant \<open>small_vol\<close> says
  which file owns which slice; writing a new small file and deleting one keep it, and keep the
  bytes of every other small file.
\<close>

section \<open>The search along the chain\<close>

text \<open>Claiming the run \<open>j\<close>, \<open>n\<close> of block \<open>b\<close> for inode \<open>i\<close>.\<close>

definition claim_bits :: "nat \<Rightarrow> nat \<Rightarrow> block \<Rightarrow> block" where
  "claim_bits j n d = SLICED_BLOCK_SB_SET_BITMAP (SLICED_BLOCK_SB_BITMAP d AND NOT (run_mask j n)) d"

definition claim_run :: "u32 \<Rightarrow> u32 \<Rightarrow> nat \<Rightarrow> nat \<Rightarrow> fs \<Rightarrow> fs" where
  "claim_run b i j n s =
     mark_inode_dirty i (upd_inode i (\<lambda>nd. nd\<lparr>num_slices := of_nat n\<rparr>) (buf_upd b (claim_bits j n) s))"

abbreviation slices_of :: "nat \<Rightarrow> nat" where
  "slices_of sz \<equiv> div_round_up sz 128"

abbreviation bm_of :: "fs \<Rightarrow> u32 \<Rightarrow> u32" where
  "bm_of s b \<equiv> SLICED_BLOCK_SB_BITMAP (cache s b)"

lemma slices_of_bounds: "sz \<le> 3968 \<Longrightarrow> slices_of sz \<le> 31" "0 < sz \<Longrightarrow> 1 \<le> slices_of sz"
  by (auto simp: div_round_up_def)

lemma get_slices_claim:
  assumes "sz \<le> 3968" and "has_run (bm_of s b) (slices_of sz)"
  shows "get_consequitive_free_slices b i sz s =
    (of_nat (first_run (bm_of s b) (slices_of sz)),
     claim_run b i (first_run (bm_of s b) (slices_of sz)) (slices_of sz) s)"
    and "(of_nat (first_run (bm_of s b) (slices_of sz)) :: u32) \<noteq> 0"
    and "unat (of_nat (first_run (bm_of s b) (slices_of sz)) :: u32) = first_run (bm_of s b) (slices_of sz)"
proof -
  let ?j = "first_run (bm_of s b) (slices_of sz)"
  have claim: "(\<lambda>d. SLICED_BLOCK_SB_SET_BITMAP (SLICED_BLOCK_SB_BITMAP d AND NOT (run_mask j n)) d) = claim_bits j n"
    for j n by (simp add: fun_eq_iff claim_bits_def)
  show "get_consequitive_free_slices b i sz s = (of_nat ?j, claim_run b i ?j (slices_of sz) s)"
    using assms by (simp add: get_consequitive_free_slices_eq [where n = "slices_of sz"] Let_def claim_run_def claim)
  have "1 \<le> ?j" "?j \<le> 32" using first_run_props [OF assms(2)] by auto
  then show "unat (of_nat ?j :: u32) = ?j" by (simp add: unat_of_nat_u32)
  with \<open>1 \<le> ?j\<close> show "(of_nat ?j :: u32) \<noteq> 0" by (metis not_one_le_zero unsigned_0)
qed

lemma get_slices_none:
  assumes "sz \<le> 3968" and "\<not> has_run (bm_of s b) (slices_of sz)"
  shows "get_consequitive_free_slices b i sz s = (0, s)"
  using assms by (simp add: get_consequitive_free_slices_eq [where n = "slices_of sz"] Let_def)

text \<open>A fresh sliced block \<open>nb\<close>, taken from the pool (which becomes \<open>sb'\<close>) and hung behind \<open>prev\<close>.\<close>

definition fresh_header :: "block \<Rightarrow> block" where
  "fresh_header d = d(0 := 0xFE, 1 := 0xFF, 2 := 0xFF, 3 := 0xFF)"

definition appended :: "u32 option \<Rightarrow> u32 \<Rightarrow> sb_info \<Rightarrow> fs \<Rightarrow> fs" where
  "appended prev nb sb' s =
     (let s = s\<lparr>sbi := sb'\<lparr>nr_sliced_blocks := nr_sliced_blocks sb' + 1\<rparr>,
                 cache := (cache s)(nb := fresh_header (cache s nb))\<rparr>
      in case prev of
           None \<Rightarrow> upd_sbi (\<lambda>sb. sb\<lparr>s_free_sliced_blocks := nb\<rparr>) s
         | Some p \<Rightarrow> sync_dirty_buffer p (mark_buffer_dirty p (buf_upd p (SLICED_BLOCK_SB_SET_NEXT nb) s)))"

lemma fresh_header_bitmap [simp]: "SLICED_BLOCK_SB_BITMAP (fresh_header d) = 0xFFFFFFFE"
  by (simp add: SLICED_BLOCK_SB_BITMAP_def fresh_header_def get_le_def upt_rec_numeral)

lemma fresh_header_next [simp]: "SLICED_BLOCK_SB_NEXT (fresh_header d) = SLICED_BLOCK_SB_NEXT d"
  unfolding SLICED_BLOCK_SB_NEXT_def by (rule get_le_cong) (simp add: fresh_header_def)

lemma fresh_header_payload [simp]: "8 \<le> k \<Longrightarrow> fresh_header d k = d k"
  by (simp add: fresh_header_def)

lemma allocate_fresh:
  assumes "get_free_block (sbi s) = (nb, sb')" and "nb \<noteq> 0" and "nb \<le> 2 ^ 27" and "bread_ok E nb"
  shows "allocate_and_init_slice_block E s =
    (int (unat nb), Some nb, hold nb (s\<lparr>sbi := sb'\<lparr>nr_sliced_blocks := nr_sliced_blocks sb' + 1\<rparr>,
        cache := (cache s)(nb := fresh_header (cache s nb))\<rparr>))"
  using assms
  by (simp add: allocate_and_init_slice_block_def fs_get_free_block_def init_slice_block_def
      sb_bread_def fresh_header_def buf_upd_def upd_sbi_def hold_def not_less)

lemma slice_search_found:
  "sl \<noteq> 0 \<Longrightarrow> slice_search E fuel i sz bh sl s = Inr (Inr (bh, sl), s)"
  by (simp add: slice_search.simps)

lemma slice_search_next:
  assumes "SLICED_BLOCK_SB_NEXT (cache s bh) = b" and "b \<noteq> 0" and "bread_ok E b"
  shows "slice_search E (Suc fuel) i sz bh 0 (hold bh s) =
    (let (sl, s') = get_consequitive_free_slices b i sz (hold b s)
     in slice_search E fuel i sz b sl s')"
  using assms by (subst slice_search.simps) (simp add: sb_bread_hold brelse_hold_first)

lemma slice_search_alloc:
  assumes "SLICED_BLOCK_SB_NEXT (cache s bh) = 0" and "bh \<noteq> nb"
    and "get_free_block (sbi s) = (nb, sb')" and "nb \<noteq> 0" and "nb \<le> 2 ^ 27" and "bread_ok E nb"
  shows "slice_search E (Suc fuel) i sz bh 0 (hold bh s) =
    (let (sl, s') = get_consequitive_free_slices nb i sz (hold nb (appended (Some bh) nb sb' s))
     in slice_search E fuel i sz nb sl s')"
proof -
  have a: "allocate_and_init_slice_block E (hold bh s) =
    (int (unat nb), Some nb, hold nb (hold bh (s\<lparr>sbi := sb'\<lparr>nr_sliced_blocks := nr_sliced_blocks sb' + 1\<rparr>,
        cache := (cache s)(nb := fresh_header (cache s nb))\<rparr>)))"
    using allocate_fresh [of "hold bh s"] assms(3-6) by (simp add: hold_def)
  have "0 < int (unat nb)" using assms(4) by (simp only: of_nat_0_less_iff unat_gt_0 not_False_eq_True)
  moreover have "brelse bh (sync_dirty_buffer bh (mark_buffer_dirty bh
      (buf_upd bh (SLICED_BLOCK_SB_SET_NEXT nb) (hold nb (hold bh t))))) =
    hold nb (sync_dirty_buffer bh (mark_buffer_dirty bh (buf_upd bh (SLICED_BLOCK_SB_SET_NEXT nb) t)))" for t
    using assms(2) by (simp add: fs_defs hold_def fun_upd_twist)
  ultimately show ?thesis
    using assms(1) by (subst slice_search.simps) (simp add: a appended_def Let_def)
qed

text \<open>The block the search settles on, if the chain has one.\<close>

definition pick :: "fs \<Rightarrow> nat \<Rightarrow> u32 list \<Rightarrow> u32 option" where
  "pick s n xs = find (\<lambda>b. has_run (bm_of s b) n) xs"

lemma pick_simps [simp]:
  "pick s n [] = None"
  "pick s n (b # xs) = (if has_run (bm_of s b) n then Some b else pick s n xs)"
  by (simp_all add: pick_def)

lemma pick_Some: "pick s n xs = Some b \<Longrightarrow> b \<in> set xs \<and> has_run (bm_of s b) n"
  by (induction xs) (auto split: if_splits)

lemma pick_None_iff: "pick s n xs = None \<longleftrightarrow> (\<forall>b \<in> set xs. \<not> has_run (bm_of s b) n)"
  by (induction xs) auto

lemma slice_search_chain:
  assumes "chain (cache s) (SLICED_BLOCK_SB_NEXT (cache s bh)) rest" and "length rest \<le> fuel"
    and "\<forall>b \<in> set rest. bread_ok E b" and "sz \<le> 3968"
    and "pick s (slices_of sz) rest = Some b" and "j = first_run (bm_of s b) (slices_of sz)"
  shows "slice_search E fuel i sz bh 0 (hold bh s) =
    Inr (Inr (b, of_nat j), claim_run b i j (slices_of sz) (hold b s))"
  using assms
proof (induction rest arbitrary: bh fuel)
  case Nil
  then show ?case by simp
next
  case (Cons c rest)
  obtain f where f: "fuel = Suc f" "length rest \<le> f" using Cons.prems(2) by (cases fuel) auto
  have c: "SLICED_BLOCK_SB_NEXT (cache s bh) = c" "c \<noteq> 0" "bread_ok E c"
    "chain (cache s) (SLICED_BLOCK_SB_NEXT (cache s c)) rest"
    using Cons.prems(1,3) by auto
  note step = slice_search_next [OF c(1-3), of f i sz]
  show ?case
  proof (cases "has_run (bm_of s c) (slices_of sz)")
    case True
    then have "b = c" using Cons.prems(5) by simp
    then show ?thesis
      using True Cons.prems(4,6) step get_slices_claim(1) [of sz "hold c s" c i]
        get_slices_claim(2) [of sz "hold c s" c]
      by (simp add: f slice_search_found)
  next
    case False
    then show ?thesis
      using Cons.prems Cons.IH [OF c(4) f(2)] step get_slices_none [of sz "hold c s" c i]
      by (simp add: f)
  qed
qed

lemma bit_all_free: "bit (0xFFFFFFFE :: u32) k \<longleftrightarrow> 1 \<le> k \<and> k < 32"
proof -
  have eq: "(0xFFFFFFFE :: u32) = NOT 1" by simp
  show ?thesis unfolding eq bit_not_iff bit_1_iff by auto
qed

lemma fresh_run:
  assumes "n \<le> 31"
  shows "has_run 0xFFFFFFFE n" and "first_run 0xFFFFFFFE n = 1"
proof -
  have "run_free 0xFFFFFFFE 1 n" using assms by (simp only: run_free_def bit_all_free) auto
  then show "has_run 0xFFFFFFFE n" "first_run 0xFFFFFFFE n = 1"
    using assms by (auto simp: has_run_def first_run_def intro!: exI [of _ 1] Least_equality)
qed

lemma appended_bitmap:
  "nb \<notin> set_option prev \<Longrightarrow> bm_of (appended prev nb sb' s) nb = 0xFFFFFFFE"
  by (cases prev) (auto simp: appended_def Let_def fs_defs)

lemma slice_search_fresh:
  assumes "chain (cache s) (SLICED_BLOCK_SB_NEXT (cache s bh)) rest" and "Suc (length rest) \<le> fuel"
    and "\<forall>b \<in> set rest. bread_ok E b" and "sz \<le> 3968"
    and "pick s (slices_of sz) rest = None" and "nb \<notin> set (bh # rest)"
    and g: "get_free_block (sbi s) = (nb, sb')" "nb \<noteq> 0" "nb \<le> 2 ^ 27" "bread_ok E nb"
  shows "slice_search E fuel i sz bh 0 (hold bh s) =
    Inr (Inr (nb, 1), claim_run nb i 1 (slices_of sz) (hold nb (appended (Some (last (bh # rest))) nb sb' s)))"
  using assms(1-6)
proof (induction rest arbitrary: bh fuel)
  case Nil
  obtain f where f: "fuel = Suc f" using Nil.prems(2) by (cases fuel) auto
  have nx: "SLICED_BLOCK_SB_NEXT (cache s bh) = 0" "bh \<noteq> nb" using Nil.prems(1,6) by auto
  let ?t = "hold nb (appended (Some bh) nb sb' s)"
  have bm: "bm_of ?t nb = 0xFFFFFFFE" using appended_bitmap [of nb "Some bh"] nx by simp
  note fr = fresh_run [OF slices_of_bounds(1) [OF Nil.prems(4)]]
  have "get_consequitive_free_slices nb i sz ?t = (1, claim_run nb i 1 (slices_of sz) ?t)"
    using get_slices_claim(1) [OF Nil.prems(4), of ?t nb i] fr bm by simp
  then show ?case
    using slice_search_alloc [OF nx g, of f i sz] by (simp add: f slice_search_found)
next
  case (Cons c rest)
  obtain f where f: "fuel = Suc f" "Suc (length rest) \<le> f" using Cons.prems(2) by (cases fuel) auto
  have c: "SLICED_BLOCK_SB_NEXT (cache s bh) = c" "c \<noteq> 0" "bread_ok E c"
    "chain (cache s) (SLICED_BLOCK_SB_NEXT (cache s c)) rest"
    using Cons.prems(1,3) by auto
  have no: "\<not> has_run (bm_of s c) (slices_of sz)" "pick s (slices_of sz) rest = None"
    using Cons.prems(5) by (auto split: if_splits)
  then show ?case
    using Cons.prems Cons.IH [OF c(4) f(2)] slice_search_next [OF c(1-3), of f i sz]
      get_slices_none [of sz "hold c s" c i]
    by (simp add: f(1))
qed

section \<open>Writing a new small file\<close>

text \<open>The state in which block \<open>b\<close> is the one to write to: the chain as it is, or extended.\<close>

definition placed :: "fs \<Rightarrow> u32 list \<Rightarrow> nat \<Rightarrow> u32 \<Rightarrow> fs \<Rightarrow> bool" where
  "placed s xs n b u \<longleftrightarrow>
     (case pick s n xs of
        Some b' \<Rightarrow> b = b' \<and> u = s
      | None \<Rightarrow> b \<in> free_blocks (sbi s) \<and> b = fst (get_free_block (sbi s)) \<and>
          u = appended (if xs = [] then None else Some (last xs)) b (snd (get_free_block (sbi s))) s)"

definition small_stored ::
  "env \<Rightarrow> u32 \<Rightarrow> u32 \<Rightarrow> nat \<Rightarrow> nat \<Rightarrow> nat \<Rightarrow> u8 list \<Rightarrow> fs \<Rightarrow> fs" where
  "small_stored E i b j pos sz bs u =
     (let d = memcpy (claim_bits j (slices_of sz) (cache u b)) (j * 128 + pos) bs in
      u\<lparr>cache := (cache u)(b := d), disk := (disk u)(b := d), dirty := dirty u - {b},
        sbi := (sbi u)\<lparr>nr_used_slices := nr_used_slices (sbi u) + of_nat (slices_of sz)\<rparr>,
        inodes := (inodes u)(i := (inodes u i)\<lparr>num_slices := of_nat (slices_of sz), i_size := sz,
          i_mtime := current_time E, i_ctime := current_time E,
          index_block := pack_slice b (of_nat j)\<rparr>),
        idirty := insert i (idirty u)\<rparr>)"

lemma write_small_finish_claimed:
  assumes "j + slices_of sz \<le> 32" and "pos + it_count it \<le> sz"
    and "length (it_bytes it) = it_count it"
  shows "\<exists>it'. write_small_finish E i b (of_nat j) pos sz iocb it (claim_run b i j (slices_of sz) (hold b u)) =
    Inr (int (it_count it), iocb\<lparr>ki_pos := pos\<rparr>, it', small_stored E i b j pos sz (it_bytes it) u)"
proof -
  have "sz \<le> slices_of sz * 128" by (simp add: div_round_up_def)
  then have bound: "j * 128 + pos + it_count it \<le> 4096"
    using assms(1,2) by linarith
  have j: "unat (of_nat j :: u32) = j" using assms(1) by (simp add: unat_of_nat_u32)
  show ?thesis
    using assms(3) bound
    by (simp add: write_small_finish_def Let_def j copy_from_iter_enough claim_run_def small_stored_def
        fs_defs hold_def)
qed

definition mounted :: "env \<Rightarrow> fs \<Rightarrow> bool" where
  "mounted E s \<longleftrightarrow> io_ok E s \<and> unat (nr_blocks (sbi s)) \<le> 2 ^ 27"

lemma grab_facts:
  assumes "mounted E s" and "block_pool (sbi s)" and "free_blocks (sbi s) \<noteq> {}"
    and "get_free_block (sbi s) = (nb, sb')"
  shows "nb \<in> free_blocks (sbi s)" and "nb \<noteq> 0" and "nb \<le> 2 ^ 27" and "bread_ok E nb"
    and "unat nb < 2 ^ 27" and "block_pool sb'" and "free_blocks sb' = free_blocks (sbi s) - {nb}"
    and "block_univ sb' = block_univ (sbi s)" and "nb \<in> block_univ (sbi s)"
    and "nr_used_slices sb' = nr_used_slices (sbi s)" and "nr_blocks sb' = nr_blocks (sbi s)"
    and "s_free_sliced_blocks sb' = s_free_sliced_blocks (sbi s)"
    and "nr_sliced_blocks sb' = nr_sliced_blocks (sbi s)"
proof -
  note g = assms(4)
  show f: "nb \<in> free_blocks (sbi s)" using blocks.grab_free [OF assms(2,3)] g by simp
  show u: "nb \<in> block_univ (sbi s)" using f blocks.free_univ [OF assms(2)] by blast
  show "nb \<noteq> 0" using u blocks.univ_nonzero [OF assms(2)] by auto
  show lt: "unat nb < 2 ^ 27"
    using u assms(1) by (simp add: mounted_def block_univ_def word_less_nat_alt)
  then show "nb \<le> 2 ^ 27" by (simp add: word_le_nat_alt)
  show "bread_ok E nb" using u assms(1) by (simp add: mounted_def io_ok_def)
  show "block_pool sb'" "free_blocks sb' = free_blocks (sbi s) - {nb}"
    "block_univ sb' = block_univ (sbi s)"
    using blocks.grab_pool [OF assms(2)] blocks.free_grab [OF assms(2)] blocks.univ_grab [OF assms(2)] g by simp_all
  show "nr_used_slices sb' = nr_used_slices (sbi s)" "nr_blocks sb' = nr_blocks (sbi s)"
    "s_free_sliced_blocks sb' = s_free_sliced_blocks (sbi s)"
    "nr_sliced_blocks sb' = nr_sliced_blocks (sbi s)"
    using g by (auto simp: get_free_block_def Let_def split: if_splits prod.splits)
qed

lemma write_small_new_placed:
  assumes ch: "sliced_chain E s xs" and fuel: "Suc (length xs) \<le> fuel" and mt: "mounted E s"
    and pos: "pos = (if ki_append iocb then i_size (inodes s i) else ki_pos iocb)"
    and sz: "sz = max (pos + it_count it) (i_size (inodes s i))" "sz \<le> 3968"
    and it: "length (it_bytes it) = it_count it"
    and room: "pick s (slices_of sz) xs \<noteq> None \<or> free_blocks (sbi s) \<noteq> {}"
  shows "\<exists>b u it'. placed s xs (slices_of sz) b u \<and> has_run (bm_of u b) (slices_of sz) \<and>
    write_small_new E fuel i iocb it s = Inr (int (it_count it), iocb\<lparr>ki_pos := pos\<rparr>, it',
      small_stored E i b (first_run (bm_of u b) (slices_of sz)) pos sz (it_bytes it) u)"
proof -
  have finish: "\<exists>it'. write_small_finish E i b (of_nat (first_run (bm_of u b) (slices_of sz))) pos sz iocb it
      (claim_run b i (first_run (bm_of u b) (slices_of sz)) (slices_of sz) (hold b u)) =
    Inr (int (it_count it), iocb\<lparr>ki_pos := pos\<rparr>, it',
      small_stored E i b (first_run (bm_of u b) (slices_of sz)) pos sz (it_bytes it) u)"
    if "has_run (bm_of u b) (slices_of sz)" for b u
    using first_run_props [OF that] sz it by (intro write_small_finish_claimed) auto
  have concl: ?thesis if "placed s xs (slices_of sz) b u" and "has_run (bm_of u b) (slices_of sz)"
    and "write_small_new E fuel i iocb it s =
      write_small_finish E i b (of_nat (first_run (bm_of u b) (slices_of sz))) pos sz iocb it
        (claim_run b i (first_run (bm_of u b) (slices_of sz)) (slices_of sz) (hold b u))" for b u
    using finish [OF that(2)] that by (intro exI [of _ b] exI [of _ u]) auto
  have pool: "block_pool (sbi s)" using ch by (simp add: sliced_chain_def)
  obtain nb sb' where g: "get_free_block (sbi s) = (nb, sb')" by fastforce
  note fr = fresh_run [OF slices_of_bounds(1) [OF sz(2)]]
  show ?thesis
  proof (cases xs)
    case Nil
    then have h: "s_free_sliced_blocks (sbi s) = 0" "pick s (slices_of sz) xs = None"
      using ch by (simp_all add: sliced_chain_def)
    note G = grab_facts [OF mt pool _ g]
    have ne: "free_blocks (sbi s) \<noteq> {}" using room h by simp
    let ?u = "appended None nb sb' s"
    have bm: "bm_of ?u nb = 0xFFFFFFFE" using appended_bitmap [of nb None] by simp
    have run: "has_run (bm_of ?u nb) (slices_of sz)" by (simp only: bm fr)
    have gs: "get_consequitive_free_slices nb i sz (hold nb ?u) = (1, claim_run nb i 1 (slices_of sz) (hold nb ?u))"
      using get_slices_claim(1) [OF sz(2), of "hold nb ?u" nb i] fr bm by simp
    have "upd_sbi (\<lambda>sb. sb\<lparr>s_free_sliced_blocks := nb\<rparr>) (hold nb t) =
        hold nb (upd_sbi (\<lambda>sb. sb\<lparr>s_free_sliced_blocks := nb\<rparr>) t)" for t
      by (simp add: upd_sbi_def hold_def)
    moreover have "\<not> nb \<le> 0" using G(2) [OF ne] by (simp add: word_le_nat_alt unat_gt_0 not_le)
    ultimately have "write_small_new E fuel i iocb it s =
        write_small_finish E i nb 1 pos sz iocb it (claim_run nb i 1 (slices_of sz) (hold nb ?u))"
      unfolding write_small_new_def Let_def pos [symmetric] sz(1) [symmetric]
      using h(1) gs allocate_fresh [OF g G(2-4)] ne
      by (simp add: slice_search_found appended_def)
    then show ?thesis
      using h(2) G(1) [OF ne] bm fr(2) g Nil by (intro concl [OF _ run]) (simp_all add: placed_def)
  next
    case (Cons x rest)
    then have h: "s_free_sliced_blocks (sbi s) = x" "x \<noteq> 0" "bread_ok E x"
      "chain (cache s) (SLICED_BLOCK_SB_NEXT (cache s x)) rest" "\<forall>b\<in>set rest. bread_ok E b"
      using ch by (auto simp: sliced_chain_def)
    have new: "write_small_new E fuel i iocb it s =
      (case get_consequitive_free_slices x i sz (hold x s) of
         (sl, t) \<Rightarrow> (case slice_search E fuel i sz x sl t of
            Inl f \<Rightarrow> Inl f
          | Inr (Inl err, s) \<Rightarrow> Inr (err, iocb, it, s)
          | Inr (Inr (b, sl), s) \<Rightarrow> write_small_finish E i b sl pos sz iocb it s))"
      unfolding write_small_new_def Let_def pos [symmetric] sz(1) [symmetric]
      using h(1-3) by (simp add: sb_bread_hold)
    show ?thesis
    proof (cases "has_run (bm_of s x) (slices_of sz)")
      case True
      note gs = get_slices_claim [OF sz(2), of "hold x s" x]
      have "placed s xs (slices_of sz) x s" using True by (simp add: placed_def Cons)
      then show ?thesis
        using True new gs(1) [of i] gs(2) by (intro concl [OF _ True]) (simp_all add: slice_search_found)
    next
      case False
      then have gs: "get_consequitive_free_slices x i sz (hold x s) = (0, hold x s)"
        using get_slices_none [OF sz(2), of "hold x s" x i] by simp
      show ?thesis
      proof (cases "pick s (slices_of sz) rest")
        case (Some b)
        have p: "placed s xs (slices_of sz) b s" using Some False by (simp add: placed_def Cons)
        have run: "has_run (bm_of s b) (slices_of sz)" using pick_Some [OF Some] by simp
        have "slice_search E fuel i sz x 0 (hold x s) =
            Inr (Inr (b, of_nat (first_run (bm_of s b) (slices_of sz))),
              claim_run b i (first_run (bm_of s b) (slices_of sz)) (slices_of sz) (hold b s))"
          using slice_search_chain [OF h(4) _ h(5) sz(2) Some refl, of fuel i] fuel Cons by simp
        then show ?thesis using new gs by (intro concl [OF p run]) simp
      next
        case None
        have ne: "free_blocks (sbi s) \<noteq> {}" using room None False Cons by simp
        note G = grab_facts [OF mt pool ne g]
        have nx: "nb \<notin> set (x # rest)" using G(1) ch Cons by (auto simp: sliced_chain_def)
        let ?u = "appended (Some (last (x # rest))) nb sb' s"
        have "nb \<noteq> last (x # rest)" using nx by (metis last_in_set list.distinct(1))
        then have bm: "bm_of ?u nb = 0xFFFFFFFE" using appended_bitmap [of nb "Some (last (x # rest))"] by simp
        have run: "has_run (bm_of ?u nb) (slices_of sz)" by (simp only: bm fr)
        have p: "placed s xs (slices_of sz) nb ?u" using None False g G(1) by (simp add: placed_def Cons)
        have "slice_search E fuel i sz x 0 (hold x s) =
            Inr (Inr (nb, 1), claim_run nb i 1 (slices_of sz) (hold nb ?u))"
          using slice_search_fresh [OF h(4) _ h(5) sz(2) None nx g G(2-4), of fuel i] fuel Cons by simp
        then show ?thesis using new gs bm fr(2) by (intro concl [OF p run]) simp
      qed
    qed
  qed
qed

section \<open>Who owns which slice\<close>

definition occupies :: "inode \<Rightarrow> u32 \<Rightarrow> nat \<Rightarrow> bool" where
  "occupies nd b k \<longleftrightarrow>
     b = SMALL_FILE_GET_BNO nd \<and> unat (SMALL_FILE_GET_SLICE nd) \<le> k \<and>
     k < unat (SMALL_FILE_GET_SLICE nd) + unat (num_slices nd)"

definition small_node :: "u32 list \<Rightarrow> inode \<Rightarrow> bool" where
  "small_node xs nd \<longleftrightarrow>
     i_blocks nd = 0 \<and> 0 < i_size nd \<and> SMALL_FILE_GET_BNO nd \<in> set xs \<and>
     1 \<le> unat (SMALL_FILE_GET_SLICE nd) \<and>
     unat (SMALL_FILE_GET_SLICE nd) + unat (num_slices nd) \<le> 32 \<and>
     unat (num_slices nd) = slices_of (i_size nd)"

definition small_byte :: "fs \<Rightarrow> u32 \<Rightarrow> nat \<Rightarrow> u8" where
  "small_byte s i p =
     cache s (SMALL_FILE_GET_BNO (inodes s i)) (unat (SMALL_FILE_GET_SLICE (inodes s i)) * 128 + p)"

lemma slice_index: "m * 128 \<le> q \<Longrightarrow> q < (m + n) * 128 \<Longrightarrow> m \<le> q div 128 \<and> q div 128 < m + n" for q :: nat
  by (simp add: div_less_iff_less_mult less_eq_div_iff_mult_less_eq)

lemma small_occupies:
  assumes "small_node xs nd" and "p < i_size nd"
  shows "occupies nd (SMALL_FILE_GET_BNO nd) ((unat (SMALL_FILE_GET_SLICE nd) * 128 + p) div 128)"
proof -
  have "i_size nd \<le> slices_of (i_size nd) * 128" by (simp add: div_round_up_def)
  then show ?thesis
    using assms by (auto simp: small_node_def occupies_def div_less_iff_less_mult algebra_simps)
qed

text \<open>The bitmap of a sliced block has a bit set exactly for the slices no file occupies, and those
  slices hold zeroes.\<close>

definition bits_exact :: "fs \<Rightarrow> u32 set \<Rightarrow> u32 \<Rightarrow> bool" where
  "bits_exact s F b \<longleftrightarrow>
     (\<forall>k < 32. bit (bm_of s b) k \<longleftrightarrow> 1 \<le> k \<and> (\<forall>i \<in> F. \<not> occupies (inodes s i) b k))"

definition free_slices_zero :: "block \<Rightarrow> bool" where
  "free_slices_zero d \<longleftrightarrow>
     (\<forall>p. 128 \<le> p \<and> p < 4096 \<and> bit (SLICED_BLOCK_SB_BITMAP d) (p div 128) \<longrightarrow> d p = 0)"

definition slice_inv :: "env \<Rightarrow> fs \<Rightarrow> u32 list \<Rightarrow> u32 set \<Rightarrow> bool" where
  "slice_inv E s xs F \<longleftrightarrow>
     sliced_chain E s xs \<and> mounted E s \<and> free_zeroed s \<and> finite F \<and>
     (\<forall>i \<in> F. small_node xs (inodes s i)) \<and>
     (\<forall>i \<in> F. \<forall>i' \<in> F. \<forall>b k. occupies (inodes s i) b k \<and> occupies (inodes s i') b k \<longrightarrow> i = i') \<and>
     (\<forall>b \<in> set xs. bits_exact s F b \<and> free_slices_zero (cache s b)) \<and>
     nr_sliced_blocks (sbi s) = of_nat (length xs) \<and>
     nr_used_slices (sbi s) = of_nat (\<Sum>i \<in> F. unat (num_slices (inodes s i)))"

lemma small_node_mono: "small_node xs nd \<Longrightarrow> set xs \<subseteq> set ys \<Longrightarrow> small_node ys nd"
  by (auto simp: small_node_def)

lemma slice_invD:
  assumes "slice_inv E s xs F"
  shows "sliced_chain E s xs" and "mounted E s" and "free_zeroed s" and "finite F"
    and "i \<in> F \<Longrightarrow> small_node xs (inodes s i)"
    and "i \<in> F \<Longrightarrow> i' \<in> F \<Longrightarrow> occupies (inodes s i) b k \<Longrightarrow> occupies (inodes s i') b k \<Longrightarrow> i = i'"
    and "b \<in> set xs \<Longrightarrow> bits_exact s F b" and "b \<in> set xs \<Longrightarrow> free_slices_zero (cache s b)"
    and "nr_sliced_blocks (sbi s) = of_nat (length xs)"
    and "nr_used_slices (sbi s) = of_nat (\<Sum>i \<in> F. unat (num_slices (inodes s i)))"
    and "block_pool (sbi s)"
  using assms unfolding slice_inv_def sliced_chain_def by blast+

text \<open>A volume between two operations: moreover every block of the chain is in use.\<close>

definition small_vol :: "env \<Rightarrow> fs \<Rightarrow> u32 list \<Rightarrow> u32 set \<Rightarrow> bool" where
  "small_vol E s xs F \<longleftrightarrow>
     slice_inv E s xs F \<and> (\<forall>b \<in> set xs. \<exists>i \<in> F. SMALL_FILE_GET_BNO (inodes s i) = b)"

lemma chain_snoc:
  assumes "chain c h xs" and "distinct xs" and "xs \<noteq> []" and "nb \<notin> set xs" and "nb \<noteq> 0"
    and "SLICED_BLOCK_SB_NEXT (c nb) = 0"
    and "\<And>b. b \<in> set xs \<Longrightarrow> b \<noteq> last xs \<Longrightarrow> SLICED_BLOCK_SB_NEXT (c' b) = SLICED_BLOCK_SB_NEXT (c b)"
    and "SLICED_BLOCK_SB_NEXT (c' (last xs)) = nb" and "SLICED_BLOCK_SB_NEXT (c' nb) = 0"
  shows "chain c' h (xs @ [nb])"
  using assms
proof (induction xs arbitrary: h)
  case (Cons x xs)
  show ?case
  proof (cases "xs = []")
    case False
    then have "x \<noteq> last xs" using Cons.prems(2) last_in_set by force
    then have "SLICED_BLOCK_SB_NEXT (c' x) = SLICED_BLOCK_SB_NEXT (c x)"
      using Cons.prems(7) False by simp
    moreover have "chain c' (SLICED_BLOCK_SB_NEXT (c x)) (xs @ [nb])"
      using Cons.prems False by (intro Cons.IH) auto
    ultimately show ?thesis using Cons.prems(1) by simp
  qed (use Cons.prems in simp)
qed simp

abbreviation tail_of :: "u32 list \<Rightarrow> u32 option" where
  "tail_of xs \<equiv> (if xs = [] then None else Some (last xs))"

lemma appended_simps:
  assumes "nb \<notin> set_option prev"
  shows "cache (appended prev nb sb' s) c =
      (if c = nb then fresh_header (cache s nb)
       else if prev = Some c then SLICED_BLOCK_SB_SET_NEXT nb (cache s c) else cache s c)"
    and "sbi (appended prev nb sb' s) = sb'\<lparr>nr_sliced_blocks := nr_sliced_blocks sb' + 1,
      s_free_sliced_blocks := (if prev = None then nb else s_free_sliced_blocks sb')\<rparr>"
    and "inodes (appended prev nb sb' s) = inodes s" and "refs (appended prev nb sb' s) = refs s"
    and "coherent s \<Longrightarrow> c \<noteq> nb \<Longrightarrow> c \<notin> dirty (appended prev nb sb' s) \<Longrightarrow>
      cache (appended prev nb sb' s) c = disk (appended prev nb sb' s) c"
  using assms by (cases prev; auto simp: appended_def Let_def fs_defs coherent_def)+

lemma pool_fields [simp]:
  "block_pool (sb\<lparr>nr_sliced_blocks := x\<rparr>) = block_pool sb"
  "block_pool (sb\<lparr>s_free_sliced_blocks := y\<rparr>) = block_pool sb"
  "block_pool (sb\<lparr>nr_used_slices := y\<rparr>) = block_pool sb"
  "free_blocks (sb\<lparr>nr_sliced_blocks := x\<rparr>) = free_blocks sb"
  "free_blocks (sb\<lparr>s_free_sliced_blocks := y\<rparr>) = free_blocks sb"
  "free_blocks (sb\<lparr>nr_used_slices := y\<rparr>) = free_blocks sb"
  "block_univ (sb\<lparr>nr_sliced_blocks := x\<rparr>) = block_univ sb"
  "block_univ (sb\<lparr>s_free_sliced_blocks := y\<rparr>) = block_univ sb"
  "block_univ (sb\<lparr>nr_used_slices := y\<rparr>) = block_univ sb"
  by (simp_all add: block_pool_def free_blocks_def block_univ_def)

lemma appended_chain:
  assumes ch: "sliced_chain E s xs" and mt: "mounted E s" and fz: "free_zeroed s"
    and ne: "free_blocks (sbi s) \<noteq> {}" and g: "get_free_block (sbi s) = (nb, sb')"
    and prev: "prev = tail_of xs"
  shows "sliced_chain E (appended prev nb sb' s) (xs @ [nb])"
proof -
  have pool: "block_pool (sbi s)" using ch by (simp add: sliced_chain_def)
  note G = grab_facts [OF mt pool ne g]
  have nx: "nb \<notin> set xs" using ch G(1) by (auto simp: sliced_chain_def)
  then have nl: "nb \<notin> set_option prev" by (auto simp: prev split: if_splits)
  note A = appended_simps [OF nl]
  have z: "SLICED_BLOCK_SB_NEXT (cache s nb) = 0"
    using fz G(1) by (simp add: free_zeroed_def SLICED_BLOCK_SB_NEXT_def zeroed_get32)
  have "chain (cache (appended prev nb sb' s)) (s_free_sliced_blocks (sbi (appended prev nb sb' s))) (xs @ [nb])"
  proof (cases "xs = []")
    case True
    then show ?thesis using A(2) A(1) [where c = nb] z G(2) prev by simp
  next
    case False
    then have la: "last xs \<noteq> nb" and pr: "prev = Some (last xs)" using nx last_in_set prev by auto
    have C: "cache (appended prev nb sb' s) c = (if c = nb then fresh_header (cache s nb)
        else if c = last xs then SLICED_BLOCK_SB_SET_NEXT nb (cache s c) else cache s c)" for c
      using A(1) pr by auto
    have h: "s_free_sliced_blocks (sbi (appended prev nb sb' s)) = s_free_sliced_blocks (sbi s)"
      using A(2) pr G(12) by simp
    show ?thesis
      unfolding h using ch nx False z G(2) la
      by (intro chain_snoc [of "cache s"]) (auto simp: C sliced_chain_def)
  qed
  then show ?thesis
    using ch nx G by (auto simp: sliced_chain_def A(2))
qed

lemma fresh_slices_zero:
  assumes "zeroed d"
  shows "free_slices_zero (fresh_header d)"
  using assms by (auto simp: free_slices_zero_def zeroed_def)

lemma set_next_slices_zero: "free_slices_zero (SLICED_BLOCK_SB_SET_NEXT v d) = free_slices_zero d"
  by (auto simp: free_slices_zero_def)

lemma appended_inv:
  assumes inv: "slice_inv E s xs F" and ne: "free_blocks (sbi s) \<noteq> {}"
    and g: "get_free_block (sbi s) = (nb, sb')" and prev: "prev = tail_of xs"
  shows "slice_inv E (appended prev nb sb' s) (xs @ [nb]) F"
proof -
  have ch: "sliced_chain E s xs" and mt: "mounted E s" and fz: "free_zeroed s" and pool: "block_pool (sbi s)"
    using inv by (simp_all add: slice_inv_def sliced_chain_def)
  note G = grab_facts [OF mt pool ne g]
  have nx: "nb \<notin> set xs" using ch G(1) by (auto simp: sliced_chain_def)
  then have nl: "nb \<notin> set_option prev" by (auto simp: prev split: if_splits)
  note A = appended_simps [OF nl]
  let ?u = "appended prev nb sb' s"
  have bm: "bm_of ?u b = (if b = nb then 0xFFFFFFFE else bm_of s b)" for b
    by (simp add: A(1))
  have xsf: "b \<notin> free_blocks (sbi s)" if "b \<in> set xs" for b
    using ch that by (simp add: sliced_chain_def)
  have "b \<notin> free_blocks (sbi s)" if "prev = Some b" for b
    using that xsf by (auto simp: prev split: if_splits)
  then have "free_zeroed ?u"
    using fz G(7) by (auto simp: free_zeroed_def A(1,2))
  moreover have "mounted E ?u"
    using mt G(8,11) by (simp add: mounted_def io_ok_def A(2))
  moreover have "bits_exact ?u F nb" "free_slices_zero (cache ?u nb)"
  proof -
    have "\<not> occupies (inodes s i) nb k" if "i \<in> F" for i k
      using inv that nx by (auto simp: slice_inv_def small_node_def occupies_def)
    moreover have bmn: "bm_of ?u nb = 0xFFFFFFFE" by (simp only: bm simp_thms if_True)
    ultimately show "bits_exact ?u F nb" unfolding bits_exact_def bmn bit_all_free A(3) by auto
    show "free_slices_zero (cache ?u nb)"
      using fz G(1) fresh_slices_zero by (simp add: A(1) free_zeroed_def)
  qed
  moreover have "bits_exact ?u F b" "free_slices_zero (cache ?u b)" if "b \<in> set xs" for b
    using inv that nx by (auto simp: slice_inv_def bits_exact_def bm A(1,3) set_next_slices_zero)
  moreover have "nr_used_slices (sbi ?u) = nr_used_slices (sbi s)" "nr_sliced_blocks (sbi ?u) = of_nat (length (xs @ [nb]))"
    using inv G(10,13) by (simp_all add: A(2) slice_inv_def)
  moreover have "\<forall>i \<in> F. small_node (xs @ [nb]) (inodes s i)"
    by (intro ballI small_node_mono [OF slice_invD(5) [OF inv]]) auto
  ultimately show ?thesis
    using inv appended_chain [OF ch mt fz ne g prev] by (simp add: slice_inv_def A(3))
qed

text \<open>Storing the file in a run of free slices.\<close>

lemma bitmap_claim_bits [simp]:
  "SLICED_BLOCK_SB_BITMAP (claim_bits j n d) = SLICED_BLOCK_SB_BITMAP d AND NOT (run_mask j n)"
  by (simp add: claim_bits_def)

lemma claim_bits_payload [simp]: "8 \<le> k \<Longrightarrow> claim_bits j n d k = d k"
  by (simp add: claim_bits_def)

lemma header_memcpy:
  assumes "8 \<le> off"
  shows "SLICED_BLOCK_SB_BITMAP (memcpy d off bs) = SLICED_BLOCK_SB_BITMAP d"
    and "SLICED_BLOCK_SB_NEXT (memcpy d off bs) = SLICED_BLOCK_SB_NEXT d"
  using assms by (auto simp: SLICED_BLOCK_SB_BITMAP_def SLICED_BLOCK_SB_NEXT_def memcpy_def intro!: get_le_cong)

lemma next_claim_bits [simp]: "SLICED_BLOCK_SB_NEXT (claim_bits j n d) = SLICED_BLOCK_SB_NEXT d"
  by (simp add: claim_bits_def)

lemma bit_claimed:
  "j + n \<le> 32 \<Longrightarrow> k < 32 \<Longrightarrow>
    bit (bm AND NOT (run_mask j n) :: u32) k \<longleftrightarrow> bit bm k \<and> \<not> (j \<le> k \<and> k < j + n)"
  by (auto simp: bit_and_iff bit_not_iff bit_run_mask)

text \<open>The inode of the stored file.\<close>

definition stored_node :: "env \<Rightarrow> u32 \<Rightarrow> nat \<Rightarrow> nat \<Rightarrow> inode \<Rightarrow> inode" where
  "stored_node E b j sz nd =
     nd\<lparr>num_slices := of_nat (slices_of sz), i_size := sz, i_mtime := current_time E,
       i_ctime := current_time E, index_block := pack_slice b (of_nat j)\<rparr>"

lemma stored_node_fields:
  assumes "unat b < 2 ^ 27" and "j + slices_of sz \<le> 32" and "1 \<le> slices_of sz"
  shows "SMALL_FILE_GET_BNO (stored_node E b j sz nd) = b"
    and "unat (SMALL_FILE_GET_SLICE (stored_node E b j sz nd)) = j"
    and "unat (num_slices (stored_node E b j sz nd)) = slices_of sz"
    and "i_size (stored_node E b j sz nd) = sz" and "i_blocks (stored_node E b j sz nd) = i_blocks nd"
    and "occupies (stored_node E b j sz nd) c k \<longleftrightarrow> c = b \<and> j \<le> k \<and> k < j + slices_of sz"
proof -
  have j: "unat (of_nat j :: u32) = j" "j < 32" using assms(2,3) by (auto simp: unat_of_nat_u32)
  note r = pack_slice_roundtrip [OF assms(1), of "of_nat j"]
  show b: "SMALL_FILE_GET_BNO (stored_node E b j sz nd) = b"
    unfolding stored_node_def by (rule r) (use j in simp)
  have "SMALL_FILE_GET_SLICE (stored_node E b j sz nd) = of_nat j"
    unfolding stored_node_def by (rule r) (use j in simp)
  then show sl: "unat (SMALL_FILE_GET_SLICE (stored_node E b j sz nd)) = j" using j by simp
  show n: "unat (num_slices (stored_node E b j sz nd)) = slices_of sz"
    using assms(2) by (simp add: stored_node_def unat_of_nat)
  show "i_size (stored_node E b j sz nd) = sz" "i_blocks (stored_node E b j sz nd) = i_blocks nd"
    by (simp_all add: stored_node_def)
  show "occupies (stored_node E b j sz nd) c k \<longleftrightarrow> c = b \<and> j \<le> k \<and> k < j + slices_of sz"
    by (simp add: occupies_def b sl n)
qed

lemma small_stored_simps:
  "cache (small_stored E i b j pos sz bs u) c =
     (if c = b then memcpy (claim_bits j (slices_of sz) (cache u b)) (j * 128 + pos) bs else cache u c)"
  "sbi (small_stored E i b j pos sz bs u) =
     (sbi u)\<lparr>nr_used_slices := nr_used_slices (sbi u) + of_nat (slices_of sz)\<rparr>"
  "inodes (small_stored E i b j pos sz bs u) c =
     (if c = i then stored_node E b j sz (inodes u i) else inodes u c)"
  "refs (small_stored E i b j pos sz bs u) = refs u"
  "idirty (small_stored E i b j pos sz bs u) = insert i (idirty u)"
  by (simp_all add: small_stored_def Let_def stored_node_def)

lemma small_stored_zero:
  assumes "free_slices_zero d" and "1 \<le> j" and "j + n \<le> 32" and "pos + length bs \<le> n * 128"
  shows "free_slices_zero (memcpy (claim_bits j n d) (j * 128 + pos) bs)"
proof -
  have h: "SLICED_BLOCK_SB_BITMAP (memcpy (claim_bits j n d) (j * 128 + pos) bs) =
      SLICED_BLOCK_SB_BITMAP d AND NOT (run_mask j n)"
    using assms(2) by (simp add: header_memcpy)
  show ?thesis
    unfolding free_slices_zero_def h
  proof (intro allI impI)
    fix p assume p: "128 \<le> p \<and> p < 4096 \<and> bit (SLICED_BLOCK_SB_BITMAP d AND NOT (run_mask j n)) (p div 128)"
    then have "p div 128 < 32" by (auto simp: div_less_iff_less_mult)
    with p assms(3) have q: "bit (SLICED_BLOCK_SB_BITMAP d) (p div 128)" "\<not> (j \<le> p div 128 \<and> p div 128 < j + n)"
      using bit_claimed by blast+
    then have "p < j * 128 \<or> (j + n) * 128 \<le> p"
      using div_le_mono [of "j * 128" p 128] by (auto simp: div_less_iff_less_mult not_less)
    then have "\<not> (j * 128 + pos \<le> p \<and> p < j * 128 + pos + length bs)"
      using assms(4) by (auto simp: algebra_simps)
    moreover have "d p = 0" using assms(1) p q(1) by (simp add: free_slices_zero_def)
    ultimately show "memcpy (claim_bits j n d) (j * 128 + pos) bs p = 0"
      using p by (auto simp: memcpy_def)
  qed
qed

lemma small_stored_chain:
  assumes "sliced_chain E u xs" and "b \<in> set xs" and "1 \<le> j"
  shows "sliced_chain E (small_stored E i b j pos sz bs u) xs"
proof -
  have "SLICED_BLOCK_SB_NEXT (cache (small_stored E i b j pos sz bs u) c) = SLICED_BLOCK_SB_NEXT (cache u c)" for c
    using assms(3) by (simp add: small_stored_simps header_memcpy)
  then show ?thesis
    using assms chain_cong [of xs "cache (small_stored E i b j pos sz bs u)" "cache u"]
    by (simp add: sliced_chain_def small_stored_simps)
qed

lemma sum_slices_insert:
  fixes f g :: "u32 \<Rightarrow> inode"
  assumes "finite F" and "i \<notin> F" and "\<And>k. k \<noteq> i \<Longrightarrow> g k = f k"
  shows "(\<Sum>k \<in> insert i F. unat (num_slices (g k))) =
    unat (num_slices (g i)) + (\<Sum>k \<in> F. unat (num_slices (f k)))"
proof -
  have "(\<Sum>k \<in> F. unat (num_slices (g k))) = (\<Sum>k \<in> F. unat (num_slices (f k)))"
    using assms(2,3) by (intro sum.cong refl arg_cong [where f = "\<lambda>nd. unat (num_slices nd)"]) metis
  then show ?thesis using assms(1,2) by simp
qed

text \<open>What \<open>small_stored\<close> needs of the place it writes to.\<close>

definition good_run :: "fs \<Rightarrow> u32 list \<Rightarrow> u32 \<Rightarrow> nat \<Rightarrow> nat \<Rightarrow> bool" where
  "good_run u xs b j n \<longleftrightarrow>
     b \<in> set xs \<and> 1 \<le> j \<and> 1 \<le> n \<and> j + n \<le> 32 \<and> run_free (bm_of u b) j n"

lemma small_stored_bits:
  assumes inv: "slice_inv E u xs F" and i: "i \<notin> F" and r: "good_run u xs b j (slices_of sz)"
    and b: "unat b < 2 ^ 27" and c: "c \<in> set xs"
  shows "bits_exact (small_stored E i b j pos sz bs u) (insert i F) c"
proof -
  let ?s = "small_stored E i b j pos sz bs u"
  have r': "1 \<le> j" "1 \<le> slices_of sz" "j + slices_of sz \<le> 32" using r by (auto simp: good_run_def)
  note N = stored_node_fields [OF b r'(3,2)]
  have old: "inodes ?s k = inodes u k" if "k \<in> F" for k using that i by (auto simp: small_stored_simps)
  have bm: "bm_of ?s c = (if c = b then bm_of u b AND NOT (run_mask j (slices_of sz)) else bm_of u c)"
    using r'(1) by (simp add: small_stored_simps header_memcpy)
  have ex: "bits_exact u F c" using slice_invD(7) [OF inv c] .
  show ?thesis
    unfolding bits_exact_def
  proof (intro allI impI)
    fix k :: nat assume k: "k < 32"
    have "(\<forall>l \<in> insert i F. \<not> occupies (inodes ?s l) c k) \<longleftrightarrow>
        \<not> (c = b \<and> j \<le> k \<and> k < j + slices_of sz) \<and> (\<forall>l \<in> F. \<not> occupies (inodes u l) c k)"
      using old by (simp add: small_stored_simps(3) N(6))
    moreover have "bit (bm_of ?s c) k \<longleftrightarrow> bit (bm_of u c) k \<and> \<not> (c = b \<and> j \<le> k \<and> k < j + slices_of sz)"
      using bit_claimed [OF r'(3) k] by (simp add: bm)
    ultimately show "bit (bm_of ?s c) k \<longleftrightarrow> 1 \<le> k \<and> (\<forall>l \<in> insert i F. \<not> occupies (inodes ?s l) c k)"
      using ex k by (auto simp: bits_exact_def)
  qed
qed

lemma small_stored_inv:
  assumes inv: "slice_inv E u xs F" and i: "i \<notin> F" "i_blocks (inodes u i) = 0"
    and r: "good_run u xs b j (slices_of sz)" and sz: "0 < sz" and lim: "pos + length bs \<le> sz"
  shows "slice_inv E (small_stored E i b j pos sz bs u) xs (insert i F)"
proof -
  let ?s = "small_stored E i b j pos sz bs u"
  note I = slice_invD [OF inv]
  have r': "b \<in> set xs" "1 \<le> j" "1 \<le> slices_of sz" "j + slices_of sz \<le> 32" "run_free (bm_of u b) j (slices_of sz)"
    using r by (auto simp: good_run_def)
  have b: "unat b < 2 ^ 27" and bf: "b \<notin> free_blocks (sbi u)"
    using I(1,2) r'(1) by (auto simp: sliced_chain_def mounted_def block_univ_def word_less_nat_alt)
  note N = stored_node_fields [OF b r'(4,3)]
  have old: "inodes ?s k = inodes u k" if "k \<noteq> i" for k using that by (simp add: small_stored_simps)
  have new: "inodes ?s i = stored_node E b j sz (inodes u i)" by (simp add: small_stored_simps)
  have free: "\<not> occupies (inodes u l) b k" if "l \<in> F" "j \<le> k" "k < j + slices_of sz" for l k
    using I(7) [OF r'(1)] r'(4,5) that by (simp add: bits_exact_def run_free_def)
  have n: "pos + length bs \<le> slices_of sz * 128" using lim by (simp add: div_round_up_def)
  have nodes: "small_node xs (inodes ?s k)" if "k \<in> insert i F" for k
    using that I(5) [of k] old [of k] N r' i(2) sz by (cases "k = i") (auto simp: new small_node_def)
  have disj: "k = l" if "k \<in> insert i F" "l \<in> insert i F"
    "occupies (inodes ?s k) c m" "occupies (inodes ?s l) c m" for k l c m
    using that I(6) [of k l c m] old [of k] old [of l] free [of k m] free [of l m]
    by (cases "k = i"; cases "l = i") (auto simp: new N(6))
  have zero: "free_slices_zero (cache ?s c)" if "c \<in> set xs" for c
    using I(8) [OF that] small_stored_zero [OF _ r'(2,4) n] by (auto simp: small_stored_simps(1))
  have sum: "(\<Sum>k \<in> insert i F. unat (num_slices (inodes ?s k))) =
      slices_of sz + (\<Sum>k \<in> F. unat (num_slices (inodes u k)))"
    using sum_slices_insert [OF I(4) i(1), of "inodes ?s" "inodes u"] old N(3) new by simp
  have used: "nr_used_slices (sbi ?s) = of_nat (\<Sum>k \<in> insert i F. unat (num_slices (inodes ?s k)))"
    unfolding sum using I(10) by (simp add: small_stored_simps(2) add.commute)
  have fz: "free_zeroed ?s"
    using I(3) bf by (auto simp: free_zeroed_def small_stored_simps(1,2))
  show ?thesis
    unfolding slice_inv_def
    using small_stored_chain [OF I(1) r'(1,2)] I(2,4,9) nodes disj small_stored_bits [OF inv i(1) r b] zero used fz
    by (auto simp: mounted_def io_ok_def small_stored_simps(2))
qed

text \<open>The state after the search: the chain perhaps longer, nothing a file sees changed.\<close>

definition search_frame :: "fs \<Rightarrow> u32 list \<Rightarrow> u32 \<Rightarrow> fs \<Rightarrow> u32 list \<Rightarrow> bool" where
  "search_frame s xs b u xs' \<longleftrightarrow>
     (xs' = xs \<or> xs' = xs @ [b] \<and> b \<in> free_blocks (sbi s)) \<and> b \<in> set xs' \<and>
     inodes u = inodes s \<and> refs u = refs s \<and> free_blocks (sbi u) = free_blocks (sbi s) - set xs' \<and>
     inode_part (sbi u) = inode_part (sbi s) \<and> icached u = icached s \<and>
     (\<forall>c \<in> set xs. \<forall>k \<ge> 8. cache u c k = cache s c k) \<and>
     (\<forall>c. c \<notin> set xs \<and> c \<notin> free_blocks (sbi s) \<longrightarrow> cache u c = cache s c) \<and>
     (coherent s \<longrightarrow> (\<forall>c. c \<noteq> b \<and> c \<notin> dirty u \<longrightarrow> cache u c = disk u c))"

lemma placed_frame:
  assumes inv: "slice_inv E s xs F" and p: "placed s xs n b u"
  shows "\<exists>xs'. slice_inv E u xs' F \<and> search_frame s xs b u xs'"
proof (cases "pick s n xs")
  case None
  obtain sb' where g: "get_free_block (sbi s) = (b, sb')" and u: "u = appended (tail_of xs) b sb' s"
    and b: "b \<in> free_blocks (sbi s)"
    using p None by (cases "get_free_block (sbi s)") (auto simp: placed_def)
  note I = slice_invD [OF inv]
  have ne: "free_blocks (sbi s) \<noteq> {}" using b by auto
  note G = grab_facts [OF I(2,11) ne g]
  obtain prev where prev: "prev = tail_of xs" by blast
  have bx: "b \<notin> set xs" using b I(1) by (auto simp: sliced_chain_def)
  then have nl: "b \<notin> set_option prev" by (auto simp: prev split: if_splits)
  have u': "u = appended prev b sb' s" by (simp only: u prev)
  note A = appended_simps [OF nl, where sb' = sb' and s = s, folded u']
  have pr: "c \<in> set xs" if "prev = Some c" for c using that by (auto simp: prev split: if_splits)
  have "coherent s \<longrightarrow> (\<forall>c. c \<noteq> b \<and> c \<notin> dirty u \<longrightarrow> cache u c = disk u c)" using A(5) by blast
  moreover have "\<forall>c \<in> set xs. \<forall>k \<ge> 8. cache u c k = cache s c k" using bx by (auto simp: A(1))
  moreover have "\<forall>c. c \<notin> set xs \<and> c \<notin> free_blocks (sbi s) \<longrightarrow> cache u c = cache s c"
    using b pr by (auto simp: A(1))
  moreover have "free_blocks (sbi u) = free_blocks (sbi s) - set (xs @ [b])"
    using G(7) I(1) by (auto simp: A(2) sliced_chain_def)
  moreover have "inode_part (sbi u) = inode_part (sbi s)" "icached u = icached s"
    using inode_part_get_free_block [of "sbi s"] g by (auto simp: A(2) u' appended_def Let_def fs_defs split: option.splits)
  ultimately have "search_frame s xs b u (xs @ [b])"
    using b by (simp add: search_frame_def A(3,4))
  then show ?thesis
    using appended_inv [OF inv ne g prev] u' by blast
next
  case (Some b')
  then have "b = b'" "u = s" using p by (auto simp: placed_def)
  moreover have "free_blocks (sbi s) = free_blocks (sbi s) - set xs"
    using slice_invD(1) [OF inv] by (auto simp: sliced_chain_def)
  ultimately show ?thesis
    using inv pick_Some [OF Some] by (auto simp: search_frame_def coherent_def intro!: exI [of _ xs])
qed

lemma small_bytes_kept:
  assumes inv: "slice_inv E u xs F" and l: "l \<in> F" "l \<noteq> i" and r: "good_run u xs b j n"
    and n: "pos + length bs \<le> n * 128" "n = slices_of sz" and p: "p < i_size (inodes u l)"
  shows "small_byte (small_stored E i b j pos sz bs u) l p = small_byte u l p"
proof -
  note I = slice_invD [OF inv]
  let ?nd = "inodes u l"
  let ?m = "unat (SMALL_FILE_GET_SLICE ?nd)"
  have nd: "1 \<le> ?m" "?m + unat (num_slices ?nd) \<le> 32" "unat (num_slices ?nd) = slices_of (i_size ?nd)"
    using I(5) [OF l(1)] by (auto simp: small_node_def)
  have r': "b \<in> set xs" "j + n \<le> 32" "run_free (bm_of u b) j n" "1 \<le> j" using r by (auto simp: good_run_def)
  have "i_size ?nd \<le> slices_of (i_size ?nd) * 128" by (simp add: div_round_up_def)
  then have pn: "p < unat (num_slices ?nd) * 128" using p nd(3) by simp
  define q where "q = ?m * 128 + p"
  have q: "?m \<le> q div 128" "q div 128 < ?m + unat (num_slices ?nd)" "128 \<le> q"
    using nd(1) pn by (auto simp: q_def div_less_iff_less_mult algebra_simps)
  have "\<not> (j * 128 + pos \<le> q \<and> q < j * 128 + pos + length bs)" if "SMALL_FILE_GET_BNO ?nd = b"
  proof
    assume "j * 128 + pos \<le> q \<and> q < j * 128 + pos + length bs"
    then have "j \<le> q div 128" "q div 128 < j + n"
      using n(1) by (auto simp: div_less_iff_less_mult less_eq_div_iff_mult_less_eq)
    then have "bit (bm_of u b) (q div 128)" "q div 128 < 32" using r'(2,3) by (auto simp: run_free_def)
    then have "\<not> occupies ?nd b (q div 128)"
      using I(7) [OF r'(1)] l(1) by (auto simp: bits_exact_def)
    then show False using q that by (simp add: occupies_def)
  qed
  then have "cache (small_stored E i b j pos sz bs u) (SMALL_FILE_GET_BNO ?nd) q = cache u (SMALL_FILE_GET_BNO ?nd) q"
    using q(3) by (auto simp: small_stored_simps(1) memcpy_def)
  then show ?thesis
    using l(2) by (simp add: small_byte_def small_stored_simps(3) q_def)
qed

lemma small_bytes_new:
  assumes inv: "slice_inv E u xs F" and r: "good_run u xs b j (slices_of sz)" and lim: "pos + length bs \<le> sz"
    and p: "p < pos + length bs"
  shows "small_byte (small_stored E i b j pos sz bs u) i p = (if p < pos then 0 else bs ! (p - pos))"
proof -
  note I = slice_invD [OF inv]
  have r': "b \<in> set xs" "1 \<le> j" "1 \<le> slices_of sz" "j + slices_of sz \<le> 32" "run_free (bm_of u b) j (slices_of sz)"
    using r by (auto simp: good_run_def)
  have b: "unat b < 2 ^ 27"
    using I(1,2) r'(1) by (auto simp: sliced_chain_def mounted_def block_univ_def word_less_nat_alt)
  note N = stored_node_fields [OF b r'(4,3)]
  have "sz \<le> slices_of sz * 128" by (simp add: div_round_up_def)
  then have "(j * 128 + p) div 128 < j + slices_of sz" "j \<le> (j * 128 + p) div 128"
    using p lim by (auto simp: div_less_iff_less_mult algebra_simps)
  then have "bit (bm_of u b) ((j * 128 + p) div 128)" "(j * 128 + p) div 128 < 32"
    using r'(4,5) by (auto simp: run_free_def)
  moreover have "128 \<le> j * 128 + p" "j * 128 + p < 4096"
    using r'(2) calculation(2) by (auto simp: div_less_iff_less_mult)
  ultimately have "cache u b (j * 128 + p) = 0"
    using I(8) [OF r'(1)] by (simp add: free_slices_zero_def)
  then show ?thesis
    using p r'(2) by (auto simp: small_byte_def small_stored_simps(1,3) N memcpy_def)
qed

lemma small_stored_coherent:
  assumes "\<forall>c. c \<noteq> b \<and> c \<notin> dirty u \<longrightarrow> cache u c = disk u c"
  shows "coherent (small_stored E i b j pos sz bs u)"
  using assms by (auto simp: coherent_def small_stored_def Let_def)

section \<open>Creating a small file\<close>

definition small_created :: "env \<Rightarrow> u32 \<Rightarrow> nat \<Rightarrow> u8 list \<Rightarrow> fs \<Rightarrow> u32 list \<Rightarrow> u32 set \<Rightarrow> fs \<Rightarrow> bool" where
  "small_created E i pos bs s xs F s' \<longleftrightarrow>
     (\<exists>xs'. (xs' = xs \<or> (\<exists>nb \<in> free_blocks (sbi s). xs' = xs @ [nb])) \<and> small_vol E s' xs' (insert i F) \<and>
        free_blocks (sbi s') = free_blocks (sbi s) - set xs') \<and>
     i_size (inodes s' i) = pos + length bs \<and> i \<in> idirty s' \<and>
     (\<forall>p < pos + length bs. small_byte s' i p = (if p < pos then 0 else bs ! (p - pos))) \<and>
     (\<forall>l \<in> F. \<forall>p < i_size (inodes s l). small_byte s' l p = small_byte s l p) \<and>
     (\<forall>l. l \<noteq> i \<longrightarrow> inodes s' l = inodes s l) \<and> refs s' = refs s \<and>
     i_mode (inodes s' i) = i_mode (inodes s i) \<and> inode_part (sbi s') = inode_part (sbi s) \<and> icached s' = icached s \<and>
     (\<forall>c. c \<notin> set xs \<and> c \<notin> free_blocks (sbi s) \<longrightarrow> cache s' c = cache s c) \<and>
     (coherent s \<longrightarrow> coherent s')"

lemma good_first_run:
  "has_run (bm_of u b) n \<Longrightarrow> b \<in> set xs \<Longrightarrow> 1 \<le> n \<Longrightarrow> good_run u xs b (first_run (bm_of u b) n) n"
  using first_run_props by (simp add: good_run_def)

lemma small_stored_created:
  assumes vol: "small_vol E s xs F" and i: "i \<notin> F" "i_blocks (inodes s i) = 0"
    and inv: "slice_inv E u xs' F" and fr: "search_frame s xs b u xs'"
    and r: "good_run u xs' b j (slices_of (pos + length bs))" and bs: "bs \<noteq> []"
  shows "small_created E i pos bs s xs F (small_stored E i b j pos (pos + length bs) bs u)"
    (is "small_created _ _ _ _ _ _ _ ?s")
proof -
  note fr' = fr [unfolded search_frame_def]
  note S = small_stored_simps
  have same: "inodes u = inodes s" "refs u = refs s" and bx: "b \<in> set xs'"
    and xs': "xs' = xs \<or> xs' = xs @ [b] \<and> b \<in> free_blocks (sbi s)" using fr' by auto
  have inv': "slice_inv E ?s xs' (insert i F)"
    using small_stored_inv [OF inv i(1) _ r] i(2) bs same(1) by simp
  have b: "unat b < 2 ^ 27"
    using slice_invD(1,2) [OF inv] bx by (auto simp: sliced_chain_def mounted_def block_univ_def word_less_nat_alt)
  have r': "j + slices_of (pos + length bs) \<le> 32" "1 \<le> slices_of (pos + length bs)"
    using r by (auto simp: good_run_def)
  note N = stored_node_fields [OF b r']
  have used: "\<exists>l \<in> insert i F. SMALL_FILE_GET_BNO (inodes ?s l) = c" if "c \<in> set xs'" for c
  proof (cases "c = b")
    case True
    then show ?thesis using N(1) by (simp add: S(3))
  next
    case False
    then have "c \<in> set xs" using that xs' by auto
    then obtain l where "l \<in> F" "SMALL_FILE_GET_BNO (inodes s l) = c" using vol by (auto simp: small_vol_def)
    then show ?thesis using i(1) same(1) by (intro bexI [of _ l]) (auto simp: S(3))
  qed
  have kept: "small_byte ?s l p = small_byte s l p" if "l \<in> F" "p < i_size (inodes s l)" for l p
  proof -
    have nd: "small_node xs (inodes s l)" using vol that(1) by (simp add: small_vol_def slice_inv_def)
    have "small_byte ?s l p = small_byte u l p"
      using that same(1) i(1) by (intro small_bytes_kept [OF inv that(1) _ r]) (auto simp: div_round_up_def)
    also have "\<dots> = small_byte s l p"
      using nd fr' by (simp add: small_byte_def same(1) small_node_def)
    finally show ?thesis .
  qed
  have new: "small_byte ?s i p = (if p < pos then 0 else bs ! (p - pos))" if "p < pos + length bs" for p
    using small_bytes_new [OF inv r _ that] by simp
  have frame: "cache ?s c = cache s c" if "c \<notin> set xs" "c \<notin> free_blocks (sbi s)" for c
    using fr' bx xs' that by (auto simp: S(1))
  have coh: "coherent s \<longrightarrow> coherent ?s" using small_stored_coherent fr' by blast
  have vol': "small_vol E ?s xs' (insert i F)" using inv' used by (simp add: small_vol_def)
  have fb: "free_blocks (sbi ?s) = free_blocks (sbi s) - set xs'" using fr' by (simp add: S(2))
  have idx: "inodes ?s l = inodes s l" if "l \<noteq> i" for l using that by (simp add: S(3) same(1))
  have id: "i_size (inodes ?s i) = pos + length bs" "i \<in> idirty ?s" "refs ?s = refs s"
    "i_mode (inodes ?s i) = i_mode (inodes s i)" "inode_part (sbi ?s) = inode_part (sbi s)" "icached ?s = icached s"
    using N(4) same fr' by (simp_all add: S stored_node_def) (simp add: small_stored_def Let_def)
  show ?thesis
    unfolding small_created_def using xs' vol' new kept frame coh fb idx id by blast
qed

lemma custom_write_iter_small_new:
  assumes vol: "small_vol E s xs F" and i: "i \<notin> F"
    and new: "index_block (inodes s i) = 0" "i_blocks (inodes s i) = 0" "i_size (inodes s i) = 0"
    and bs: "length (it_bytes it) = it_count it" "0 < it_count it"
    and pos: "\<not> ki_append iocb" "ki_pos iocb + it_count it \<le> 3968"
    and room: "pick s (slices_of (ki_pos iocb + it_count it)) xs \<noteq> None \<or> free_blocks (sbi s) \<noteq> {}"
    and fuel: "Suc (length xs) \<le> fuel"
  shows "\<exists>it' s'. custom_write_iter E fuel i iocb it s = Inr (int (it_count it), iocb, it', s') \<and>
    small_created E i (ki_pos iocb) (it_bytes it) s xs F s'"
proof -
  have inv: "slice_inv E s xs F" using vol by (simp add: small_vol_def)
  note I = slice_invD [OF inv]
  let ?sz = "ki_pos iocb + it_count it"
  have h: "custom_write_iter E fuel i iocb it s = write_small_new E fuel i iocb it s"
    using new pos by (simp add: custom_write_iter_def is_new_def will_be_small_def write_small_file_def Let_def)
  obtain b u it' where p: "placed s xs (slices_of ?sz) b u" and run: "has_run (bm_of u b) (slices_of ?sz)"
    and w: "write_small_new E fuel i iocb it s = Inr (int (it_count it), iocb\<lparr>ki_pos := ki_pos iocb\<rparr>, it',
      small_stored E i b (first_run (bm_of u b) (slices_of ?sz)) (ki_pos iocb) ?sz (it_bytes it) u)"
    using write_small_new_placed [OF I(1) fuel I(2), of "ki_pos iocb" iocb i ?sz it] new pos bs room by auto
  obtain xs' where x: "slice_inv E u xs' F" "search_frame s xs b u xs'" using placed_frame [OF inv p] by blast
  have g: "good_run u xs' b (first_run (bm_of u b) (slices_of ?sz)) (slices_of ?sz)"
    using good_first_run [OF run] x(2) slices_of_bounds(2) [of ?sz] bs(2) by (simp add: search_frame_def)
  have "it_bytes it \<noteq> []" using bs by auto
  then have "small_created E i (ki_pos iocb) (it_bytes it) s xs F
      (small_stored E i b (first_run (bm_of u b) (slices_of ?sz)) (ki_pos iocb) ?sz (it_bytes it) u)"
    using small_stored_created [OF vol i new(2) x, of _ "ki_pos iocb" "it_bytes it"] g bs by auto
  then show ?thesis using h w by simp
qed

section \<open>Deleting a small file\<close>

lemma clear_run_slices_zero:
  assumes "free_slices_zero d" and "1 \<le> j" and "j + n \<le> 32"
  shows "free_slices_zero (clear_run d j n)"
  unfolding free_slices_zero_def clear_run_bitmap [OF assms(2)]
proof (intro allI impI)
  fix p assume p: "128 \<le> p \<and> p < 4096 \<and> bit (SLICED_BLOCK_SB_BITMAP d OR run_mask j n) (p div 128)"
  show "clear_run d j n p = 0"
  proof (cases "j \<le> p div 128 \<and> p div 128 < j + n")
    case True
    then have "j * 128 \<le> p \<and> p < (j + n) * 128"
      by (auto simp: div_less_iff_less_mult less_eq_div_iff_mult_less_eq)
    then show ?thesis using p by (simp add: clear_run_payload)
  next
    case False
    then have "bit (SLICED_BLOCK_SB_BITMAP d) (p div 128)" using p by (auto simp: bit_or_iff bit_run_mask)
    then have "d p = 0" using p assms(1) by (simp add: free_slices_zero_def)
    then show ?thesis using p by (simp add: clear_run_payload)
  qed
qed

lemma run_cleared_simps:
  "cache (run_cleared b j n s) c = (if c = b then clear_run (cache s b) j n else cache s c)"
  "sbi (run_cleared b j n s) = (sbi s)\<lparr>nr_used_slices := nr_used_slices (sbi s) - of_nat n\<rparr>"
  "inodes (run_cleared b j n s) = inodes s"
  "refs (run_cleared b j n s) = refs s"
  by (simp_all add: run_cleared_def)

lemma run_cleared_coherent: "coherent s \<Longrightarrow> coherent (run_cleared b j n s)"
  by (auto simp: coherent_def run_cleared_def)

lemma run_cleared_inv:
  assumes inv: "slice_inv E s xs F" and i: "i \<in> F"
    and nd: "b = SMALL_FILE_GET_BNO (inodes s i)" "j = unat (SMALL_FILE_GET_SLICE (inodes s i))"
      "n = unat (num_slices (inodes s i))"
  shows "slice_inv E (run_cleared b j n s) xs (F - {i})"
proof -
  let ?v = "run_cleared b j n s"
  note I = slice_invD [OF inv]
  note S = run_cleared_simps
  have r: "b \<in> set xs" "1 \<le> j" "j + n \<le> 32" using I(5) [OF i] nd by (auto simp: small_node_def)
  have bf: "b \<notin> free_blocks (sbi s)" using I(1) r(1) by (auto simp: sliced_chain_def)
  have "SLICED_BLOCK_SB_NEXT (cache ?v c) = SLICED_BLOCK_SB_NEXT (cache s c)" for c
    by (simp add: S(1) clear_run_next [OF r(2)])
  then have chain: "sliced_chain E ?v xs"
    using I(1) chain_cong [of xs "cache ?v" "cache s"] by (simp add: sliced_chain_def S(2))
  have bits: "bits_exact ?v (F - {i}) c" if c: "c \<in> set xs" for c
    unfolding bits_exact_def
  proof (intro allI impI)
    fix k :: nat assume k: "k < 32"
    have ex: "bit (bm_of s c) k \<longleftrightarrow> 1 \<le> k \<and> (\<forall>l \<in> F. \<not> occupies (inodes s l) c k)"
      using I(7) [OF c] k by (simp add: bits_exact_def)
    have own: "occupies (inodes s i) c k \<longleftrightarrow> c = b \<and> j \<le> k \<and> k < j + n" by (simp add: occupies_def nd)
    have "bit (bm_of ?v c) k \<longleftrightarrow> bit (bm_of s c) k \<or> occupies (inodes s i) c k"
      using k by (simp add: S(1) clear_run_bitmap [OF r(2)] bit_or_iff bit_run_mask own)
    also have "\<dots> \<longleftrightarrow> 1 \<le> k \<and> (\<forall>l \<in> F - {i}. \<not> occupies (inodes s l) c k)"
      using ex own r(2) i I(6) [OF i, of _ c k] by auto
    finally show "bit (bm_of ?v c) k \<longleftrightarrow> 1 \<le> k \<and> (\<forall>l \<in> F - {i}. \<not> occupies (inodes ?v l) c k)"
      by (simp add: S(3))
  qed
  have zero: "free_slices_zero (cache ?v c)" if "c \<in> set xs" for c
    using I(8) [OF that] clear_run_slices_zero [OF _ r(2,3)] by (auto simp: S(1))
  have "(\<Sum>l \<in> F. unat (num_slices (inodes s l))) = n + (\<Sum>l \<in> F - {i}. unat (num_slices (inodes s l)))"
    using I(4) i nd(3) by (simp add: sum.remove)
  then have used: "nr_used_slices (sbi ?v) = of_nat (\<Sum>l \<in> F - {i}. unat (num_slices (inodes ?v l)))"
    using I(10) by (simp only: S(2,3)) simp
  have fz: "free_zeroed ?v" using I(3) bf by (auto simp: free_zeroed_def S(1,2))
  show ?thesis
    unfolding slice_inv_def
    using chain I(2,4,9) fz used bits zero I(5,6) by (auto simp: mounted_def io_ok_def S(2,3))
qed

text \<open>A sliced block is empty exactly when no file has a slice in it.\<close>

lemma all_free_iff:
  assumes inv: "slice_inv E v xs F" and c: "c \<in> set xs"
  shows "BITMAP_IS_ALL_FREE (cache v c) \<longleftrightarrow> (\<forall>l \<in> F. SMALL_FILE_GET_BNO (inodes v l) \<noteq> c)"
proof -
  note I = slice_invD [OF inv]
  have ex: "bit (bm_of v c) k \<longleftrightarrow> 1 \<le> k \<and> (\<forall>l \<in> F. \<not> occupies (inodes v l) c k)" if "k < 32" for k
    using I(7) [OF c] that by (simp add: bits_exact_def)
  have "BITMAP_IS_ALL_FREE (cache v c) \<longleftrightarrow> (\<forall>k < 32. bit (bm_of v c) k \<longleftrightarrow> bit (0xFFFFFFFE :: u32) k)"
    unfolding BITMAP_IS_ALL_FREE_def using bit_word_eqI [of "bm_of v c" "0xFFFFFFFE"] by fastforce
  also have "\<dots> \<longleftrightarrow> (\<forall>k < 32. \<forall>l \<in> F. \<not> occupies (inodes v l) c k)"
  proof -
    have "\<not> occupies (inodes v l) c 0" if "l \<in> F" for l
      using I(5) [OF that] by (auto simp: small_node_def occupies_def)
    then show ?thesis unfolding bit_all_free using ex by (metis One_nat_def Suc_leI gr0I)
  qed
  also have "\<dots> \<longleftrightarrow> (\<forall>l \<in> F. SMALL_FILE_GET_BNO (inodes v l) \<noteq> c)"
  proof -
    have "occupies (inodes v l) c (unat (SMALL_FILE_GET_SLICE (inodes v l)))"
      "unat (SMALL_FILE_GET_SLICE (inodes v l)) < 32"
      if "l \<in> F" "SMALL_FILE_GET_BNO (inodes v l) = c" for l
      using I(5) [OF that(1)] that(2) slices_of_bounds(2) [of "i_size (inodes v l)"]
      by (auto simp: small_node_def occupies_def)
    then show ?thesis by (metis occupies_def)
  qed
  finally show ?thesis .
qed

lemma same_but_next_zero:
  assumes "same_but_next d d'"
  shows "free_slices_zero d = free_slices_zero d'"
proof -
  have "d p = d' p" if "128 \<le> p" for p using assms that by (simp add: same_but_next_def)
  then show ?thesis unfolding free_slices_zero_def same_but_next_bitmap [OF assms] by metis
qed

lemma reaped_vol:
  assumes inv: "slice_inv E v xs F" and R: "reaped xs None v s'"
  shows "small_vol E s' (kept_blocks v xs) F"
proof -
  note I = slice_invD [OF inv]
  have ch: "distinct xs" "\<forall>b \<in> set xs. bread_ok E b \<and> b \<in> block_univ (sbi v) \<and> b \<notin> free_blocks (sbi v)"
    using I(1) by (auto simp: sliced_chain_def)
  have chain: "sliced_chain E s' (kept_blocks v xs)" by (rule reaped_None_chain [OF R ch])
  have nds: "inodes s' = inodes v" and nb: "nr_blocks (sbi s') = nr_blocks (sbi v)"
    and used: "nr_used_slices (sbi s') = nr_used_slices (sbi v)"
    and fb: "free_blocks (sbi s') = free_blocks (sbi v) \<union> set (empty_blocks v xs)"
    and ns: "nr_sliced_blocks (sbi s') = nr_sliced_blocks (sbi v) - of_nat (length (empty_blocks v xs))"
    and ez: "\<forall>b \<in> set (empty_blocks v xs). zeroed (cache s' b)"
    and kp: "\<forall>b \<in> set (kept_blocks v xs). same_but_next (cache v b) (cache s' b)"
    and out: "\<forall>b. b \<notin> set xs \<longrightarrow> cache s' b = cache v b"
    using R by (simp_all add: reaped_def)
  have "length (kept_blocks v xs) + length (empty_blocks v xs) = length xs"
    unfolding kept_blocks_def empty_blocks_def by (simp add: sum_length_filter_compl add.commute)
  then have "of_nat (length xs) - of_nat (length (empty_blocks v xs)) = (of_nat (length (kept_blocks v xs)) :: u32)"
    by (metis add_diff_cancel_right' of_nat_add)
  then have len: "nr_sliced_blocks (sbi s') = of_nat (length (kept_blocks v xs))" using ns I(9) by simp
  have keep: "c \<in> set (kept_blocks v xs) \<longleftrightarrow> c \<in> set xs \<and> (\<exists>l \<in> F. SMALL_FILE_GET_BNO (inodes v l) = c)" for c
    using all_free_iff [OF inv] by (auto simp: kept_blocks_def)
  have nodes: "small_node (kept_blocks v xs) (inodes s' l)" if "l \<in> F" for l
    using I(5) [OF that] that by (auto simp: nds small_node_def keep)
  have fz: "free_zeroed s'"
    using I(3) ez out ch(2) by (auto simp: free_zeroed_def fb)
  have cells: "bits_exact s' F c" "free_slices_zero (cache s' c)" if "c \<in> set (kept_blocks v xs)" for c
  proof -
    have sb: "same_but_next (cache v c) (cache s' c)" and c: "c \<in> set xs" using kp that keep by auto
    show "bits_exact s' F c" using I(7) [OF c] same_but_next_bitmap [OF sb] by (simp add: bits_exact_def nds)
    show "free_slices_zero (cache s' c)" using I(8) [OF c] same_but_next_zero [OF sb] by simp
  qed
  have mt: "mounted E s'" using I(2) nb by (simp add: mounted_def io_ok_def block_univ_def)
  have disj: "l = l'" if "l \<in> F" "l' \<in> F" "occupies (inodes s' l) b k" "occupies (inodes s' l') b k" for l l' b k
    using I(6) [OF that(1,2)] that(3,4) nds by auto
  have us: "nr_used_slices (sbi s') = of_nat (\<Sum>l \<in> F. unat (num_slices (inodes s' l)))"
    using used I(10) nds by simp
  have al: "\<exists>l \<in> F. SMALL_FILE_GET_BNO (inodes s' l) = b" if "b \<in> set (kept_blocks v xs)" for b
    using that keep nds by auto
  show ?thesis
    unfolding small_vol_def slice_inv_def using chain mt fz I(4) nodes disj cells len us al by blast
qed

definition small_deleted :: "env \<Rightarrow> u32 \<Rightarrow> fs \<Rightarrow> u32 list \<Rightarrow> u32 set \<Rightarrow> fs \<Rightarrow> bool" where
  "small_deleted E i s xs F s' \<longleftrightarrow>
     (\<exists>xs'. set xs' \<subseteq> set xs \<and> small_vol E s' xs' (F - {i}) \<and>
        free_blocks (sbi s') = free_blocks (sbi s) \<union> (set xs - set xs')) \<and>
     index_block (inodes s' i) = 0 \<and> i_size (inodes s' i) = 0 \<and> i \<in> idirty s' \<and>
     (\<forall>l \<in> F - {i}. \<forall>p < i_size (inodes s l). small_byte s' l p = small_byte s l p) \<and>
     (\<forall>l. l \<noteq> i \<longrightarrow> inodes s' l = inodes s l) \<and> refs s' = refs s \<and>
     (\<forall>c. c \<notin> set xs \<longrightarrow> cache s' c = cache s c) \<and>
     (coherent s \<longrightarrow> coherent s')"

lemma small_vol_inode:
  assumes "small_vol E s xs F" and "i \<notin> F"
  shows "small_vol E (mark_inode_dirty i (upd_inode i f s)) xs F"
proof -
  let ?t = "mark_inode_dirty i (upd_inode i f s)"
  have t: "sbi ?t = sbi s" "cache ?t = cache s" "\<And>l. l \<in> F \<Longrightarrow> inodes ?t l = inodes s l"
    using assms(2) by (auto simp: fs_defs)
  have "sliced_chain E ?t xs = sliced_chain E s xs" "mounted E ?t = mounted E s" "free_zeroed ?t = free_zeroed s"
    by (simp_all add: sliced_chain_def mounted_def io_ok_def free_zeroed_def t(1,2))
  moreover have "bits_exact ?t F b = bits_exact s F b" for b by (simp add: bits_exact_def t(2,3))
  moreover have "(\<Sum>l \<in> F. unat (num_slices (inodes ?t l))) = (\<Sum>l \<in> F. unat (num_slices (inodes s l)))"
    by (intro sum.cong) (simp_all add: t(3))
  ultimately show ?thesis
    using assms(1) unfolding small_vol_def slice_inv_def t(1,2) by (simp add: t(3))
qed

lemma delete_slice_vol:
  assumes vol: "small_vol E s xs F" and i: "i \<in> F" and fuel: "length xs \<le> fuel"
    and b: "b = SMALL_FILE_GET_BNO (inodes s i)" and sl: "sl = SMALL_FILE_GET_SLICE (inodes s i)"
    and n: "n = ucast (num_slices (inodes s i))"
  shows "\<exists>s'. delete_slice E fuel b sl n s = Inr (0, s') \<and>
    slice_inv E (run_cleared b (unat sl) (unat n) s) xs (F - {i}) \<and>
    reaped xs None (run_cleared b (unat sl) (unat n) s) s'"
proof -
  have inv: "slice_inv E s xs F" using vol by (simp add: small_vol_def)
  note I = slice_invD [OF inv]
  have un: "unat n = unat (num_slices (inodes s i))"
    unfolding n by (rule unat_ucast_16_32)
  have nd: "b \<in> set xs" "1 \<le> unat sl" "unat sl + unat n \<le> 32" "1 \<le> unat n"
    using I(5) [OF i] slices_of_bounds(2) [of "i_size (inodes s i)"] by (auto simp: small_node_def b sl un)
  have "n \<noteq> 0" using nd(4) by auto
  moreover have "unat sl \<noteq> 0" using nd(2) by simp
  ultimately obtain s' where "delete_slice E fuel b sl n s = Inr (0, s')"
      "reaped xs None (run_cleared b (unat sl) (unat n) s) s'"
    using delete_slice_reaped [OF I(1) nd(1) _ _ nd(3) fuel] by blast
  moreover have "slice_inv E (run_cleared b (unat sl) (unat n) s) xs (F - {i})"
    using run_cleared_inv [OF inv i] b sl un by simp
  ultimately show ?thesis by blast
qed

lemma reaped_bytes:
  assumes inv: "slice_inv E s xs F" and i: "i \<in> F" and l: "l \<in> F" "l \<noteq> i"
    and v: "v = run_cleared (SMALL_FILE_GET_BNO (inodes s i)) (unat (SMALL_FILE_GET_SLICE (inodes s i)))
      (unat (num_slices (inodes s i))) s"
    and R: "reaped xs None v s'" and p: "p < i_size (inodes s l)"
  shows "small_byte s' l p = small_byte s l p"
proof -
  note I = slice_invD [OF inv]
  have inv': "slice_inv E v xs (F - {i})" using run_cleared_inv [OF inv i] v by simp
  let ?nd = "inodes s l"
  let ?m = "unat (SMALL_FILE_GET_SLICE ?nd)"
  have nd: "1 \<le> ?m" "unat (num_slices ?nd) = slices_of (i_size ?nd)" "SMALL_FILE_GET_BNO ?nd \<in> set xs"
    using I(5) [OF l(1)] by (auto simp: small_node_def)
  have ndv: "inodes v = inodes s" "inodes s' = inodes s" using R by (simp_all add: v run_cleared_simps reaped_def)
  have kept: "SMALL_FILE_GET_BNO ?nd \<in> set (kept_blocks v xs)"
    using all_free_iff [OF inv' nd(3)] nd(3) l by (auto simp: kept_blocks_def ndv)
  define q where "q = ?m * 128 + p"
  have "i_size ?nd \<le> slices_of (i_size ?nd) * 128" by (simp add: div_round_up_def)
  then have q: "occupies ?nd (SMALL_FILE_GET_BNO ?nd) (q div 128)" "128 \<le> q"
    using nd(1,2) p by (auto simp: q_def occupies_def div_less_iff_less_mult algebra_simps)
  then have "\<not> occupies (inodes s i) (SMALL_FILE_GET_BNO ?nd) (q div 128)" using I(6) [OF i l(1)] l(2) by blast
  then have "cache v (SMALL_FILE_GET_BNO ?nd) q = cache s (SMALL_FILE_GET_BNO ?nd) q"
    using q(2) by (auto simp: v run_cleared_simps occupies_def clear_run_payload
        div_less_iff_less_mult less_eq_div_iff_mult_less_eq)
  moreover have "cache s' (SMALL_FILE_GET_BNO ?nd) q = cache v (SMALL_FILE_GET_BNO ?nd) q"
    using R kept q(2) by (simp add: reaped_def same_but_next_def)
  ultimately show ?thesis by (simp add: small_byte_def ndv q_def)
qed

lemma delete_small:
  assumes vol: "small_vol E s xs F" and i: "i \<in> F" and fuel: "length xs \<le> fuel"
  shows "\<exists>s'. delete_slice_and_clear_inode E fuel i s = Inr (0, s') \<and> small_deleted E i s xs F s'"
proof -
  have inv: "slice_inv E s xs F" using vol by (simp add: small_vol_def)
  note I = slice_invD [OF inv]
  let ?b = "SMALL_FILE_GET_BNO (inodes s i)" and ?sl = "SMALL_FILE_GET_SLICE (inodes s i)"
  define n where "n = (ucast (num_slices (inodes s i)) :: u32)"
  have un: "unat n = unat (num_slices (inodes s i))"
    unfolding n_def by (rule unat_ucast_16_32)
  define v where "v = run_cleared ?b (unat ?sl) (unat n) s"
  obtain s1 where d: "delete_slice E fuel ?b ?sl n s = Inr (0, s1)" and inv': "slice_inv E v xs (F - {i})"
    and R: "reaped xs None v s1"
    using delete_slice_vol [OF vol i fuel refl refl n_def] by (auto simp: v_def)
  let ?s = "mark_inode_dirty i (upd_inode i (\<lambda>nd. nd\<lparr>index_block := 0, i_size := 0\<rparr>) s1)"
  have h: "delete_slice_and_clear_inode E fuel i s = Inr (0, ?s)"
    by (simp add: delete_slice_and_clear_inode_def Let_def d n_def [symmetric])
  have t: "sbi ?s = sbi s1" "cache ?s = cache s1" "refs ?s = refs s1" "coherent ?s = coherent s1"
    by (simp_all add: fs_defs coherent_def)
  have v: "inodes v = inodes s" "refs v = refs s" "free_blocks (sbi v) = free_blocks (sbi s)"
    "c \<notin> set xs \<Longrightarrow> cache v c = cache s c" "coherent s \<Longrightarrow> coherent v" for c
    using I(5) [OF i] by (auto simp: v_def run_cleared_simps run_cleared_coherent small_node_def)
  have r: "inodes s1 = inodes v" "refs s1 = refs v" "c \<notin> set xs \<Longrightarrow> cache s1 c = cache v c"
    "free_blocks (sbi s1) = free_blocks (sbi v) \<union> set (empty_blocks v xs)" "coherent v \<Longrightarrow> coherent s1" for c
    using R by (simp_all add: reaped_def brelse_opt_def)
  have set: "set (empty_blocks v xs) = set xs - set (kept_blocks v xs)"
    by (auto simp: empty_blocks_def kept_blocks_def)
  have vol': "small_vol E ?s (kept_blocks v xs) (F - {i})"
    using small_vol_inode [OF reaped_vol [OF inv' R], of i] by simp
  have bytes: "small_byte ?s l p = small_byte s l p" if "l \<in> F - {i}" "p < i_size (inodes s l)" for l p
    using reaped_bytes [OF inv i, of l v s1 p] R that by (simp add: small_byte_def fs_defs v_def un)
  have "small_deleted E i s xs F ?s"
    unfolding small_deleted_def
  proof (intro conjI exI [of _ "kept_blocks v xs"] vol')
    show "set (kept_blocks v xs) \<subseteq> set xs" by (auto simp: kept_blocks_def)
    show "free_blocks (sbi ?s) = free_blocks (sbi s) \<union> (set xs - set (kept_blocks v xs))"
      using r(4) v(3) set t(1) by simp
  qed (use bytes r v t in \<open>auto simp: fs_defs\<close>)
  then show ?thesis using h by blast
qed

section \<open>Reading a small file\<close>

lemma custom_read_iter_small:
  assumes inv: "slice_inv E s xs F" and i: "i \<in> F" and pos: "ki_pos iocb < i_size (inodes s i)"
    and n: "0 < out_count it" "n = min (out_count it) (i_size (inodes s i) - ki_pos iocb)" "n \<le> out_room it"
  shows "custom_read_iter E i iocb it s =
    Inr (int n, iocb\<lparr>ki_pos := n\<rparr>,
      it\<lparr>out_bytes := out_bytes it @ map (small_byte s i) [0..<n],
         out_room := out_room it - n, out_count := out_count it - n\<rparr>, s)"
proof -
  note I = slice_invD [OF inv]
  let ?nd = "inodes s i"
  let ?b = "SMALL_FILE_GET_BNO ?nd" and ?m = "SMALL_FILE_GET_SLICE ?nd"
  have nd: "i_blocks ?nd = 0" "?b \<in> set xs" "1 \<le> unat ?m" "unat ?m + slices_of (i_size ?nd) \<le> 32"
    using I(5) [OF i] by (auto simp: small_node_def)
  have io: "bread_ok E ?b" using I(1) nd(2) by (simp add: sliced_chain_def)
  have "i_size ?nd \<le> slices_of (i_size ?nd) * 128" by (simp add: div_round_up_def)
  then have lim: "unat ?m * 128 + n \<le> 4096" using nd(4) n(2) by linarith
  have m: "?m \<noteq> 0" "\<not> 32 \<le> unat ?m"
    using nd(3,4) pos slices_of_bounds(2) [of "i_size ?nd"] by auto
  have cnt: "(if ki_pos iocb + out_count it > i_size ?nd then i_size ?nd - ki_pos iocb else out_count it) = n"
    using n(2) by auto
  have n0: "n \<noteq> 0" "n \<le> out_count it" using n pos by auto
  have bts: "bytes_at (cache s ?b) (unat ?m * 128) n = map (small_byte s i) [0..<n]"
    by (rule nth_equalityI) (simp_all add: bytes_at_def small_byte_def)
  have "copy_to_iter (map (small_byte s i) [0..<n]) it = (n, it\<lparr>out_bytes := out_bytes it @ map (small_byte s i) [0..<n],
         out_room := out_room it - n, out_count := out_count it - n\<rparr>)"
    using copy_to_iter_room [of "map (small_byte s i) [0..<n]" it] n(3) n0 by simp
  then show ?thesis
    unfolding custom_read_iter_def Let_def cnt
    using pos n0 nd(1) m io lim by (simp add: is_small_file_def sb_bread_hold bts)
qed

end
