(* ===== verification/Ouiche_FileOps.thy ===== *)
theory Ouiche_FileOps
  imports Ouiche_SmallFile
begin

text \<open>
  The remaining handlers of \<^verbatim>\<open>src/file.c\<close>: the block map of a big file, truncation on open, the
  block count after a write, rewriting a small file in its slices, and what the write
  handlers do when they cannot succeed.
\<close>

section \<open>The block map\<close>

lemma ouichefs_file_get_block_mapped:
  assumes wf: "big_wf s ib" and ib: "ib = index_block (inodes s i)" and io: "io_ok E s" and k: "k < 1024"
    and b: "index_get (cache s ib) k \<noteq> 0"
  shows "ouichefs_file_get_block E i k create s = (0, Some (index_get (cache s ib) k), s)"
proof -
  have "bread_ok E ib" using wf io by (simp add: big_wf_def io_ok_def)
  then show ?thesis
    using k b by (simp add: ouichefs_file_get_block_def ib [symmetric] Let_def sb_bread_hold)
qed

lemma ouichefs_file_get_block_create:
  assumes wf: "big_wf s ib" and ib: "ib = index_block (inodes s i)" and io: "io_ok E s" and k: "k < 1024"
    and b: "index_get (cache s ib) k \<noteq> 0 \<or> free_blocks (sbi s) \<noteq> {}"
  shows "\<exists>pb s'. ouichefs_file_get_block E i k True s = (0, Some pb, s') \<and> entry_mapped ib k pb s s'"
proof (cases "index_get (cache s ib) k = 0")
  case False
  then show ?thesis
    using ouichefs_file_get_block_mapped [OF wf ib io k] entry_mapped_old(2) [OF wf k] by blast
next
  case True
  have bk: "bread_ok E ib" using wf io by (simp add: big_wf_def io_ok_def)
  have pool: "block_pool (sbi s)" using wf by (simp add: big_wf_def)
  have ne: "free_blocks (sbi s) \<noteq> {}" using b True by simp
  obtain pb sb' where g: "get_free_block (sbi s) = (pb, sb')" by fastforce
  have pf: "pb \<in> free_blocks (sbi s)" using blocks.grab_free [OF pool ne] g by simp
  then have "pb \<noteq> 0" using blocks.grab_zero_iff [OF pool] ne g by auto
  then have "ouichefs_file_get_block E i k True s =
      (0, Some pb, mark_buffer_dirty ib (buf_upd ib (index_set k pb) (s\<lparr>sbi := sb'\<rparr>)))"
    using True k bk g
    by (simp add: ouichefs_file_get_block_def ib [symmetric] Let_def sb_bread_hold fs_get_free_block_def
        hold_def fs_defs)
  then show ?thesis using entry_mapped_fresh [OF wf k True g pf] by blast
qed

section \<open>Truncation on open\<close>

text \<open>The entries the loop frees: those before the first hole.\<close>

definition first_hole :: "fs \<Rightarrow> u32 \<Rightarrow> nat \<Rightarrow> bool" where
  "first_hole s ib m \<longleftrightarrow> m < 1024 \<and> index_get (cache s ib) m = 0 \<and> (\<forall>k < m. index_get (cache s ib) k \<noteq> 0)"

text \<open>The state after the entries \<open>lo\<close> to \<open>m - 1\<close> have been given back.\<close>

definition entries_freed :: "u32 \<Rightarrow> nat \<Rightarrow> nat \<Rightarrow> fs \<Rightarrow> fs \<Rightarrow> bool" where
  "entries_freed ib lo m s s' \<longleftrightarrow>
     (\<forall>k. index_get (cache s' ib) k = (if lo \<le> k \<and> k < m then 0 else index_get (cache s ib) k)) \<and>
     (\<forall>c. c \<noteq> ib \<longrightarrow> cache s' c = cache s c) \<and> block_pool (sbi s') \<and>
     free_blocks (sbi s') = free_blocks (sbi s) \<union> index_get (cache s ib) ` {lo..<m} \<and>
     nr_blocks (sbi s') = nr_blocks (sbi s) \<and> refs s' = refs s \<and> inodes s' = inodes s \<and>
     dirty s' = dirty s \<and> disk s' = disk s \<and> s_free_sliced_blocks (sbi s') = s_free_sliced_blocks (sbi s)"

definition free_entry :: "u32 \<Rightarrow> nat \<Rightarrow> fs \<Rightarrow> fs" where
  "free_entry ib k s = buf_upd ib (index_set k 0) (fs_put_block (index_get (cache s ib) k) s)"

text \<open>The entries \<open>lo\<close> to \<open>hi - 1\<close> name allocated blocks, each once.\<close>

definition index_live :: "fs \<Rightarrow> u32 \<Rightarrow> nat \<Rightarrow> nat \<Rightarrow> bool" where
  "index_live s ib lo hi \<longleftrightarrow>
     block_pool (sbi s) \<and> hi \<le> 1024 \<and>
     (\<forall>k. lo \<le> k \<and> k < hi \<longrightarrow> index_get (cache s ib) k \<in> block_univ (sbi s) \<and>
        index_get (cache s ib) k \<notin> free_blocks (sbi s)) \<and>
     (\<forall>k l. lo \<le> k \<and> k < hi \<and> lo \<le> l \<and> l < hi \<and> k \<noteq> l \<longrightarrow>
        index_get (cache s ib) k \<noteq> index_get (cache s ib) l)"

lemma big_wf_live:
  assumes "big_wf s ib" and "hi \<le> 1024" and "\<forall>k. lo \<le> k \<and> k < hi \<longrightarrow> index_get (cache s ib) k \<noteq> 0"
  shows "index_live s ib lo hi"
  using assms by (simp add: big_wf_def index_live_def)

lemma free_entry_freed:
  assumes live: "index_live s ib k hi" and k: "k < hi"
  shows "entries_freed ib k (Suc k) s (free_entry ib k s)"
    and "index_live (free_entry ib k s) ib (Suc k) hi"
proof -
  let ?b = "index_get (cache s ib) k" and ?t = "free_entry ib k s"
  have pool: "block_pool (sbi s)" and b: "?b \<in> block_univ (sbi s)" "?b \<notin> free_blocks (sbi s)"
    using live k by (auto simp: index_live_def)
  have sf: "s_free_sliced_blocks (put_block (sbi s) c) = s_free_sliced_blocks (sbi s)" for c
    by (simp add: put_block_def Let_def split: prod.splits)
  have un: "index_get (cache s ib) ` {k..<Suc k} = {?b}" by simp
  have ix: "index_get (index_set k 0 d) l = (if l = k then 0 else index_get d l)" for d l by simp
  have pool': "block_pool (sbi ?t)" and fr: "free_blocks (sbi ?t) = insert ?b (free_blocks (sbi s))"
    using blocks.put_pool [OF pool, of ?b] blocks.free_put [OF pool b(1)] b by (simp_all add: free_entry_def fs_defs)
  have c: "index_get (cache ?t ib) l = (if l = k then 0 else index_get (cache s ib) l)" for l
    using ix by (simp add: free_entry_def fs_defs)
  show "entries_freed ib k (Suc k) s ?t"
    unfolding entries_freed_def un using pool' fr c sf by (auto simp: free_entry_def fs_defs)
  have "block_univ (sbi ?t) = block_univ (sbi s)" by (simp add: free_entry_def fs_defs block_univ_def)
  moreover have "index_get (cache s ib) l \<noteq> ?b" if "Suc k \<le> l" "l < hi" for l
    using live k that by (auto simp: index_live_def)
  ultimately show "index_live ?t ib (Suc k) hi"
    using live pool' fr by (simp add: index_live_def c)
qed

lemma entries_freed_trans:
  assumes "entries_freed ib k l s t" and "entries_freed ib l m t u" and "k \<le> l" and "l \<le> m"
  shows "entries_freed ib k m s u"
proof -
  note s = assms(1) [unfolded entries_freed_def] and t = assms(2) [unfolded entries_freed_def]
  have "index_get (cache t ib) ` {l..<m} = index_get (cache s ib) ` {l..<m}"
    using s by (intro image_cong) auto
  moreover have "{k..<m} = {k..<l} \<union> {l..<m}" using assms(3,4) by (simp add: ivl_disj_un_two(3))
  ultimately have "free_blocks (sbi u) = free_blocks (sbi s) \<union> index_get (cache s ib) ` {k..<m}"
    using s t by (simp add: image_Un Un_assoc)
  moreover have "\<forall>j. index_get (cache u ib) j = (if k \<le> j \<and> j < m then 0 else index_get (cache s ib) j)"
    using s t assms(3,4) by auto
  ultimately show ?thesis
    using s t by (simp add: entries_freed_def)
qed

lemma entries_freed_refl: "block_pool (sbi s) \<Longrightarrow> entries_freed ib m m s s"
  by (auto simp: entries_freed_def)

lemma put_index_range_freed:
  assumes "index_live s ib k (k + n)"
  shows "\<exists>s'. put_index_range ib k n s = Inr s' \<and> entries_freed ib k (k + n) s s'"
  using assms
proof (induction n arbitrary: k s)
  case 0
  then show ?case by (simp add: entries_freed_refl index_live_def)
next
  case (Suc n)
  note F = free_entry_freed [OF Suc.prems, simplified]
  have "\<not> 1024 \<le> k" using Suc.prems by (simp add: index_live_def)
  then have "put_index_range ib k (Suc n) s = put_index_range ib (Suc k) n (free_entry ib k s)"
    by (simp add: free_entry_def)
  moreover obtain s' where "put_index_range ib (Suc k) n (free_entry ib k s) = Inr s'"
      "entries_freed ib (Suc k) (Suc k + n) (free_entry ib k s) s'"
    using Suc.IH [of "free_entry ib k s" "Suc k"] F(2) by auto
  ultimately show ?case
    using entries_freed_trans [OF F(1), of "Suc (k + n)"] by auto
qed

lemma truncate_index_freed:
  assumes "index_live s ib k m" and "m < 1024" and "index_get (cache s ib) m = 0" and "k \<le> m"
    and "\<forall>l. k \<le> l \<and> l < m \<longrightarrow> index_get (cache s ib) l \<noteq> 0"
  shows "\<exists>s'. truncate_index ib k s = Inr s' \<and> entries_freed ib k m s s'"
  using assms
proof (induction "m - k" arbitrary: k s)
  case 0
  then show ?case by (auto simp: truncate_index.simps entries_freed_refl index_live_def)
next
  case (Suc n)
  then have k: "k < m" and n: "n = m - Suc k" by auto
  note F = free_entry_freed [OF Suc.prems(1) k]
  have ix: "index_get (cache (free_entry ib k s) ib) l = (if l = k then 0 else index_get (cache s ib) l)" for l
    using F(1) by (auto simp: entries_freed_def)
  have "truncate_index ib k s = truncate_index ib (Suc k) (free_entry ib k s)"
    using Suc.prems k by (subst truncate_index.simps) (simp add: free_entry_def)
  moreover obtain s' where "truncate_index ib (Suc k) (free_entry ib k s) = Inr s'"
      "entries_freed ib (Suc k) m (free_entry ib k s) s'"
    using Suc.hyps(1) [of "Suc k" "free_entry ib k s", OF n F(2)] Suc.prems k ix by auto
  ultimately show ?case
    using entries_freed_trans [OF F(1), of m] k by auto
qed

lemma ouichefs_open_truncates:
  assumes wf: "big_wf s ib" and ib: "ib = index_block (inodes s i)" and io: "io_ok E s"
    and m: "first_hole s ib m" and sz: "i_size (inodes s i) \<noteq> 0"
  shows "\<exists>t s'. ouichefs_open E w (\<not> w) True i s = Inr (0, s') \<and> entries_freed ib 0 m s t \<and>
    s' = mark_buffer_dirty ib (upd_inode i (\<lambda>nd. nd\<lparr>i_size := 0\<rparr>) t)"
proof -
  have bk: "bread_ok E ib" using wf io by (simp add: big_wf_def io_ok_def)
  have cong: "big_wf (hold ib s) ib" using wf big_wf_cong [of "hold ib s" s] by simp
  have "index_live (hold ib s) ib 0 m"
    using big_wf_live [OF cong, of m 0] m by (simp add: first_hole_def)
  then obtain u where t: "truncate_index ib 0 (hold ib s) = Inr u" "entries_freed ib 0 m (hold ib s) u"
    using truncate_index_freed [of "hold ib s" ib 0 m] m by (auto simp: first_hole_def)
  let ?t = "brelse ib u"
  have "entries_freed ib 0 m s ?t"
    using t(2) by (simp add: entries_freed_def brelse_def hold_def)
  moreover have "ouichefs_open E w (\<not> w) True i s =
      Inr (0, mark_buffer_dirty ib (upd_inode i (\<lambda>nd. nd\<lparr>i_size := 0\<rparr>) ?t))"
    using sz t(1) bk by (simp add: ouichefs_open_def ib [symmetric] Let_def sb_bread_hold fs_defs)
  ultimately show ?thesis by blast
qed

section \<open>The block count after a write\<close>

lemma ucast_of_nat_small: "n < 2 ^ 32 \<Longrightarrow> (ucast (of_nat n :: u64) :: u32) = of_nat n"
  by (intro word_unat_eq_iff [THEN iffD2]) (simp add: unsigned_ucast_eq unat_of_nat take_bit_nat_eq_self_iff)

text \<open>The inode after the handler has counted its blocks.\<close>

definition recounted :: "env \<Rightarrow> u32 \<Rightarrow> nat \<Rightarrow> fs \<Rightarrow> fs" where
  "recounted E i n s = mark_inode_dirty i (upd_inode i (\<lambda>nd. nd\<lparr>i_blocks := of_nat (n + 1),
     i_mtime := current_time E, i_ctime := current_time E\<rparr>) s)"

lemma recounted_simps [simp]:
  "cache (recounted E i n s) = cache s" "sbi (recounted E i n s) = sbi s" "refs (recounted E i n s) = refs s"
  "dirty (recounted E i n s) = dirty s" "disk (recounted E i n s) = disk s"
  "inodes (recounted E i n s) =
     (inodes s)(i := (inodes s i)\<lparr>i_blocks := of_nat (n + 1), i_mtime := current_time E, i_ctime := current_time E\<rparr>)"
  by (simp_all add: recounted_def fs_defs)

lemma write_end_steps:
  assumes g: "gwe s = (int len, s1)" and old: "i_blocks (inodes s1 i) = of_nat (old + 1)" "old \<le> 1024"
    and new: "new = div_round_up (i_size (inodes s1 i)) 4096" "new \<le> 1024" and ib: "ib = index_block (inodes s1 i)" "bread_ok E ib"
  shows "ouichefs_write_end E gwe i len s =
    (if new < old
     then case put_index_range ib new (old - new) (hold ib (recounted E i new s1)) of
            Inl f \<Rightarrow> Inl f
          | Inr v \<Rightarrow> Inr (int len, brelse ib (mark_buffer_dirty ib v))
     else Inr (int len, recounted E i new s1))"
proof -
  have fu: "mark_inode_dirty i (upd_inode i (\<lambda>nd. nd\<lparr>i_blocks := of_nat (div_round_up (i_size nd) 4096) + 1,
      i_mtime := current_time E, i_ctime := current_time E\<rparr>) s1) = recounted E i new s1"
    by (simp add: recounted_def upd_inode_def new(1) add.commute)
  have ret: "\<not> (word_of_int (int len) :: u32) < of_nat len" by simp
  have o: "(ucast (i_blocks (inodes s1 i)) :: u32) = of_nat (old + 1)"
    unfolding old(1) by (rule ucast_of_nat_small) (use old(2) in simp)
  have gt: "(ucast (of_nat (old + 1) :: u32) :: u64) > of_nat (new + 1) \<longleftrightarrow> new < old"
    using old(2) new(2) ucast_up_unat [of "of_nat (old + 1)"] unat_of_nat_u32 [of "old + 1"]
    by (simp add: word_less_nat_alt unat_of_nat del: of_nat_add of_nat_Suc)
  have b: "i_blocks (inodes (recounted E i new s1) i) = of_nat (new + 1)" "index_block (inodes (recounted E i new s1) i) = ib"
    using ib(1) by simp_all
  have n1: "unat ((of_nat (new + 1) :: u64) - 1) = new" "unat ((of_nat (old + 1) :: u32) - 1) = old"
    using old(2) new(2) by (simp_all add: unat_of_nat)
  show ?thesis
    unfolding ouichefs_write_end_def g Let_def prod.case fu o b n1
    using ret gt ib(2) by (simp add: sb_bread_hold del: of_nat_add of_nat_Suc split: sum.split)
qed

text \<open>What the kernel documents of \<^verbatim>\<open>generic_write_end\<close> after \<open>copied\<close> bytes were written at \<open>pos\<close>: it returns
  their number and grows the size of the file to the end of the write, never shrinks it; the metadata
  of the file system is not its business.\<close>

definition write_end_documented :: "(fs \<Rightarrow> int \<times> fs) \<Rightarrow> u32 \<Rightarrow> nat \<Rightarrow> nat \<Rightarrow> fs \<Rightarrow> bool" where
  "write_end_documented generic_write_end i pos copied s \<longleftrightarrow>
     (let t = snd (generic_write_end s); ib = index_block (inodes s i) in
      fst (generic_write_end s) = int copied \<and>
      inodes t = (inodes s)(i := (inodes s i)\<lparr>i_size := max (i_size (inodes s i)) (pos + copied)\<rparr>) \<and>
      sbi t = sbi s \<and> refs t = refs s \<and> cache t ib = cache s ib)"

lemma write_end_counts:
  assumes doc: "write_end_documented gwe i pos len s"
    and ib: "ib = index_block (inodes s i)" "bread_ok E ib" and old: "i_blocks (inodes s i) = of_nat (old + 1)"
    and sz: "sz = max (i_size (inodes s i)) (pos + len)" and new: "new = div_round_up sz 4096" "new \<le> 1024"
    and live: "index_live s ib new old"
  shows "\<exists>s'. ouichefs_write_end E gwe i len s = Inr (int len, s') \<and>
    inodes s' = (inodes s)(i := (inodes s i)\<lparr>i_size := sz, i_blocks := of_nat (new + 1), i_mtime := current_time E, i_ctime := current_time E\<rparr>) \<and>
    block_pool (sbi s') \<and> free_blocks (sbi s') = free_blocks (sbi s) \<union> index_get (cache s ib) ` {new..<old} \<and>
    (\<forall>k. index_get (cache s' ib) k = (if new \<le> k \<and> k < old then 0 else index_get (cache s ib) k)) \<and>
    (\<forall>c. c \<noteq> ib \<longrightarrow> cache s' c = cache (snd (gwe s)) c) \<and> refs s' = refs s"
proof -
  define s1 where "s1 = snd (gwe s)"
  have g: "gwe s = (int len, s1)" and n1: "inodes s1 = (inodes s)(i := (inodes s i)\<lparr>i_size := sz\<rparr>)"
    and k: "sbi s1 = sbi s" "refs s1 = refs s" "cache s1 ib = cache s ib"
    using doc by (simp_all add: write_end_documented_def Let_def s1_def ib sz prod_eq_iff)
  have i1: "index_block (inodes s1 i) = ib" "i_blocks (inodes s1 i) = of_nat (old + 1)" "i_size (inodes s1 i) = sz"
    using ib(1) old by (simp_all add: n1)
  have live1: "index_live s1 ib new old" using live by (simp add: index_live_def k)
  have lim: "old \<le> 1024" "block_pool (sbi s)" using live by (simp_all add: index_live_def)
  note W = write_end_steps [of gwe s len s1 i old new ib E, OF g i1(2) lim(1) _ new(2) i1(1) [symmetric] ib(2)]
  show ?thesis
  proof (cases "new < old")
    case True
    have "index_live (hold ib (recounted E i new s1)) ib new (new + (old - new))"
      using live1 True by (simp add: index_live_def)
    then obtain v where v: "put_index_range ib new (old - new) (hold ib (recounted E i new s1)) = Inr v"
        "entries_freed ib new old (hold ib (recounted E i new s1)) v"
      using put_index_range_freed True by fastforce
    then show ?thesis
      using W True i1(3) new(1)
      by (intro exI [of _ "brelse ib (mark_buffer_dirty ib v)"])
        (simp add: entries_freed_def n1 k s1_def [symmetric] fs_defs hold_def)
  next
    case False
    then show ?thesis
      using W i1(3) new(1) lim(2) by (auto simp: n1 k s1_def [symmetric])
  qed
qed

text \<open>A cleared entry is given back as block 0: the loop does not test for it, and \<^verbatim>\<open>put_block\<close> accepts
  it.\<close>

lemma put_index_range_cleared:
  assumes "\<forall>l. k \<le> l \<and> l < k + n \<longrightarrow> index_get (cache s ib) l = 0" and "k + n \<le> 1024" and "0 < n"
  shows "\<exists>s'. put_index_range ib k n s = Inr s' \<and> test_bit (bfree_bitmap (sbi s')) 0 \<and>
    nr_free_blocks (sbi s') = nr_free_blocks (sbi s) + of_nat n"
  using assms
proof (induction n arbitrary: k s)
  case (Suc n)
  let ?s = "buf_upd ib (index_set k 0) (fs_put_block 0 s)"
  have z: "index_get (cache s ib) k = 0" "\<not> 1024 \<le> k" using Suc.prems(1,2) by auto
  have p: "put_block (sbi s) 0 = (sbi s)\<lparr>bfree_bitmap := bitmap_set1 (bfree_bitmap (sbi s)) 0, nr_free_blocks := nr_free_blocks (sbi s) + 1\<rparr>"
    by (simp add: put_block_def put_free_bit_def)
  have s: "test_bit (bfree_bitmap (sbi ?s)) 0" "nr_free_blocks (sbi ?s) = nr_free_blocks (sbi s) + 1"
    by (simp_all add: fs_defs p test_bit_set1)
  show ?case
  proof (cases "n = 0")
    case True
    then show ?thesis using z s by simp
  next
    case False
    have "index_get (cache ?s ib) l = 0" if "Suc k \<le> l" "l < Suc k + n" for l
      using that Suc.prems(1,2) by (simp add: fs_defs index_get_set_other)
    then show ?thesis using Suc.IH [of "Suc k" ?s] Suc.prems(2) False z s(2) by (auto simp: add.assoc)
  qed
qed simp

lemma write_end_cleared:
  assumes doc: "write_end_documented gwe i pos len s" and ib: "ib = index_block (inodes s i)" "bread_ok E ib"
    and old: "i_blocks (inodes s i) = of_nat (old + 1)" "old \<le> 1024"
    and new: "new = div_round_up (max (i_size (inodes s i)) (pos + len)) 4096" "new < old"
    and zero: "\<forall>l. new \<le> l \<and> l < old \<longrightarrow> index_get (cache s ib) l = 0"
  shows "\<exists>s'. ouichefs_write_end E gwe i len s = Inr (int len, s') \<and> test_bit (bfree_bitmap (sbi s')) 0 \<and>
    nr_free_blocks (sbi s') = nr_free_blocks (sbi s) + of_nat (old - new)"
proof -
  define s1 where "s1 = snd (gwe s)"
  have g: "gwe s = (int len, s1)" and n1: "inodes s1 = (inodes s)(i := (inodes s i)\<lparr>i_size := max (i_size (inodes s i)) (pos + len)\<rparr>)"
    and k: "sbi s1 = sbi s" "cache s1 ib = cache s ib"
    using doc by (simp_all add: write_end_documented_def Let_def s1_def ib prod_eq_iff)
  obtain v where "put_index_range ib new (old - new) (hold ib (recounted E i new s1)) = Inr v"
      "test_bit (bfree_bitmap (sbi v)) 0" "nr_free_blocks (sbi v) = nr_free_blocks (sbi s) + of_nat (old - new)"
    using put_index_range_cleared [of new "old - new" "hold ib (recounted E i new s1)" ib] zero new(2) old(2) by (auto simp: k)
  then show ?thesis
    using write_end_steps [of gwe s len s1 i old new ib E, OF g] old new ib by (simp add: n1 fs_defs)
qed

section \<open>Rewriting a small file in its slices\<close>

lemma pack_unpack: "pack_slice (SMALL_FILE_GET_BNO nd) (SMALL_FILE_GET_SLICE nd) = index_block nd"
proof -
  let ?x = "index_block nd"
  have "?x AND 31 = take_bit 5 ?x" by (simp add: take_bit_eq_mask mask_eq_exp_minus_1)
  then have "pack_slice (SMALL_FILE_GET_BNO nd) (SMALL_FILE_GET_SLICE nd) = push_bit 5 (drop_bit 5 ?x) + take_bit 5 ?x"
    by (simp add: pack_slice_def SMALL_FILE_GET_BNO_def SMALL_FILE_GET_SLICE_def)
  then show ?thesis using bits_ident [of 5 ?x] by simp
qed

definition small_rewritten :: "env \<Rightarrow> u32 \<Rightarrow> nat \<Rightarrow> nat \<Rightarrow> u8 list \<Rightarrow> fs \<Rightarrow> fs" where
  "small_rewritten E i pos sz bs s =
     (let b = SMALL_FILE_GET_BNO (inodes s i);
          d = memcpy (cache s b) (unat (SMALL_FILE_GET_SLICE (inodes s i)) * 128 + pos) bs
      in s\<lparr>cache := (cache s)(b := d), disk := (disk s)(b := d), dirty := dirty s - {b},
           sbi := (sbi s)\<lparr>nr_used_slices := nr_used_slices (sbi s) + of_nat (slices_of sz)\<rparr>,
           inodes := (inodes s)(i := (inodes s i)\<lparr>i_size := sz, i_mtime := current_time E, i_ctime := current_time E\<rparr>),
           idirty := insert i (idirty s)\<rparr>)"

lemma write_small_file_rewrite:
  assumes inv: "slice_inv E s xs F" and i: "i \<in> F"
    and pos: "pos = (if ki_append iocb then i_size (inodes s i) else ki_pos iocb)"
    and sz: "sz = max (pos + it_count it) (i_size (inodes s i))"
    and n: "slices_of sz = unat (num_slices (inodes s i))"
    and it: "length (it_bytes it) = it_count it"
  shows "\<exists>it'. write_small_file E fuel i iocb it s =
    Inr (int (it_count it), iocb\<lparr>ki_pos := pos\<rparr>, it', small_rewritten E i pos sz (it_bytes it) s)"
proof -
  note I = slice_invD [OF inv]
  let ?nd = "inodes s i"
  let ?b = "SMALL_FILE_GET_BNO ?nd" and ?m = "SMALL_FILE_GET_SLICE ?nd"
  have nd: "?b \<in> set xs" "1 \<le> unat ?m" "unat ?m + unat (num_slices ?nd) \<le> 32" "1 \<le> unat (num_slices ?nd)"
    using I(5) [OF i] slices_of_bounds(2) [of "i_size ?nd"] by (auto simp: small_node_def)
  have b: "bread_ok E ?b" "?b \<noteq> 0" using I(1) nd(1) by (auto simp: sliced_chain_def block_univ_def)
  have m: "?m \<noteq> 0" "num_slices ?nd \<noteq> 0" using nd(2,4) by auto
  have ib: "index_block ?nd \<noteq> 0" using m(1) by (auto simp: SMALL_FILE_GET_SLICE_def)
  have eq: "(ucast (num_slices ?nd) :: u32) = of_nat (slices_of sz)"
    using nd(3) n by (intro word_unat_eq_iff [THEN iffD2]) (simp add: unat_ucast_16_32 unat_of_nat)
  have "sz \<le> slices_of sz * 128" by (simp add: div_round_up_def)
  then have lim: "\<not> 4096 < unat ?m * 128 + pos + it_count it" using nd(3) n sz by linarith
  have "\<exists>it'. write_small_finish E i ?b ?m pos sz iocb it (hold ?b s) =
      Inr (int (it_count it), iocb\<lparr>ki_pos := pos\<rparr>, it', small_rewritten E i pos sz (it_bytes it) s)"
    using lim it by (simp add: write_small_finish_def Let_def copy_from_iter_enough small_rewritten_def fs_defs hold_def pack_unpack)
  then show ?thesis
    using ib m b eq
    unfolding write_small_file_def Let_def pos [symmetric] sz [symmetric] by (simp add: sb_bread_hold)
qed

section \<open>When a write cannot succeed\<close>

text \<open>No free block for the first sliced block: the error code becomes a large unsigned block
  number, the check \<^verbatim>\<open>block_to_write <= 0\<close> lets it pass and the missing buffer is used.\<close>

lemma allocate_no_block:
  assumes "block_pool (sbi s)" and "free_blocks (sbi s) = {}"
  shows "allocate_and_init_slice_block E s = (- ENOSPC, None, fs_put_block 0 s)"
proof -
  have "get_free_block (sbi s) = (0, sbi s)" using assms by (simp add: get_free_block_none)
  then show ?thesis by (simp add: allocate_and_init_slice_block_def fs_get_free_block_def)
qed

lemma write_small_new_no_block:
  assumes "block_pool (sbi s)" and "free_blocks (sbi s) = {}" and "s_free_sliced_blocks (sbi s) = 0"
  shows "write_small_new E fuel i iocb it s = Inl NullDeref"
  using assms(3) by (simp add: write_small_new_def Let_def allocate_no_block [OF assms(1,2)])

text \<open>A run of 32 slices, or of a size beyond a block, is never found, so the search for one goes on
  until an allocation or a read fails.\<close>

lemma get_slices_too_big:
  assumes "3968 < sz"
  shows "get_consequitive_free_slices b i sz s = (0, s)"
proof (cases "4096 < sz")
  case False
  then have n: "div_round_up sz 128 = 32" using assms by (simp add: div_round_up_def)
  show ?thesis using False by (simp add: get_consequitive_free_slices_def Let_def n scan_slices.simps)
qed (simp add: get_consequitive_free_slices_def)

lemma slice_search_too_big:
  assumes "3968 < sz"
  shows "slice_search E fuel i sz bh 0 s \<noteq> Inr (Inr r, s')"
proof (induction fuel arbitrary: bh s)
  case 0
  then show ?case by (simp add: slice_search.simps)
next
  case (Suc fuel)
  then show ?case
    by (subst slice_search.simps)
      (simp add: get_slices_too_big [OF assms] Let_def split: option.split prod.split)
qed

lemma slice_search_error:
  assumes "3968 < sz" and "slice_search E fuel i sz bh 0 s = Inr (Inl err, s')"
  shows "err \<le> 0"
  using assms(2)
proof (induction fuel arbitrary: bh s)
  case 0
  then show ?case by (simp add: slice_search.simps)
next
  case (Suc fuel)
  show ?case
    using Suc.prems Suc.IH
    by (subst (asm) slice_search.simps)
      (auto simp: get_slices_too_big [OF assms(1)] Let_def split: option.splits prod.splits if_splits)
qed

lemma write_small_new_too_big:
  assumes "write_small_new E fuel i iocb it s = Inr (ret, iocb', it', s')"
    and "3968 < max ((if ki_append iocb then i_size (inodes s i) else ki_pos iocb) + it_count it) (i_size (inodes s i))"
  shows "ret \<le> 0"
proof (rule ccontr)
  assume r: "\<not> ret \<le> 0"
  define sz where "sz = max ((if ki_append iocb then i_size (inodes s i) else ki_pos iocb) + it_count it) (i_size (inodes s i))"
  have big: "3968 < sz" using assms(2) by (simp only: sz_def)
  show False
    using assms(1) r unfolding write_small_new_def Let_def sz_def [symmetric]
    by (auto simp: get_slices_too_big [OF big] slice_search_too_big [OF big]
        split: if_splits option.splits prod.splits sum.splits dest!: slice_search_error [OF big])
qed

lemma map_sum_Inr_iff:
  "map_sum id Inr x = Inr (Inr y) \<longleftrightarrow> x = Inr y" "map_sum id Inr x \<noteq> Inr (Inl z)"
  by (cases x; simp)+

lemma write_small_file_too_big:
  assumes w: "write_small_file E fuel i iocb it s = Inr (ret, iocb', it', s')"
    and i: "index_block (inodes s i) \<noteq> 0" "i_size (inodes s i) \<noteq> 0" and app: "ki_append iocb"
    and sz: "sz = i_size (inodes s i) + it_count it" "3968 < sz"
    and n: "(ucast (num_slices (inodes s i)) :: u32) \<noteq> of_nat (div_round_up sz 128)"
  shows "ret \<le> 0"
proof (rule ccontr)
  assume r: "\<not> ret \<le> 0"
  have mx: "max (i_size (inodes s i) + it_count it) (i_size (inodes s i)) = sz" using sz(1) by simp
  have no: False if "write_small_new E fuel i (iocb\<lparr>ki_pos := 0, ki_append := False\<rparr>)
      \<lparr>it_bytes = bs, it_count = sz\<rparr> (upd_inode i (\<lambda>nd. nd\<lparr>index_block := 0, i_size := 0\<rparr>) t) = Inr (r', k', j', t')"
    "r' > 0" for bs t r' k' j' t'
    using write_small_new_too_big [OF that(1)] that(2) sz(2) by (simp add: upd_inode_def)
  show False
    using w r i n app
    unfolding write_small_file_def Let_def
    by (auto simp: mx map_sum_Inr_iff split: if_splits option.splits sum.splits prod.splits dest: no)
qed

text \<open>A small file whose recorded number of slices is 0 can never be written again.\<close>

lemma write_small_file_no_slices:
  assumes "index_block (inodes s i) \<noteq> 0" and "num_slices (inodes s i) = 0"
  shows "write_small_file E fuel i iocb it s = Inr (- EIO, iocb, it, s)"
  using assms by (simp add: write_small_file_def Let_def)

text \<open>The index block of a file that is being converted is still its packed slice address; when the
  device has no such block the conversion fails and restores the inode.\<close>

lemma write_big_file_unreadable:
  assumes "index_block (inodes s i) \<noteq> 0" and "\<not> bread_ok E (index_block (inodes s i))"
    and "\<not> space_check_fails (max (pos + it_count it) (i_size (inodes s i))) (i_blocks (inodes s i)) (nr_free_blocks (sbi s))"
    and "pos = (if ki_append iocb then i_size (inodes s i) else ki_pos iocb)"
  shows "write_big_file E i iocb it s = (- EIO, iocb, it, s)"
  using assms(1-3) unfolding write_big_file_def Let_def assms(4) [symmetric]
  by (simp add: sb_bread_None space_check_fails_def Let_def)

lemma convert_small_to_big_unreadable:
  assumes inv: "slice_inv E s xs F" and i: "i \<in> F" and nr: "\<not> bread_ok E (index_block (inodes s i))"
    and mem: "kmalloc_ok E = (\<lambda>_. True)" and it: "length (it_bytes it) = it_count it"
  shows "\<exists>it'. convert_small_to_big E fuel i iocb it s = Inr (- EIO, iocb, it', s)"
proof -
  note I = slice_invD [OF inv]
  let ?nd = "inodes s i"
  let ?b = "SMALL_FILE_GET_BNO ?nd" and ?m = "SMALL_FILE_GET_SLICE ?nd"
  have nd: "?b \<in> set xs" "1 \<le> unat ?m" "unat ?m + slices_of (i_size ?nd) \<le> 32" "i_blocks ?nd = 0"
    using I(5) [OF i] by (auto simp: small_node_def)
  have b: "bread_ok E ?b" using I(1) nd(1) by (auto simp: sliced_chain_def)
  have "?m \<noteq> 0" using nd(2) by auto
  then have ib: "index_block ?nd \<noteq> 0" by (auto simp: SMALL_FILE_GET_SLICE_def)
  have "i_size ?nd \<le> slices_of (i_size ?nd) * 128" by (simp add: div_round_up_def)
  then have lim: "\<not> 4096 < unat ?m * 128 + i_size ?nd" using nd(3) by linarith
  let ?t = "upd_inode i (\<lambda>nd. nd\<lparr>i_size := 0\<rparr>) s"
  have w: "write_big_file E i (iocb\<lparr>ki_pos := 0, ki_append := False\<rparr>) r ?t =
      (- EIO, iocb\<lparr>ki_pos := 0, ki_append := False\<rparr>, r, ?t)" for r
    using ib nr nd(4) space_check_new
    by (intro write_big_file_unreadable [where pos = 0]) (simp_all add: upd_inode_def)
  have undo: "upd_inode i (\<lambda>nd. nd\<lparr>index_block := index_block ?nd, i_size := i_size ?nd\<rparr>) ?t = s"
    by (simp add: upd_inode_def)
  show ?thesis
    using b lim it w undo
    by (simp add: convert_small_to_big_def Let_def sb_bread_hold mem copy_from_iter_enough del: upd_inode_def)
qed

end
