(* ===== verification/Ouiche_Super.thy ===== *)
theory Ouiche_Super
  imports Ouiche_BigFile
begin

text \<open>
  The superblock operations of \<^verbatim>\<open>src/super.c\<close> and the loading of inodes, \<^verbatim>\<open>ouichefs_iget\<close> of
  \<^verbatim>\<open>src/inode.c\<close>: writing an inode back to the inode store, flushing the superblock and the two
  bitmaps, mounting, and the statistics of \<^verbatim>\<open>statfs\<close>.  The main facts are round trips: an inode
  written back is the inode loaded later, and what a sync wrote is what a mount reads.

  The on-disk inode has the layout the C compiler gives \<^verbatim>\<open>struct ouichefs_inode\<close> on a 64-bit
  target: 64-bit fields are aligned to 8 bytes, the size is 80, so 51 inodes fit a block.
\<close>

section \<open>The inode store\<close>

definition inode_block_of :: "u32 \<Rightarrow> u32" where
  "inode_block_of ino = of_nat (unat ino div OUICHEFS_INODES_PER_BLOCK) + 1"

definition inode_off :: "u32 \<Rightarrow> nat" where
  "inode_off ino = unat ino mod OUICHEFS_INODES_PER_BLOCK * OUICHEFS_INODE_SIZE"

text \<open>The stores of \<^verbatim>\<open>ouichefs_write_inode\<close> through \<^verbatim>\<open>disk_inode\<close>, in order.\<close>

definition put_disk_inode :: "inode \<Rightarrow> nat \<Rightarrow> block \<Rightarrow> block" where
  "put_disk_inode nd off d =
     (let d = put32 (i_mode nd) off d;
          d = put32 (i_uid nd) (off + 4) d;
          d = put32 (i_gid nd) (off + 8) d;
          d = put32 (of_nat (i_size nd)) (off + 12) d;
          d = put32 (ucast (fst (i_ctime nd))) (off + 16) d;
          d = put64 (snd (i_ctime nd)) (off + 24) d;
          d = put32 (ucast (fst (i_atime nd))) (off + 32) d;
          d = put64 (snd (i_atime nd)) (off + 40) d;
          d = put32 (ucast (fst (i_mtime nd))) (off + 48) d;
          d = put64 (snd (i_mtime nd)) (off + 56) d;
          d = put32 (ucast (i_blocks nd)) (off + 64) d;
          d = put32 (i_nlink nd) (off + 68) d;
          d = put32 (index_block nd) (off + 72) d
      in put16 (num_slices nd) (off + 76) d)"

text \<open>The loads of \<^verbatim>\<open>ouichefs_iget\<close>; \<^verbatim>\<open>i_mode\<close> is a 16-bit \<^verbatim>\<open>umode_t\<close>.\<close>

definition get_disk_inode :: "block \<Rightarrow> nat \<Rightarrow> inode" where
  "get_disk_inode d off =
     \<lparr>i_mode = ucast (ucast (get32 d off) :: u16), i_uid = get32 d (off + 4), i_gid = get32 d (off + 8),
      i_size = unat (get32 d (off + 12)),
      i_ctime = (ucast (get32 d (off + 16)), get64 d (off + 24)),
      i_atime = (ucast (get32 d (off + 32)), get64 d (off + 40)),
      i_mtime = (ucast (get32 d (off + 48)), get64 d (off + 56)),
      i_blocks = ucast (get32 d (off + 64)), i_nlink = get32 d (off + 68),
      index_block = get32 d (off + 72), num_slices = get16 d (off + 76)\<rparr>"

definition ouichefs_write_inode :: "env \<Rightarrow> u32 \<Rightarrow> fs \<Rightarrow> int \<times> fs" where
  "ouichefs_write_inode E ino s =
     (let blk = inode_block_of ino in
      if ino \<ge> nr_inodes (sbi s) then (0, s)
      else case sb_bread E blk s of
        None \<Rightarrow> (- EIO, s)
      | Some s \<Rightarrow>
          (0, brelse blk (sync_dirty_buffer blk (mark_buffer_dirty blk
                (buf_upd blk (put_disk_inode (inodes s ino) (inode_off ino)) s)))))"

text \<open>The result is an error or the inode number; a cached inode is returned as it is.\<close>

definition ouichefs_iget :: "env \<Rightarrow> u32 \<Rightarrow> fs \<Rightarrow> (int + u32) \<times> fs" where
  "ouichefs_iget E ino s =
     (let blk = inode_block_of ino in
      if ino \<ge> nr_inodes (sbi s) then (Inl (- EINVAL), s)
      else if \<not> iget_ok E ino then (Inl (- ENOMEM), s)
      else if ino \<in> icached s then (Inr ino, s)
      else case sb_bread E blk s of
        None \<Rightarrow> (Inl (- EIO), s)
      | Some s \<Rightarrow>
          (Inr ino, brelse blk (s\<lparr>inodes := (inodes s)(ino := get_disk_inode (cache s blk) (inode_off ino)),
                                  icached := insert ino (icached s)\<rparr>)))"

section \<open>Sync\<close>

text \<open>The stores of \<^verbatim>\<open>sync_sb_info\<close>; the magic number on disk is not written.\<close>

definition put_disk_sb :: "sb_info \<Rightarrow> block \<Rightarrow> block" where
  "put_disk_sb sb d =
     (let d = put32 (nr_blocks sb) 4 d;
          d = put32 (nr_inodes sb) 8 d;
          d = put32 (nr_istore_blocks sb) 12 d;
          d = put32 (nr_ifree_blocks sb) 16 d;
          d = put32 (nr_bfree_blocks sb) 20 d;
          d = put32 (nr_free_inodes sb) 28 d;
          d = put32 (nr_free_blocks sb) 32 d;
          d = put32 (s_free_sliced_blocks sb) 40 d;
          d = put32 (nr_used_slices sb) 36 d
      in put32 (nr_sliced_blocks sb) 24 d)"

definition flush :: "bool \<Rightarrow> u32 \<Rightarrow> fs \<Rightarrow> fs" where
  "flush wait b s =
     brelse b (if wait then sync_dirty_buffer b (mark_buffer_dirty b s) else mark_buffer_dirty b s)"

definition sync_sb_info :: "env \<Rightarrow> bool \<Rightarrow> fs \<Rightarrow> int \<times> fs" where
  "sync_sb_info E wait s =
     (case sb_bread E 0 s of
        None \<Rightarrow> (- EIO, s)
      | Some s \<Rightarrow> (0, flush wait 0 (buf_upd 0 (put_disk_sb (sbi s)) s)))"

text \<open>The loop shared by \<^verbatim>\<open>sync_ifree\<close> and \<^verbatim>\<open>sync_bfree\<close>: block \<open>base + i + 1\<close> gets the longs from
  \<open>512 * i\<close> on.\<close>

primrec sync_bitmap :: "env \<Rightarrow> bool \<Rightarrow> u32 \<Rightarrow> bitmap \<Rightarrow> nat \<Rightarrow> nat \<Rightarrow> fs \<Rightarrow> int \<times> fs" where
  "sync_bitmap E wait base m i 0 s = (0, s)"
| "sync_bitmap E wait base m i (Suc n) s =
     (let idx = base + of_nat i + 1 in
      case sb_bread E idx s of
        None \<Rightarrow> (- EIO, s)
      | Some s \<Rightarrow>
          sync_bitmap E wait base m (Suc i) n
            (flush wait idx (buf_upd idx (\<lambda>d. copy_bitmap_to_le64 d m (512 * i)) s)))"

definition sync_ifree :: "env \<Rightarrow> bool \<Rightarrow> fs \<Rightarrow> int \<times> fs" where
  "sync_ifree E wait s =
     sync_bitmap E wait (nr_istore_blocks (sbi s)) (ifree_bitmap (sbi s)) 0 (unat (nr_ifree_blocks (sbi s))) s"

definition sync_bfree :: "env \<Rightarrow> bool \<Rightarrow> fs \<Rightarrow> int \<times> fs" where
  "sync_bfree E wait s =
     sync_bitmap E wait (nr_istore_blocks (sbi s) + nr_ifree_blocks (sbi s)) (bfree_bitmap (sbi s)) 0
       (unat (nr_bfree_blocks (sbi s))) s"

definition ouichefs_sync_fs :: "env \<Rightarrow> bool \<Rightarrow> fs \<Rightarrow> int \<times> fs" where
  "ouichefs_sync_fs E wait s =
     (case sync_sb_info E wait s of (ret, s) \<Rightarrow>
        if ret \<noteq> 0 then (ret, s)
        else case sync_ifree E wait s of (ret, s) \<Rightarrow>
          if ret \<noteq> 0 then (ret, s) else sync_bfree E wait s)"

record kstatfs =
  f_type :: u32
  f_bsize :: nat
  f_blocks :: u32
  f_bfree :: u32
  f_bavail :: u32
  f_files :: u32
  f_ffree :: u32
  f_namelen :: nat

definition ouichefs_statfs :: "sb_info \<Rightarrow> kstatfs" where
  "ouichefs_statfs sb =
     \<lparr>f_type = OUICHEFS_MAGIC, f_bsize = OUICHEFS_BLOCK_SIZE, f_blocks = nr_blocks sb,
      f_bfree = nr_free_blocks sb, f_bavail = nr_free_blocks sb, f_files = nr_inodes sb,
      f_ffree = nr_free_inodes sb, f_namelen = OUICHEFS_FILENAME_LEN\<rparr>"

section \<open>Mount\<close>

text \<open>The superblock read by \<^verbatim>\<open>ouichefs_fill_super\<close>; the rest of the allocation is zero.\<close>

definition get_disk_sb :: "block \<Rightarrow> sb_info" where
  "get_disk_sb d =
     \<lparr>magic = 0, nr_blocks = get32 d 4, nr_inodes = get32 d 8, nr_istore_blocks = get32 d 12,
      nr_ifree_blocks = get32 d 16, nr_bfree_blocks = get32 d 20, nr_sliced_blocks = get32 d 24,
      nr_free_inodes = get32 d 28, nr_free_blocks = get32 d 32, nr_used_slices = get32 d 36,
      s_free_sliced_blocks = get32 d 40, ifree_bitmap = \<lambda>_. 0, bfree_bitmap = \<lambda>_. 0\<rparr>"

text \<open>The loops that read the bitmaps into an allocation of \<open>sz\<close> bytes.\<close>

primrec load_bitmap :: "env \<Rightarrow> u32 \<Rightarrow> nat \<Rightarrow> nat \<Rightarrow> nat \<Rightarrow> bitmap \<Rightarrow> fs \<Rightarrow> (int \<times> bitmap \<times> fs) res" where
  "load_bitmap E base sz i 0 m s = Inr (0, m, s)"
| "load_bitmap E base sz i (Suc n) m s =
     (let idx = base + of_nat i + 1 in
      case sb_bread E idx s of
        None \<Rightarrow> Inr (- EIO, m, s)
      | Some s \<Rightarrow>
          if Suc i * OUICHEFS_BLOCK_SIZE > sz then Inl OutOfBounds
          else load_bitmap E base sz (Suc i) n (copy_bitmap_from_le64 m (512 * i) (cache s idx)) (brelse idx s))"

text \<open>\<open>sizeof_sb\<close> is \<^verbatim>\<open>sizeof(struct ouichefs_sb_info)\<close>; \<^verbatim>\<open>inode_init_owner\<close>, \<^verbatim>\<open>d_make_root\<close> (which
  may fail) and \<^verbatim>\<open>ouichefs_register_sysfs\<close> act outside this state.\<close>

definition ouichefs_fill_super ::
  "env \<Rightarrow> nat \<Rightarrow> (inode \<Rightarrow> inode) \<Rightarrow> bool \<Rightarrow> int \<Rightarrow> fs \<Rightarrow> (int \<times> fs) res" where
  "ouichefs_fill_super E sizeof_sb init_owner root_ok sysfs_ret s =
     (case sb_bread E 0 s of
        None \<Rightarrow> Inr (- EIO, s)
      | Some s \<Rightarrow>
          if get32 (cache s 0) 0 \<noteq> OUICHEFS_MAGIC then Inr (- EPERM, brelse 0 s)
          else if \<not> kmalloc_ok E sizeof_sb then Inr (- ENOMEM, brelse 0 s)
          else
            let sb = get_disk_sb (cache s 0);
                s = brelse 0 (s\<lparr>sbi := sb\<rparr>);
                isz = unat (nr_ifree_blocks sb * 4096);
                bsz = unat (nr_bfree_blocks sb * 4096)
            in if \<not> kmalloc_ok E isz then Inr (- ENOMEM, s)
               else case load_bitmap E (nr_istore_blocks sb) isz 0 (unat (nr_ifree_blocks sb)) (\<lambda>_. 0) s of
                 Inl f \<Rightarrow> Inl f
               | Inr (ret, m, s) \<Rightarrow>
                   let s = s\<lparr>sbi := (sbi s)\<lparr>ifree_bitmap := m\<rparr>\<rparr> in
                   if ret \<noteq> 0 then Inr (ret, s)
                   else if \<not> kmalloc_ok E bsz then Inr (- ENOMEM, s)
                   else case load_bitmap E (nr_istore_blocks sb + nr_ifree_blocks sb) bsz 0
                               (unat (nr_bfree_blocks sb)) (\<lambda>_. 0) s of
                     Inl f \<Rightarrow> Inl f
                   | Inr (ret, m, s) \<Rightarrow>
                       let s = s\<lparr>sbi := (sbi s)\<lparr>bfree_bitmap := m\<rparr>\<rparr> in
                       if ret \<noteq> 0 then Inr (ret, s)
                       else case ouichefs_iget E 1 s of
                         (Inl err, s) \<Rightarrow> Inr (err, s)
                       | (Inr root, s) \<Rightarrow>
                           let s = upd_inode root init_owner s in
                           if \<not> root_ok then Inr (- ENOMEM, s)
                           else if sysfs_ret \<noteq> 0 then Inr (sysfs_ret, s)
                           else Inr (0, s))"

section \<open>Inode write-back\<close>

text \<open>The inodes the on-disk format can hold.\<close>

definition disk_fits :: "inode \<Rightarrow> bool" where
  "disk_fits nd \<longleftrightarrow>
     i_mode nd < 2 ^ 16 \<and> i_size nd < 2 ^ 32 \<and> i_blocks nd < 2 ^ 32 \<and>
     fst (i_ctime nd) < 2 ^ 32 \<and> fst (i_atime nd) < 2 ^ 32 \<and> fst (i_mtime nd) < 2 ^ 32"

lemma ucast_64_32_64: "(x :: u64) < 2 ^ 32 \<Longrightarrow> ucast (ucast x :: u32) = x"
  by (simp add: word_unat_eq_iff ucast_up_unat unsigned_ucast_eq unsigned_take_bit_eq take_bit_nat_eq_self_iff
      word_less_nat_alt)

lemma ucast_32_16_32: "(x :: u32) < 2 ^ 16 \<Longrightarrow> ucast (ucast x :: u16) = x"
  by (simp add: word_unat_eq_iff unsigned_ucast_eq unsigned_take_bit_eq take_bit_nat_eq_self_iff
      word_less_nat_alt)

lemma put_disk_inode_get:
  "get32 (put_disk_inode nd off d) off = i_mode nd"
  "get32 (put_disk_inode nd off d) (off + 4) = i_uid nd"
  "get32 (put_disk_inode nd off d) (off + 8) = i_gid nd"
  "get32 (put_disk_inode nd off d) (off + 12) = of_nat (i_size nd)"
  "get32 (put_disk_inode nd off d) (off + 16) = ucast (fst (i_ctime nd))"
  "get64 (put_disk_inode nd off d) (off + 24) = snd (i_ctime nd)"
  "get32 (put_disk_inode nd off d) (off + 32) = ucast (fst (i_atime nd))"
  "get64 (put_disk_inode nd off d) (off + 40) = snd (i_atime nd)"
  "get32 (put_disk_inode nd off d) (off + 48) = ucast (fst (i_mtime nd))"
  "get64 (put_disk_inode nd off d) (off + 56) = snd (i_mtime nd)"
  "get32 (put_disk_inode nd off d) (off + 64) = ucast (i_blocks nd)"
  "get32 (put_disk_inode nd off d) (off + 68) = i_nlink nd"
  "get32 (put_disk_inode nd off d) (off + 72) = index_block nd"
  "get16 (put_disk_inode nd off d) (off + 76) = num_slices nd"
  by (simp_all add: put_disk_inode_def Let_def block_simps)

lemma disk_inode_roundtrip:
  assumes "disk_fits nd"
  shows "get_disk_inode (put_disk_inode nd off d) off = nd"
  using assms
  by (simp add: get_disk_inode_def put_disk_inode_get disk_fits_def ucast_64_32_64 ucast_32_16_32 unat_of_nat_u32)

lemma put_disk_inode_outside:
  "k < off \<or> off + 78 \<le> k \<Longrightarrow> put_disk_inode nd off d k = d k"
  by (auto simp: put_disk_inode_def Let_def put_le_outside)

lemma get_disk_inode_cong:
  assumes "\<And>k. off \<le> k \<Longrightarrow> k < off + 78 \<Longrightarrow> d k = d' k"
  shows "get_disk_inode d off = get_disk_inode d' off"
proof -
  have g32: "get32 d (off + m) = get32 d' (off + m)" if "m + 4 \<le> 78" for m
    using that assms by (intro get_le_cong) simp
  have g64: "get64 d (off + m) = get64 d' (off + m)" if "m + 8 \<le> 78" for m
    using that assms by (intro get_le_cong) simp
  have g16: "get16 d (off + m) = get16 d' (off + m)" if "m + 2 \<le> 78" for m
    using that assms by (intro get_le_cong) simp
  show ?thesis using g32 [of 0] by (simp add: get_disk_inode_def g32 g64 g16)
qed

text \<open>Different inodes have different slots.\<close>

lemma inode_slots_disjoint:
  assumes "inode_block_of i = inode_block_of j" and "i \<noteq> j"
  shows "inode_off i + 80 \<le> inode_off j \<or> inode_off j + 80 \<le> inode_off i"
proof -
  have "unat i div 51 < 2 ^ 32" "unat j div 51 < 2 ^ 32"
    using unsigned_less [of i, where ?'a = nat] unsigned_less [of j, where ?'a = nat] by (simp_all add: div_less_iff_less_mult)
  moreover have "(of_nat (unat i div 51) :: u32) = of_nat (unat j div 51)"
    using assms(1) by (simp only: inode_block_of_def add_right_cancel)
  ultimately have "unat i div 51 = unat j div 51" by (metis unat_of_nat_u32)
  then have "unat i mod 51 \<noteq> unat j mod 51"
    using assms(2) by (metis div_mult_mod_eq word_unat_eq_iff)
  then show ?thesis by (auto simp: inode_off_def)
qed

lemma write_inode_state:
  assumes "ino < nr_inodes (sbi s)" and "bread_ok E (inode_block_of ino)"
  shows "ouichefs_write_inode E ino s =
    (0, s\<lparr>cache := (cache s)(inode_block_of ino :=
          put_disk_inode (inodes s ino) (inode_off ino) (cache s (inode_block_of ino))),
        disk := (disk s)(inode_block_of ino :=
          put_disk_inode (inodes s ino) (inode_off ino) (cache s (inode_block_of ino))),
        dirty := dirty s - {inode_block_of ino}\<rparr>)"
  using assms by (simp add: ouichefs_write_inode_def Let_def sb_bread_def fs_defs not_le)

lemma write_inode_slots:
  assumes "ino < nr_inodes (sbi s)" and "bread_ok E (inode_block_of ino)"
    and "ouichefs_write_inode E ino s = (ret, s')" and "disk_fits (inodes s ino)"
  shows "get_disk_inode (disk s' (inode_block_of ino)) (inode_off ino) = inodes s ino"
    and "get_disk_inode (cache s' (inode_block_of ino)) (inode_off ino) = inodes s ino"
    and "j \<noteq> ino \<Longrightarrow> get_disk_inode (cache s' (inode_block_of j)) (inode_off j) =
      get_disk_inode (cache s (inode_block_of j)) (inode_off j)"
proof -
  have s': "cache s' = (cache s)(inode_block_of ino :=
        put_disk_inode (inodes s ino) (inode_off ino) (cache s (inode_block_of ino)))"
      "disk s' (inode_block_of ino) = put_disk_inode (inodes s ino) (inode_off ino) (cache s (inode_block_of ino))"
    using assms(3) write_inode_state [OF assms(1,2)] by auto
  show "get_disk_inode (disk s' (inode_block_of ino)) (inode_off ino) = inodes s ino"
    "get_disk_inode (cache s' (inode_block_of ino)) (inode_off ino) = inodes s ino"
    using disk_inode_roundtrip [OF assms(4)] by (simp_all add: s')
  show "get_disk_inode (cache s' (inode_block_of j)) (inode_off j) =
      get_disk_inode (cache s (inode_block_of j)) (inode_off j)" if "j \<noteq> ino"
  proof (cases "inode_block_of j = inode_block_of ino")
    case True
    then show ?thesis
      using inode_slots_disjoint [OF True that]
      by (auto simp: s' intro!: get_disk_inode_cong put_disk_inode_outside)
  qed (simp add: s')
qed

lemma iget_loads:
  assumes "ino < nr_inodes (sbi s)" and "bread_ok E (inode_block_of ino)" and "iget_ok E ino" and "ino \<notin> icached s"
  shows "ouichefs_iget E ino s = (Inr ino,
    s\<lparr>inodes := (inodes s)(ino := get_disk_inode (cache s (inode_block_of ino)) (inode_off ino)),
      icached := insert ino (icached s)\<rparr>)"
  using assms by (simp add: ouichefs_iget_def Let_def sb_bread_def fs_defs not_le)

lemma iget_total:
  assumes "ino < nr_inodes (sbi s)" and "iget_ok E ino" and "bread_ok E (inode_block_of ino)"
  shows "\<exists>t. ouichefs_iget E ino s = (Inr ino, t) \<and> sbi t = sbi s \<and> cache t = cache s \<and> refs t = refs s \<and>
    ino \<in> icached t \<and> dirty t = dirty s \<and> disk t = disk s \<and> (\<forall>j. j \<noteq> ino \<longrightarrow> inodes t j = inodes s j)"
proof (cases "ino \<in> icached s")
  case True
  then show ?thesis using assms by (simp add: ouichefs_iget_def Let_def not_le)
next
  case False
  then show ?thesis using iget_loads [OF assms(1,3,2) False] by simp
qed

section \<open>Sync and mount\<close>

definition bitmap_block :: "u32 \<Rightarrow> nat \<Rightarrow> u32" where
  "bitmap_block base k = base + of_nat k + 1"

lemma bitmap_block_inj:
  assumes "unat base + k + 1 < 2 ^ 32" and "unat base' + l + 1 < 2 ^ 32"
  shows "bitmap_block base k = bitmap_block base' l \<longleftrightarrow> unat base + k = unat base' + l"
    and "bitmap_block base k \<noteq> 0"
proof -
  have u: "unat (bitmap_block b k) = unat b + k + 1" if "unat b + k + 1 < 2 ^ 32" for b k
  proof -
    have "bitmap_block b k = of_nat (unat b + k + 1)" by (simp add: bitmap_block_def)
    then show ?thesis using that by (simp only: unat_of_nat_u32)
  qed
  show "bitmap_block base k = bitmap_block base' l \<longleftrightarrow> unat base + k = unat base' + l"
    using u [OF assms(1)] u [OF assms(2)] by (simp add: word_unat_eq_iff)
  show "bitmap_block base k \<noteq> 0" using u [OF assms(1)] by auto
qed

text \<open>What a flush of \<open>n\<close> bitmap blocks from the \<open>i\<close>-th on leaves behind.\<close>

definition bitmap_flushed :: "bool \<Rightarrow> u32 \<Rightarrow> bitmap \<Rightarrow> nat \<Rightarrow> nat \<Rightarrow> fs \<Rightarrow> fs \<Rightarrow> bool" where
  "bitmap_flushed wait base m i n s s' \<longleftrightarrow>
     (\<forall>k l. i \<le> k \<and> k < i + n \<and> l < 512 \<longrightarrow> get64 (cache s' (bitmap_block base k)) (8 * l) = m (512 * k + l)) \<and>
     (\<forall>b. (\<forall>k. i \<le> k \<and> k < i + n \<longrightarrow> b \<noteq> bitmap_block base k) \<longrightarrow>
        cache s' b = cache s b \<and> disk s' b = disk s b) \<and>
     (wait \<longrightarrow> (\<forall>k. i \<le> k \<and> k < i + n \<longrightarrow> disk s' (bitmap_block base k) = cache s' (bitmap_block base k))) \<and>
     sbi s' = sbi s \<and> inodes s' = inodes s \<and> refs s' = refs s"

lemma flush_simps:
  "cache (flush wait b (hold b (buf_upd b f s))) = (cache s)(b := f (cache s b))"
  "disk (flush wait b (hold b (buf_upd b f s))) = (if wait then (disk s)(b := f (cache s b)) else disk s)"
  "sbi (flush wait b (hold b (buf_upd b f s))) = sbi s"
  "inodes (flush wait b (hold b (buf_upd b f s))) = inodes s"
  "refs (flush wait b (hold b (buf_upd b f s))) = refs s"
  by (simp_all add: flush_def fs_defs hold_def)

lemma buf_upd_hold: "buf_upd b f (hold c s) = hold c (buf_upd b f s)"
  by (simp add: buf_upd_def hold_def)

lemma sync_bitmap_flushed:
  assumes "unat base + i + n < 2 ^ 32" and "\<forall>k. i \<le> k \<and> k < i + n \<longrightarrow> bread_ok E (bitmap_block base k)"
  shows "\<exists>s'. sync_bitmap E wait base m i n s = (0, s') \<and> bitmap_flushed wait base m i n s s'"
  using assms
proof (induction n arbitrary: i s)
  case 0
  then show ?case by (auto simp: bitmap_flushed_def)
next
  case (Suc n)
  let ?b = "bitmap_block base i"
  let ?t = "flush wait ?b (hold ?b (buf_upd ?b (\<lambda>d. copy_bitmap_to_le64 d m (512 * i)) s))"
  obtain s' where IH: "sync_bitmap E wait base m (Suc i) n ?t = (0, s')" "bitmap_flushed wait base m (Suc i) n ?t s'"
    using Suc.IH [of "Suc i" ?t] Suc.prems by auto
  have rd: "bread_ok E ?b" using Suc.prems(2) by simp
  have "sync_bitmap E wait base m i (Suc n) s = (0, s')"
    using IH(1) rd by (simp add: sb_bread_hold buf_upd_hold bitmap_block_def Let_def)
  moreover have ne: "?b \<noteq> bitmap_block base k" if "Suc i \<le> k" "k < Suc i + n" for k
    using bitmap_block_inj(1) [of base i base k] Suc.prems(1) that by simp
  note B = IH(2) [unfolded bitmap_flushed_def flush_simps]
  have b: "cache s' ?b = copy_bitmap_to_le64 (cache s ?b) m (512 * i)" "wait \<longrightarrow> disk s' ?b = cache s' ?b"
    using B ne by auto
  have "bitmap_flushed wait base m i (Suc n) s s'"
    unfolding bitmap_flushed_def
  proof (intro conjI allI impI)
    fix k l :: nat assume k: "i \<le> k \<and> k < i + Suc n \<and> l < 512"
    show "get64 (cache s' (bitmap_block base k)) (8 * l) = m (512 * k + l)"
      using B k b(1) copy_bitmap_to_le64_get [of l] by (cases "k = i") auto
  next
    fix c assume c: "\<forall>k. i \<le> k \<and> k < i + Suc n \<longrightarrow> c \<noteq> bitmap_block base k"
    then have "c \<noteq> ?b" "\<forall>k. Suc i \<le> k \<and> k < Suc i + n \<longrightarrow> c \<noteq> bitmap_block base k" by auto
    then show "cache s' c = cache s c" "disk s' c = disk s c" using B by auto
  next
    fix k assume w: wait and k: "i \<le> k \<and> k < i + Suc n"
    show "disk s' (bitmap_block base k) = cache s' (bitmap_block base k)"
      using B b(2) w k by (cases "k = i") auto
  qed (use B in auto)
  ultimately show ?case by blast
qed

lemma load_bitmap_loads:
  assumes "\<forall>k. i \<le> k \<and> k < i + n \<longrightarrow> bread_ok E (bitmap_block base k)" and "(i + n) * 4096 \<le> sz"
  shows "load_bitmap E base sz i n m s =
    Inr (0, \<lambda>j. if 512 * i \<le> j \<and> j < 512 * (i + n) then get64 (cache s (bitmap_block base (j div 512))) (8 * (j mod 512)) else m j, s)"
  using assms
proof (induction n arbitrary: i m)
  case 0
  then show ?case by (auto simp: fun_eq_iff)
next
  case (Suc n)
  let ?b = "bitmap_block base i"
  let ?m = "copy_bitmap_from_le64 m (512 * i) (cache s ?b)"
  have "load_bitmap E base sz i (Suc n) m s = load_bitmap E base sz (Suc i) n ?m s"
    using Suc.prems by (simp add: sb_bread_hold bitmap_block_def Let_def)
  also have "\<dots> = Inr (0, \<lambda>j. if 512 * Suc i \<le> j \<and> j < 512 * (Suc i + n)
      then get64 (cache s (bitmap_block base (j div 512))) (8 * (j mod 512)) else ?m j, s)"
    using Suc.prems by (intro Suc.IH) auto
  also have "(\<lambda>j. if 512 * Suc i \<le> j \<and> j < 512 * (Suc i + n)
      then get64 (cache s (bitmap_block base (j div 512))) (8 * (j mod 512)) else ?m j) =
    (\<lambda>j. if 512 * i \<le> j \<and> j < 512 * (i + Suc n)
      then get64 (cache s (bitmap_block base (j div 512))) (8 * (j mod 512)) else m j)"
  proof
    fix j
    have "j div 512 = i \<and> j mod 512 = j - 512 * i" if "512 * i \<le> j" "j < 512 * i + 512"
      using that div_nat_eqI [of 512 i j] by (auto simp: minus_mod_eq_mult_div [symmetric] modulo_nat_def)
    then show "(if 512 * Suc i \<le> j \<and> j < 512 * (Suc i + n)
      then get64 (cache s (bitmap_block base (j div 512))) (8 * (j mod 512)) else ?m j) =
    (if 512 * i \<le> j \<and> j < 512 * (i + Suc n)
      then get64 (cache s (bitmap_block base (j div 512))) (8 * (j mod 512)) else m j)"
      by (auto simp: copy_bitmap_from_le64_apply)
  qed
  finally show ?case .
qed

lemma put_disk_sb_get:
  "get_disk_sb (put_disk_sb sb d) = sb\<lparr>magic := 0, ifree_bitmap := \<lambda>_. 0, bfree_bitmap := \<lambda>_. 0\<rparr>"
  "get32 (put_disk_sb sb d) 0 = get32 d 0"
  by (simp_all add: get_disk_sb_def put_disk_sb_def Let_def block_simps)

text \<open>The superblock, the inode store and the bitmap blocks have numbers of 32 bits and can be read.\<close>

definition layout_ok :: "env \<Rightarrow> sb_info \<Rightarrow> bool" where
  "layout_ok E sb \<longleftrightarrow>
     unat (nr_istore_blocks sb) + unat (nr_ifree_blocks sb) + unat (nr_bfree_blocks sb) + 1 < 2 ^ 32 \<and>
     unat (nr_ifree_blocks sb) < 2 ^ 20 \<and> unat (nr_bfree_blocks sb) < 2 ^ 20 \<and>
     bread_ok E 0 \<and>
     (\<forall>k < unat (nr_ifree_blocks sb). bread_ok E (bitmap_block (nr_istore_blocks sb) k)) \<and>
     (\<forall>k < unat (nr_bfree_blocks sb). bread_ok E (bitmap_block (nr_istore_blocks sb + nr_ifree_blocks sb) k))"

lemma layout_bases:
  assumes "layout_ok E sb"
  shows "unat (nr_istore_blocks sb + nr_ifree_blocks sb) = unat (nr_istore_blocks sb) + unat (nr_ifree_blocks sb)"
    and "unat (nr_ifree_blocks sb * 4096) = unat (nr_ifree_blocks sb) * 4096"
    and "unat (nr_bfree_blocks sb * 4096) = unat (nr_bfree_blocks sb) * 4096"
  using assms by (simp_all add: layout_ok_def unat_word_ariths)

text \<open>The image a sync leaves on disk.\<close>

definition synced :: "fs \<Rightarrow> (u32 \<Rightarrow> block) \<Rightarrow> bool" where
  "synced s c \<longleftrightarrow>
     (let sb = sbi s in
      get_disk_sb (c 0) = sb\<lparr>magic := 0, ifree_bitmap := \<lambda>_. 0, bfree_bitmap := \<lambda>_. 0\<rparr> \<and>
      get32 (c 0) 0 = get32 (cache s 0) 0 \<and>
      (\<forall>k l. k < unat (nr_ifree_blocks sb) \<and> l < 512 \<longrightarrow>
         get64 (c (bitmap_block (nr_istore_blocks sb) k)) (8 * l) = ifree_bitmap sb (512 * k + l)) \<and>
      (\<forall>k l. k < unat (nr_bfree_blocks sb) \<and> l < 512 \<longrightarrow>
         get64 (c (bitmap_block (nr_istore_blocks sb + nr_ifree_blocks sb) k)) (8 * l) = bfree_bitmap sb (512 * k + l)))"

lemma sync_fs_synced:
  assumes lay: "layout_ok E (sbi s)"
  shows "\<exists>s'. ouichefs_sync_fs E wait s = (0, s') \<and> synced s (cache s') \<and> (wait \<longrightarrow> synced s (disk s')) \<and>
    sbi s' = sbi s \<and> inodes s' = inodes s \<and> refs s' = refs s"
proof -
  let ?sb = "sbi s"
  let ?ib = "nr_istore_blocks ?sb" and ?bb = "nr_istore_blocks ?sb + nr_ifree_blocks ?sb"
  let ?in = "unat (nr_ifree_blocks ?sb)" and ?bn = "unat (nr_bfree_blocks ?sb)"
  note L = lay [unfolded layout_ok_def] and B = layout_bases [OF lay]
  let ?sa = "flush wait 0 (hold 0 (buf_upd 0 (put_disk_sb ?sb) s))"
  have h1: "sync_sb_info E wait s = (0, ?sa)"
    using L by (simp add: sync_sb_info_def sb_bread_hold buf_upd_hold)
  note S1 = flush_simps [of wait 0 "put_disk_sb ?sb" s]
  obtain s2 where h2: "sync_ifree E wait ?sa = (0, s2)" and F2: "bitmap_flushed wait ?ib (ifree_bitmap ?sb) 0 ?in ?sa s2"
    using sync_bitmap_flushed [of ?ib 0 ?in E wait "ifree_bitmap ?sb" ?sa] L by (auto simp: sync_ifree_def S1)
  note F2 = F2 [unfolded bitmap_flushed_def S1]
  have sb2: "sbi s2 = ?sb" using F2 by simp
  obtain s3 where h3: "sync_bfree E wait s2 = (0, s3)" and F3: "bitmap_flushed wait ?bb (bfree_bitmap ?sb) 0 ?bn s2 s3"
    using sync_bitmap_flushed [of ?bb 0 ?bn E wait "bfree_bitmap ?sb" s2] L B(1) by (auto simp: sync_bfree_def sb2)
  note F3 = F3 [unfolded bitmap_flushed_def]
  have h: "ouichefs_sync_fs E wait s = (0, s3)" by (simp add: ouichefs_sync_fs_def h1 h2 h3)
  have inz: "bitmap_block ?ib k \<noteq> 0" if "k < ?in" for k
    using bitmap_block_inj(2) [of ?ib k ?ib k] L that by simp
  have bnz: "bitmap_block ?bb k \<noteq> 0" if "k < ?bn" for k
    using bitmap_block_inj(2) [of ?bb k ?bb k] L B(1) that by simp
  have dis: "bitmap_block ?ib k \<noteq> bitmap_block ?bb l" if "k < ?in" "l < ?bn" for k l
    using bitmap_block_inj(1) [of ?ib k ?bb l] L B(1) that by simp
  have z: "cache s3 0 = put_disk_sb ?sb (cache s 0)" "wait \<longrightarrow> disk s3 0 = cache s3 0"
    using F2 F3 inz bnz by (auto simp: S1)
  have i: "cache s3 (bitmap_block ?ib k) = cache s2 (bitmap_block ?ib k)"
    "wait \<longrightarrow> disk s3 (bitmap_block ?ib k) = cache s3 (bitmap_block ?ib k)" if "k < ?in" for k
    using F2 F3 dis that by auto
  have "synced s (cache s3)"
    using F2 F3 z(1) i(1) by (simp add: synced_def Let_def put_disk_sb_get)
  moreover have "synced s (disk s3)" if wait
    using \<open>synced s (cache s3)\<close> that z(2) i(2) F3 by (simp add: synced_def Let_def)
  moreover have "sbi s3 = sbi s" "inodes s3 = inodes s" "refs s3 = refs s" using F2 F3 by auto
  ultimately show ?thesis using h by blast
qed

text \<open>Mounting such an image gives back the superblock, with the bitmaps of its bitmap blocks.\<close>

definition remounted :: "sb_info \<Rightarrow> sb_info \<Rightarrow> bool" where
  "remounted sb sb' \<longleftrightarrow>
     nr_blocks sb' = nr_blocks sb \<and> nr_inodes sb' = nr_inodes sb \<and> nr_istore_blocks sb' = nr_istore_blocks sb \<and>
     nr_ifree_blocks sb' = nr_ifree_blocks sb \<and> nr_bfree_blocks sb' = nr_bfree_blocks sb \<and>
     nr_sliced_blocks sb' = nr_sliced_blocks sb \<and> nr_free_inodes sb' = nr_free_inodes sb \<and>
     nr_free_blocks sb' = nr_free_blocks sb \<and> nr_used_slices sb' = nr_used_slices sb \<and>
     s_free_sliced_blocks sb' = s_free_sliced_blocks sb \<and>
     (\<forall>j < 512 * unat (nr_ifree_blocks sb). ifree_bitmap sb' j = ifree_bitmap sb j) \<and>
     (\<forall>j < 512 * unat (nr_bfree_blocks sb). bfree_bitmap sb' j = bfree_bitmap sb j)"

lemma fill_super_remounted:
  assumes sy: "synced s (cache r)" and lay: "layout_ok E (sbi s)"
    and mg: "get32 (cache s 0) 0 = OUICHEFS_MAGIC" and mem: "kmalloc_ok E = (\<lambda>_. True)"
    and root: "1 < nr_inodes (sbi s)" "iget_ok E 1" "bread_ok E (inode_block_of 1)"
  shows "\<exists>t. ouichefs_fill_super E n init True 0 r = Inr (0, t) \<and> remounted (sbi s) (sbi t) \<and>
    cache t = cache r \<and> refs t = refs r \<and>
    (1 \<notin> icached r \<longrightarrow> inodes t 1 = init (get_disk_inode (cache r (inode_block_of 1)) (inode_off 1)))"
proof -
  let ?sb = "sbi s" and ?dsb = "get_disk_sb (cache r 0)"
  let ?ib = "nr_istore_blocks ?sb" and ?bb = "nr_istore_blocks ?sb + nr_ifree_blocks ?sb"
  let ?in = "unat (nr_ifree_blocks ?sb)" and ?bn = "unat (nr_bfree_blocks ?sb)"
  note L = lay [unfolded layout_ok_def] and B = layout_bases [OF lay] and S = sy [unfolded synced_def Let_def]
  have dsb: "?dsb = ?sb\<lparr>magic := 0, ifree_bitmap := \<lambda>_. 0, bfree_bitmap := \<lambda>_. 0\<rparr>" using S by simp
  let ?mi = "\<lambda>j. if j < 512 * ?in then get64 (cache r (bitmap_block ?ib (j div 512))) (8 * (j mod 512)) else 0"
  let ?mb = "\<lambda>j. if j < 512 * ?bn then get64 (cache r (bitmap_block ?bb (j div 512))) (8 * (j mod 512)) else 0"
  have li: "load_bitmap E ?ib (unat (nr_ifree_blocks ?sb * 4096)) 0 ?in (\<lambda>_. 0) u = Inr (0, ?mi, u)" if "cache u = cache r" for u
    unfolding that [symmetric]
    using load_bitmap_loads [of 0 ?in E ?ib "unat (nr_ifree_blocks ?sb * 4096)" "\<lambda>_. 0" u] L B(2) by simp
  have lb: "load_bitmap E ?bb (unat (nr_bfree_blocks ?sb * 4096)) 0 ?bn (\<lambda>_. 0) u = Inr (0, ?mb, u)" if "cache u = cache r" for u
    unfolding that [symmetric]
    using load_bitmap_loads [of 0 ?bn E ?bb "unat (nr_bfree_blocks ?sb * 4096)" "\<lambda>_. 0" u] L B(3) by simp
  let ?sa = "r\<lparr>sbi := ?dsb\<rparr>" and ?sc = "r\<lparr>sbi := ?dsb\<lparr>ifree_bitmap := ?mi\<rparr>\<rparr>"
  let ?sd = "r\<lparr>sbi := ?dsb\<lparr>ifree_bitmap := ?mi, bfree_bitmap := ?mb\<rparr>\<rparr>"
  have b0: "brelse 0 (hold 0 r\<lparr>sbi := x\<rparr>) = r\<lparr>sbi := x\<rparr>" for x by (simp add: brelse_def hold_def)
  obtain t where t: "ouichefs_iget E 1 ?sd = (Inr 1, t)" "sbi t = sbi ?sd" "cache t = cache r" "refs t = refs r"
    using iget_total [of 1 ?sd E] root by (auto simp: dsb)
  have ld: "inodes t 1 = get_disk_inode (cache r (inode_block_of 1)) (inode_off 1)" if "1 \<notin> icached r"
    using iget_loads [of 1 ?sd E] root that t(1) by (auto simp: dsb)
  have "ouichefs_fill_super E n init True 0 r = Inr (0, upd_inode 1 init t)"
    using L S mg t(1)
    unfolding ouichefs_fill_super_def Let_def
    by (simp add: sb_bread_hold mem b0 dsb li lb)
  moreover have div512: "j div 512 < k \<and> j mod 512 < 512 \<and> 512 * (j div 512) + j mod 512 = j" if "j < 512 * k" for j k :: nat
    using that by (simp add: less_mult_imp_div_less mult.commute)
  have "get64 (cache r (bitmap_block ?ib (j div 512))) (8 * (j mod 512)) = ifree_bitmap ?sb j" if "j < 512 * ?in" for j
    using S div512 [OF that] by metis
  moreover have "get64 (cache r (bitmap_block ?bb (j div 512))) (8 * (j mod 512)) = bfree_bitmap ?sb j" if "j < 512 * ?bn" for j
    using S div512 [OF that] by metis
  ultimately show ?thesis
    using t ld by (intro exI [of _ "upd_inode 1 init t"]) (simp add: remounted_def upd_inode_def dsb)
qed

lemma remounted_pool:
  assumes "remounted sb sb'" and "unat (nr_blocks sb) \<le> 32768 * unat (nr_bfree_blocks sb)"
  shows "free_blocks sb' = free_blocks sb" and "0 < nr_bfree_blocks sb \<Longrightarrow> block_pool sb' = block_pool sb"
proof -
  have nb: "nr_blocks sb' = nr_blocks sb" "nr_free_blocks sb' = nr_free_blocks sb" using assms(1) by (auto simp: remounted_def)
  have "test_bit (bfree_bitmap sb') k = test_bit (bfree_bitmap sb) k" if "k < 32768 * unat (nr_bfree_blocks sb)" for k
  proof -
    have "k div 64 < 512 * unat (nr_bfree_blocks sb)" using that by (simp add: div_less_iff_less_mult)
    then show ?thesis using assms(1) by (simp add: remounted_def test_bit_def)
  qed
  note tb = this
  have fb: "free_bits (bfree_bitmap sb') (unat (nr_blocks sb)) = free_bits (bfree_bitmap sb) (unat (nr_blocks sb))"
    using tb assms(2) by (auto simp: free_bits_def)
  then show "free_blocks sb' = free_blocks sb" by (simp add: free_blocks_def nb)
  show "block_pool sb' = block_pool sb" if "0 < nr_bfree_blocks sb"
    using tb [of 0] that fb by (simp add: block_pool_def bitmap_pool_def nb word_less_nat_alt)
qed

end
