(* ===== verification/Ouiche_Dir.thy ===== *)
theory Ouiche_Dir
  imports Ouiche_Super
begin

text \<open>
  Directories and inodes, from \<^verbatim>\<open>src/inode.c\<close> and \<^verbatim>\<open>src/dir.c\<close>: lookup, creation of files and
  directories, unlink, rename, mkdir, rmdir and the listing of a directory.

  A directory is one block of 128 entries of 32 bytes, an inode number and a name of at most 28
  bytes.  A name is a list of non-zero bytes; in C it ends with a zero byte.  The functions of the
  dentry cache (\<^verbatim>\<open>d_add\<close>, \<^verbatim>\<open>d_instantiate\<close>) act outside this state; \<^verbatim>\<open>inode_init_owner\<close> is a
  parameter.
\<close>

section \<open>Strings of the C library\<close>

definition cstr :: "u8 list \<Rightarrow> nat \<Rightarrow> u8" where
  "cstr nm k = (if k < length nm then nm ! k else 0)"

text \<open>\<^verbatim>\<open>strncmp(a, b, n) == 0\<close>, from position \<open>k\<close> on.\<close>

primrec strncmp_eq :: "(nat \<Rightarrow> u8) \<Rightarrow> (nat \<Rightarrow> u8) \<Rightarrow> nat \<Rightarrow> nat \<Rightarrow> bool" where
  "strncmp_eq a b k 0 = True"
| "strncmp_eq a b k (Suc n) = (a k = b k \<and> (a k = 0 \<or> strncmp_eq a b (Suc k) n))"

text \<open>\<^verbatim>\<open>strscpy(dst, src, n)\<close>: at most \<open>n - 1\<close> bytes and the zero byte.  The bytes behind it
  keep their values; the kernel may copy word by word and clear the rest of the last word, which no
  reader of a name looks at.\<close>

definition strscpy :: "block \<Rightarrow> nat \<Rightarrow> u8 list \<Rightarrow> nat \<Rightarrow> block" where
  "strscpy d off nm n = memcpy d off (take (n - 1) nm @ [0])"

definition memmove :: "block \<Rightarrow> nat \<Rightarrow> nat \<Rightarrow> nat \<Rightarrow> block" where
  "memmove d dst src n = memcpy d dst (bytes_at d src n)"

section \<open>Directory blocks\<close>

text \<open>\<^verbatim>\<open>files[i].inode\<close> and \<^verbatim>\<open>files[i].filename\<close>.\<close>

definition dir_ino :: "block \<Rightarrow> nat \<Rightarrow> u32" where
  "dir_ino d i = get32 d (32 * i)"

definition dir_name :: "block \<Rightarrow> nat \<Rightarrow> nat \<Rightarrow> u8" where
  "dir_name d i = (\<lambda>k. d (32 * i + 4 + k))"

definition dir_set_ino :: "nat \<Rightarrow> u32 \<Rightarrow> block \<Rightarrow> block" where
  "dir_set_ino i ino d = put32 ino (32 * i) d"

definition dir_set_name :: "nat \<Rightarrow> u8 list \<Rightarrow> block \<Rightarrow> block" where
  "dir_set_name i nm d = strscpy d (32 * i + 4) nm OUICHEFS_FILENAME_LEN"

definition name_matches :: "block \<Rightarrow> nat \<Rightarrow> u8 list \<Rightarrow> bool" where
  "name_matches d i nm \<longleftrightarrow> strncmp_eq (dir_name d i) (cstr nm) 0 OUICHEFS_FILENAME_LEN"

definition S_ISDIR :: "u32 \<Rightarrow> bool" where
  "S_ISDIR mode \<longleftrightarrow> mode AND 0xF000 = 0x4000"

definition S_ISREG :: "u32 \<Rightarrow> bool" where
  "S_ISREG mode \<longleftrightarrow> mode AND 0xF000 = 0x8000"

definition inode_inc_link_count :: "u32 \<Rightarrow> fs \<Rightarrow> fs" where
  "inode_inc_link_count i s = mark_inode_dirty i (upd_inode i (\<lambda>nd. nd\<lparr>i_nlink := i_nlink nd + 1\<rparr>) s)"

definition inode_dec_link_count :: "u32 \<Rightarrow> fs \<Rightarrow> fs" where
  "inode_dec_link_count i s = mark_inode_dirty i (upd_inode i (\<lambda>nd. nd\<lparr>i_nlink := i_nlink nd - 1\<rparr>) s)"

section \<open>Lookup\<close>

text \<open>The loop over the entries \<open>i, \<dots>, i + n - 1\<close>: the inode number of the first match before
  the first free entry.\<close>

primrec lookup_loop :: "block \<Rightarrow> u8 list \<Rightarrow> nat \<Rightarrow> nat \<Rightarrow> u32 option" where
  "lookup_loop d nm i 0 = None"
| "lookup_loop d nm i (Suc n) =
     (if dir_ino d i = 0 then None
      else if name_matches d i nm then Some (dir_ino d i)
      else lookup_loop d nm (Suc i) n)"

text \<open>The result is an error or the inode added to the dentry.  An error pointer of
  \<^verbatim>\<open>ouichefs_iget\<close> is handed to \<^verbatim>\<open>d_add\<close>, which dereferences it.\<close>

definition ouichefs_lookup :: "env \<Rightarrow> u32 \<Rightarrow> u8 list \<Rightarrow> fs \<Rightarrow> ((int + u32 option) \<times> fs) res" where
  "ouichefs_lookup E dir nm s =
     (if length nm > OUICHEFS_FILENAME_LEN then Inr (Inl (- ENAMETOOLONG), s)
      else
        let ib = index_block (inodes s dir) in
        case sb_bread E ib s of
          None \<Rightarrow> Inr (Inl (- EIO), s)
        | Some s \<Rightarrow>
            (case lookup_loop (cache s ib) nm 0 OUICHEFS_MAX_SUBFILES of
               None \<Rightarrow> Inr (Inr None, brelse ib s)
             | Some ino \<Rightarrow>
                 (case ouichefs_iget E ino s of
                    (Inl err, s) \<Rightarrow> Inl NullDeref
                  | (Inr i, s) \<Rightarrow> Inr (Inr (Some i), brelse ib s))))"

section \<open>Creation\<close>

text \<open>The stores into a new inode, with its index block \<open>bno\<close>.\<close>

definition init_new_node ::
  "env \<Rightarrow> (inode \<Rightarrow> u32 \<Rightarrow> inode \<Rightarrow> inode) \<Rightarrow> inode \<Rightarrow> u32 \<Rightarrow> u32 \<Rightarrow> inode \<Rightarrow> inode" where
  "init_new_node E inode_init_owner dir mode bno nd =
     (let nd = nd\<lparr>index_block := bno, num_slices := 0\<rparr>;
          nd = inode_init_owner dir mode nd;
          nd = nd\<lparr>i_blocks := 0\<rparr>;
          nd = (if S_ISDIR mode then nd\<lparr>i_size := OUICHEFS_BLOCK_SIZE, i_blocks := 1\<rparr>
                else if S_ISREG mode then nd\<lparr>i_size := 0\<rparr> else nd)
      in nd\<lparr>i_nlink := 1, i_ctime := current_time E, i_atime := current_time E, i_mtime := current_time E\<rparr>)"

definition ouichefs_new_inode ::
  "env \<Rightarrow> (inode \<Rightarrow> u32 \<Rightarrow> inode \<Rightarrow> inode) \<Rightarrow> u32 \<Rightarrow> u32 \<Rightarrow> fs \<Rightarrow> (int + u32) \<times> fs" where
  "ouichefs_new_inode E inode_init_owner dir mode s =
     (if \<not> S_ISDIR mode \<and> \<not> S_ISREG mode then (Inl (- EINVAL), s)
      else if nr_free_inodes (sbi s) = 0 \<or> nr_free_blocks (sbi s) = 0 then (Inl (- ENOSPC), s)
      else
        let (ino, sb) = get_free_inode (sbi s); s = s\<lparr>sbi := sb\<rparr> in
        if ino = 0 then (Inl (- ENOSPC), s)
        else case ouichefs_iget E ino s of
          (Inl err, s) \<Rightarrow> (Inl err, upd_sbi (\<lambda>sb. put_inode sb ino) s)
        | (Inr _, s) \<Rightarrow>
            let (bno, s) = (if S_ISDIR mode then fs_get_free_block s else (0, s)) in
            if S_ISDIR mode \<and> bno = 0 then (Inl (- ENOSPC), upd_sbi (\<lambda>sb. put_inode sb ino) s)
            else
              (Inr ino, upd_inode ino (init_new_node E inode_init_owner (inodes s dir) mode bno) s))"

text \<open>\<^verbatim>\<open>for (i = 0; i < OUICHEFS_MAX_SUBFILES; i++) if (files[i].inode == 0) break;\<close>\<close>

primrec free_slot :: "block \<Rightarrow> nat \<Rightarrow> nat \<Rightarrow> nat" where
  "free_slot d i 0 = i"
| "free_slot d i (Suc n) = (if dir_ino d i = 0 then i else free_slot d (Suc i) n)"

definition ouichefs_create ::
  "env \<Rightarrow> (inode \<Rightarrow> u32 \<Rightarrow> inode \<Rightarrow> inode) \<Rightarrow> u32 \<Rightarrow> u8 list \<Rightarrow> u32 \<Rightarrow> fs \<Rightarrow> (int \<times> fs) res" where
  "ouichefs_create E inode_init_owner dir nm mode s =
     (if length nm > OUICHEFS_FILENAME_LEN then Inr (- ENAMETOOLONG, s)
      else
        let ib = index_block (inodes s dir) in
        case sb_bread E ib s of
          None \<Rightarrow> Inr (- EIO, s)
        | Some s \<Rightarrow>
            if dir_ino (cache s ib) (OUICHEFS_MAX_SUBFILES - 1) \<noteq> 0 then Inr (- EMLINK, brelse ib s)
            else case ouichefs_new_inode E inode_init_owner dir mode s of
              (Inl err, s) \<Rightarrow> Inr (err, brelse ib s)
            | (Inr ino, s) \<Rightarrow>
                let nb = index_block (inodes s ino);
                    scrubbed = (if S_ISDIR mode then
                        (case sb_bread E nb s of
                           None \<Rightarrow> None
                         | Some s \<Rightarrow> Some (brelse nb (mark_buffer_dirty nb
                                     (buf_upd nb (\<lambda>d. memset d 0 0 OUICHEFS_BLOCK_SIZE) s))))
                      else Some s)
                in case scrubbed of
                     None \<Rightarrow> Inr (- EIO, brelse ib (upd_sbi (\<lambda>sb. put_inode (put_block sb nb) ino) s))
                   | Some s \<Rightarrow>
                       let i = free_slot (cache s ib) 0 OUICHEFS_MAX_SUBFILES in
                       if i \<ge> OUICHEFS_MAX_SUBFILES then Inl OutOfBounds
                       else
                         let s = buf_upd ib (\<lambda>d. dir_set_name i nm (dir_set_ino i ino d)) s;
                             s = brelse ib (mark_buffer_dirty ib s);
                             s = mark_inode_dirty ino s;
                             s = upd_inode dir (\<lambda>nd. nd\<lparr>i_mtime := current_time E, i_ctime := current_time E\<rparr>) s;
                             s = (if S_ISDIR mode then inode_inc_link_count dir s else s)
                         in Inr (0, mark_inode_dirty dir s))"

definition ouichefs_mkdir ::
  "env \<Rightarrow> (inode \<Rightarrow> u32 \<Rightarrow> inode \<Rightarrow> inode) \<Rightarrow> u32 \<Rightarrow> u8 list \<Rightarrow> u32 \<Rightarrow> fs \<Rightarrow> (int \<times> fs) res" where
  "ouichefs_mkdir E inode_init_owner dir nm mode s =
     ouichefs_create E inode_init_owner dir nm (mode OR 0x4000) s"

section \<open>Removal\<close>

text \<open>The search of \<^verbatim>\<open>ouichefs_unlink\<close> for the entry of \<open>ino\<close>: the last matching entry before the
  first free one (\<open>None\<close> for \<^verbatim>\<open>f_id == -1\<close>), and the number of entries.\<close>

primrec scan_subs :: "block \<Rightarrow> u32 \<Rightarrow> nat option \<Rightarrow> nat \<Rightarrow> nat \<Rightarrow> nat option \<times> nat" where
  "scan_subs d ino f_id i 0 = (f_id, i)"
| "scan_subs d ino f_id i (Suc n) =
     (if dir_ino d i = ino then scan_subs d ino (Some i) (Suc i) n
      else if dir_ino d i = 0 then (f_id, i)
      else scan_subs d ino f_id (Suc i) n)"

text \<open>Closing the hole at \<open>f\<close> among \<open>n\<close> entries: the \<^verbatim>\<open>memmove\<close> and the \<^verbatim>\<open>memset\<close>.\<close>

definition remove_entry :: "nat \<Rightarrow> nat \<Rightarrow> block \<Rightarrow> block" where
  "remove_entry f n d =
     memset (if f \<noteq> OUICHEFS_MAX_SUBFILES - 1
             then memmove d (32 * f) (32 * (f + 1)) (32 * (n - f - 1)) else d)
       (32 * (n - 1)) 0 32"

text \<open>The loop over the blocks of a big file: clear each mapped block and give it back.\<close>

primrec unlink_blocks :: "env \<Rightarrow> u32 \<Rightarrow> nat \<Rightarrow> nat \<Rightarrow> fs \<Rightarrow> fs res" where
  "unlink_blocks E bno i 0 s = Inr s"
| "unlink_blocks E bno i (Suc n) s =
     (if i \<ge> OUICHEFS_BLOCK_SIZE div 4 then Inl OutOfBounds
      else
        let b = index_get (cache s bno) i in
        if b = 0 then unlink_blocks E bno (Suc i) n s
        else
          let s = (case sb_bread E b s of
                     None \<Rightarrow> s
                   | Some s \<Rightarrow> brelse b (mark_buffer_dirty b
                                (buf_upd b (\<lambda>d. memset d 0 0 OUICHEFS_BLOCK_SIZE) s)))
          in unlink_blocks E bno (Suc i) n (fs_put_block (index_get (cache s bno) i) s))"

text \<open>Label \<^verbatim>\<open>clean_inode\<close>.\<close>

definition clean_inode :: "u32 \<Rightarrow> u32 \<Rightarrow> bool \<Rightarrow> fs \<Rightarrow> fs" where
  "clean_inode ino bno small_file s =
     (let s = upd_inode ino (\<lambda>nd. nd\<lparr>i_blocks := 0, index_block := 0, i_size := 0, i_uid := 0, i_gid := 0,
                i_mode := 0, i_ctime := (0, 0), i_mtime := (0, 0), i_atime := (0, 0)\<rparr>) s;
          s = mark_inode_dirty ino (inode_dec_link_count ino s);
          s = (if bno \<noteq> 0 \<and> \<not> small_file then fs_put_block bno s else s)
      in upd_sbi (\<lambda>sb. put_inode sb ino) s)"

text \<open>What \<^verbatim>\<open>ouichefs_unlink\<close> does with the inode once its entry is gone.\<close>

definition release_inode :: "env \<Rightarrow> nat \<Rightarrow> u32 \<Rightarrow> u32 \<Rightarrow> fs \<Rightarrow> (int \<times> fs) res" where
  "release_inode E fuel ino bno s =
     (let is_dir = S_ISDIR (i_mode (inodes s ino));
          small_file = (i_blocks (inodes s ino) = 0 \<and> \<not> is_dir)
      in if small_file then
           (case delete_slice_and_clear_inode E fuel ino s of
              Inl f \<Rightarrow> Inl f
            | Inr (_, s) \<Rightarrow> Inr (0, clean_inode ino bno small_file s))
         else if bno = 0 then Inl KernelPanic
         else case sb_bread E bno s of
           None \<Rightarrow> Inr (0, clean_inode ino bno small_file s)
         | Some s \<Rightarrow>
             (case (if is_dir then Inr s
                    else unlink_blocks E bno 0 (unat (i_blocks (inodes s ino) - 1)) s) of
                Inl f \<Rightarrow> Inl f
              | Inr s \<Rightarrow>
                  let s = buf_upd bno (\<lambda>d. memset d 0 0 OUICHEFS_BLOCK_SIZE) s;
                      s = brelse bno (sync_dirty_buffer bno (mark_buffer_dirty bno s))
                  in Inr (0, clean_inode ino bno small_file s)))"

definition ouichefs_unlink :: "env \<Rightarrow> nat \<Rightarrow> u32 \<Rightarrow> u32 \<Rightarrow> fs \<Rightarrow> (int \<times> fs) res" where
  "ouichefs_unlink E fuel dir ino s =
     (let bno = index_block (inodes s ino); ib = index_block (inodes s dir) in
      case sb_bread E ib s of
        None \<Rightarrow> Inr (- EIO, s)
      | Some s \<Rightarrow>
          (case scan_subs (cache s ib) ino None 0 OUICHEFS_MAX_SUBFILES of
             (None, nr_subs) \<Rightarrow> Inl OutOfBounds
           | (Some f_id, nr_subs) \<Rightarrow>
               let s = brelse ib (mark_buffer_dirty ib (buf_upd ib (remove_entry f_id nr_subs) s));
                   s = upd_inode dir (\<lambda>nd. nd\<lparr>i_mtime := current_time E, i_ctime := current_time E\<rparr>) s;
                   s = (if S_ISDIR (i_mode (inodes s ino)) then inode_dec_link_count dir s else s)
               in release_inode E fuel ino bno (mark_inode_dirty dir s)))"

definition ouichefs_rmdir :: "env \<Rightarrow> nat \<Rightarrow> u32 \<Rightarrow> u32 \<Rightarrow> fs \<Rightarrow> (int \<times> fs) res" where
  "ouichefs_rmdir E fuel dir ino s =
     (if i_nlink (inodes s ino) > 2 then Inr (- ENOTEMPTY, s)
      else
        let nb = index_block (inodes s ino) in
        case sb_bread E nb s of
          None \<Rightarrow> Inr (- EIO, s)
        | Some s \<Rightarrow>
            if dir_ino (cache s nb) 0 \<noteq> 0 then Inr (- ENOTEMPTY, brelse nb s)
            else ouichefs_unlink E fuel dir ino (brelse nb s))"

section \<open>Rename\<close>

text \<open>The loop over the target directory: \<open>None\<close> when the new name exists, otherwise the last entry
  with the old name (searched only within one directory) and the first free entry.\<close>

primrec rename_scan ::
  "block \<Rightarrow> bool \<Rightarrow> u8 list \<Rightarrow> u8 list \<Rightarrow> nat option \<Rightarrow> nat option \<Rightarrow> nat \<Rightarrow> nat \<Rightarrow> (nat option \<times> nat option) option" where
  "rename_scan d same old new f_pos new_pos i 0 = Some (f_pos, new_pos)"
| "rename_scan d same old new f_pos new_pos i (Suc n) =
     (let f_pos = (if same \<and> name_matches d i old then Some i else f_pos) in
      if name_matches d i new then None
      else
        let new_pos = (if new_pos = None \<and> dir_ino d i = 0 then Some i else new_pos)
        in rename_scan d same old new f_pos new_pos (Suc i) n)"

text \<open>The removal from the old directory.  Its search, \<^verbatim>\<open>for (i = 0; OUICHEFS_MAX_SUBFILES; i++)\<close>, has
  no bound: on a full directory it reads past the block.\<close>

definition rename_remove :: "env \<Rightarrow> u32 \<Rightarrow> u32 \<Rightarrow> fs \<Rightarrow> (int \<times> fs) res" where
  "rename_remove E old_dir src s =
     (let ob = index_block (inodes s old_dir) in
      case sb_bread E ob s of
        None \<Rightarrow> Inr (- EIO, s)
      | Some s \<Rightarrow>
          (case scan_subs (cache s ob) src None 0 OUICHEFS_MAX_SUBFILES of
             (None, nr_subs) \<Rightarrow> Inl OutOfBounds
           | (Some f_id, nr_subs) \<Rightarrow>
               if nr_subs \<ge> OUICHEFS_MAX_SUBFILES then Inl OutOfBounds
               else
                 let s = brelse ob (mark_buffer_dirty ob (buf_upd ob (remove_entry f_id nr_subs) s));
                     s = upd_inode old_dir (\<lambda>nd. nd\<lparr>i_ctime := current_time E, i_mtime := current_time E\<rparr>) s;
                     s = (if S_ISDIR (i_mode (inodes s src)) then inode_dec_link_count old_dir s else s)
                 in Inr (0, mark_inode_dirty old_dir s)))"

definition ouichefs_rename ::
  "env \<Rightarrow> u32 \<Rightarrow> u8 list \<Rightarrow> u32 \<Rightarrow> u32 \<Rightarrow> u8 list \<Rightarrow> u32 \<Rightarrow> fs \<Rightarrow> (int \<times> fs) res" where
  "ouichefs_rename E old_dir old_nm src new_dir new_nm flags s =
     (if flags AND (2 OR 4) \<noteq> 0 then Inr (- EINVAL, s)
      else if length new_nm > OUICHEFS_FILENAME_LEN then Inr (- ENAMETOOLONG, s)
      else
        let nb = index_block (inodes s new_dir) in
        case sb_bread E nb s of
          None \<Rightarrow> Inr (- EIO, s)
        | Some s \<Rightarrow>
            (case rename_scan (cache s nb) (new_dir = old_dir) old_nm new_nm None None 0 OUICHEFS_MAX_SUBFILES of
               None \<Rightarrow> Inr (- EEXIST, brelse nb s)
             | Some (f_pos, new_pos) \<Rightarrow>
                 if old_dir = new_dir then
                   (case f_pos of
                      None \<Rightarrow> Inl OutOfBounds
                    | Some f \<Rightarrow> Inr (0, brelse nb (mark_buffer_dirty nb (buf_upd nb (dir_set_name f new_nm) s))))
                 else (case new_pos of
                   None \<Rightarrow> Inr (- EMLINK, brelse nb s)
                 | Some p \<Rightarrow>
                     let s = buf_upd nb (\<lambda>d. dir_set_name p new_nm (dir_set_ino p src d)) s;
                         s = brelse nb (mark_buffer_dirty nb s);
                         s = upd_inode new_dir (\<lambda>nd. nd\<lparr>i_atime := current_time E, i_ctime := current_time E,
                               i_mtime := current_time E\<rparr>) s;
                         s = (if S_ISDIR (i_mode (inodes s src)) then inode_inc_link_count new_dir s else s);
                         s = mark_inode_dirty new_dir s
                     in rename_remove E old_dir src s)))"

section \<open>Listing\<close>

text \<open>\<^verbatim>\<open>struct dir_context\<close>: the position, what was emitted, and how many more entries the caller
  takes.\<close>

record dir_context =
  ctx_pos :: nat
  ctx_out :: "(u8 list \<times> u32) list"
  ctx_room :: nat

text \<open>\<^verbatim>\<open>dir_emit\<close> of the kernel hands one entry to the caller and fails when the caller takes no more.\<close>

definition dir_emit :: "u8 list \<Rightarrow> u32 \<Rightarrow> dir_context \<Rightarrow> dir_context option" where
  "dir_emit nm ino c =
     (if ctx_room c = 0 then None
      else Some (c\<lparr>ctx_out := ctx_out c @ [(nm, ino)], ctx_room := ctx_room c - 1\<rparr>))"

text \<open>\<^verbatim>\<open>dir_emit_dots\<close> of the kernel: \<^verbatim>\<open>.\<close> at position 0 and \<^verbatim>\<open>..\<close> at position 1.\<close>

definition dir_emit_dots :: "u32 \<Rightarrow> u32 \<Rightarrow> dir_context \<Rightarrow> bool \<times> dir_context" where
  "dir_emit_dots ino parent c =
     (case (if ctx_pos c = 0 then map_option (ctx_pos_update (\<lambda>_. 1)) (dir_emit [46] ino c) else Some c) of
        None \<Rightarrow> (False, c)
      | Some c \<Rightarrow>
          (case (if ctx_pos c = 1 then map_option (ctx_pos_update (\<lambda>_. 2)) (dir_emit [46, 46] parent c) else Some c) of
             None \<Rightarrow> (False, c)
           | Some c \<Rightarrow> (True, c)))"

text \<open>The loop over the entries; the name is handed out with its fixed length.\<close>

primrec iterate_loop :: "block \<Rightarrow> nat \<Rightarrow> nat \<Rightarrow> dir_context \<Rightarrow> dir_context" where
  "iterate_loop d i 0 c = c"
| "iterate_loop d i (Suc n) c =
     (if dir_ino d i = 0 then c
      else case dir_emit (bytes_at d (32 * i + 4) OUICHEFS_FILENAME_LEN) (dir_ino d i) c of
             None \<Rightarrow> c
           | Some c \<Rightarrow> iterate_loop d (Suc i) n (c\<lparr>ctx_pos := ctx_pos c + 1\<rparr>))"

definition ouichefs_iterate ::
  "env \<Rightarrow> u32 \<Rightarrow> u32 \<Rightarrow> dir_context \<Rightarrow> fs \<Rightarrow> int \<times> dir_context \<times> fs" where
  "ouichefs_iterate E dir parent c s =
     (if \<not> S_ISDIR (i_mode (inodes s dir)) then (- ENOTDIR, c, s)
      else if ctx_pos c > OUICHEFS_MAX_SUBFILES + 2 then (0, c, s)
      else case dir_emit_dots dir parent c of
        (False, c) \<Rightarrow> (0, c, s)
      | (True, c) \<Rightarrow>
          let ib = index_block (inodes s dir) in
          (case sb_bread E ib s of
             None \<Rightarrow> (- EIO, c, s)
           | Some s \<Rightarrow>
               (0, iterate_loop (cache s ib) (ctx_pos c - 2) (OUICHEFS_MAX_SUBFILES - (ctx_pos c - 2)) c, brelse ib s)))"

end
