(* ===== verification/Ouiche_DirSpec.thy ===== *)
theory Ouiche_DirSpec
  imports Ouiche_Dir
begin

text \<open>
  What a directory block means: a list of entries (name, inode number) without repetition.  The
  locale \<open>directory\<close> is the contract the handlers of \<^verbatim>\<open>src/inode.c\<close> rely on when they search, add,
  remove and rename entries; it is interpreted on the block operations they perform.
\<close>

section \<open>The contract\<close>

locale directory =
  fixes entries :: "'d \<Rightarrow> ('n \<times> 'i) list"
    and inv :: "'d \<Rightarrow> bool"
    and ok :: "'n \<Rightarrow> bool"
    and used :: "'i \<Rightarrow> bool"
    and cap :: nat
    and find :: "'n \<Rightarrow> 'd \<Rightarrow> 'i option"
    and add :: "'n \<Rightarrow> 'i \<Rightarrow> 'd \<Rightarrow> 'd"
    and del :: "'i \<Rightarrow> 'd \<Rightarrow> 'd"
    and ren :: "'n \<Rightarrow> 'n \<Rightarrow> 'd \<Rightarrow> 'd"
  assumes names: "inv d \<Longrightarrow> distinct (map fst (entries d))"
    and inos: "inv d \<Longrightarrow> distinct (map snd (entries d))"
    and find: "inv d \<Longrightarrow> ok n \<Longrightarrow> find n d = map_of (entries d) n"
    and add: "inv d \<Longrightarrow> ok n \<Longrightarrow> used i \<Longrightarrow> n \<notin> fst ` set (entries d) \<Longrightarrow> i \<notin> snd ` set (entries d) \<Longrightarrow>
      length (entries d) < cap \<Longrightarrow> entries (add n i d) = entries d @ [(n, i)] \<and> inv (add n i d)"
    and del: "inv d \<Longrightarrow> i \<in> snd ` set (entries d) \<Longrightarrow>
      entries (del i d) = filter (\<lambda>e. snd e \<noteq> i) (entries d) \<and> inv (del i d)"
    and ren: "inv d \<Longrightarrow> ok m \<Longrightarrow> ok n \<Longrightarrow> n \<in> fst ` set (entries d) \<Longrightarrow> m \<notin> fst ` set (entries d) \<Longrightarrow>
      entries (ren n m d) = map (\<lambda>e. if fst e = n then (m, snd e) else e) (entries d) \<and> inv (ren n m d)"
begin

lemma find_add:
  assumes "inv d" "ok n" "used i" "n \<notin> fst ` set (entries d)" "i \<notin> snd ` set (entries d)"
    "length (entries d) < cap" "ok m"
  shows "find m (add n i d) = (if m = n then Some i else find m d)"
proof -
  have "map_of (entries d) n = None" using assms(4) by (simp add: map_of_eq_None_iff)
  then show ?thesis
    using add [OF assms(1-6)] assms(1,7) by (auto simp: find map_add_def split: option.split)
qed

lemma map_of_filter_snd:
  assumes "distinct (map fst es)"
  shows "map_of (filter (\<lambda>e. snd e \<noteq> i) es) m = (if map_of es m = Some i then None else map_of es m)"
  using assms
proof (induction es)
  case (Cons e es)
  have "map_of es (fst e) = None" "map_of (filter (\<lambda>e. snd e \<noteq> i) es) (fst e) = None"
    using Cons.prems by (auto simp: map_of_eq_None_iff)
  then show ?case using Cons by (cases e) auto
qed simp

lemma find_del:
  assumes "inv d" "i \<in> snd ` set (entries d)" "ok m"
  shows "find m (del i d) = (if find m d = Some i then None else find m d)"
  using del [OF assms(1,2)] assms(1,3) by (simp add: find names map_of_filter_snd)

lemma find_ren:
  assumes "inv d" "ok m" "ok n" "n \<in> fst ` set (entries d)" "m \<notin> fst ` set (entries d)" "ok k"
  shows "find k (ren n m d) = (if k = m then find n d else if k = n then None else find k d)"
proof -
  have mn: "m \<noteq> n" using assms(4,5) by auto
  have "map_of (map (\<lambda>e. if fst e = n then (m, snd e) else e) es) k =
      (if k = m then map_of es n else if k = n then None else map_of es k)"
    if "m \<notin> fst ` set es" for es :: "('n \<times> 'i) list"
    using that mn by (induction es) (auto simp: map_of_eq_None_iff)
  then show ?thesis
    using ren [OF assms(1-5)] assms by (simp add: find)
qed

lemma del_add:
  assumes "inv d" "ok n" "used i" "n \<notin> fst ` set (entries d)" "i \<notin> snd ` set (entries d)"
    "length (entries d) < cap"
  shows "entries (del i (add n i d)) = entries d"
proof -
  have "filter (\<lambda>e. snd e \<noteq> i) (entries d) = entries d"
    using assms(5) by (auto simp: filter_id_conv)
  then show ?thesis using del [of "add n i d" i] add [OF assms] by auto
qed

end

section \<open>Names\<close>

definition name_at :: "block \<Rightarrow> nat \<Rightarrow> u8 list" where
  "name_at d i = takeWhile (\<lambda>c. c \<noteq> 0) (bytes_at d (32 * i + 4) OUICHEFS_FILENAME_LEN)"

definition good_name :: "u8 list \<Rightarrow> bool" where
  "good_name nm \<longleftrightarrow> nm \<noteq> [] \<and> 0 \<notin> set nm \<and> length nm < OUICHEFS_FILENAME_LEN"

lemma strncmp_eq_iff:
  "strncmp_eq a b k n \<longleftrightarrow>
     takeWhile (\<lambda>c. c \<noteq> 0) (map a [k..<k + n]) = takeWhile (\<lambda>c. c \<noteq> 0) (map b [k..<k + n])"
proof (induction n arbitrary: k)
  case (Suc n)
  then show ?case using Suc.IH [of "Suc k"] by (simp add: upt_conv_Cons del: upt_Suc)
qed simp

lemma takeWhile_cstr:
  assumes "0 \<notin> set nm" and "length nm \<le> n"
  shows "takeWhile (\<lambda>c. c \<noteq> 0) (map (cstr nm) [0..<n]) = nm"
proof -
  have split: "map (cstr nm) [0..<n] = nm @ replicate (n - length nm) 0"
    using assms(2) by (intro nth_equalityI) (auto simp: cstr_def nth_append)
  have "\<forall>c \<in> set nm. c \<noteq> 0" using assms(1) by auto
  then show ?thesis by (simp add: split takeWhile_append takeWhile_replicate)
qed

lemma name_matches_iff:
  assumes "0 \<notin> set nm" and "length nm \<le> 28"
  shows "name_matches d i nm \<longleftrightarrow> name_at d i = nm"
proof -
  have "map (dir_name d i) [0..<28] = bytes_at d (32 * i + 4) 28"
    by (rule nth_equalityI) (simp_all add: dir_name_def)
  then show ?thesis
    using takeWhile_cstr [OF assms] by (simp add: name_matches_def strncmp_eq_iff name_at_def)
qed

section \<open>Entries of a block\<close>

definition dir_entries :: "block \<Rightarrow> (u8 list \<times> u32) list" where
  "dir_entries d = map (\<lambda>i. (name_at d i, dir_ino d i)) [0..<free_slot d 0 OUICHEFS_MAX_SUBFILES]"

definition dir_inv :: "block \<Rightarrow> bool" where
  "dir_inv d \<longleftrightarrow>
     (\<forall>e \<in> set (dir_entries d). good_name (fst e)) \<and>
     (\<forall>k < 4096. 32 * length (dir_entries d) \<le> k \<longrightarrow> d k = 0) \<and>
     distinct (map fst (dir_entries d)) \<and> distinct (map snd (dir_entries d))"

text \<open>The block holds the entries \<open>es\<close> and zeroes after them.\<close>

definition dir_rep :: "block \<Rightarrow> (u8 list \<times> u32) list \<Rightarrow> bool" where
  "dir_rep d es \<longleftrightarrow> length es \<le> 128 \<and>
     (\<forall>i < length es. name_at d i = fst (es ! i) \<and> dir_ino d i = snd (es ! i) \<and> snd (es ! i) \<noteq> 0) \<and>
     (\<forall>k < 4096. 32 * length es \<le> k \<longrightarrow> d k = 0)"

lemma free_slot_range: "i \<le> free_slot d i n \<and> free_slot d i n \<le> i + n"
proof (induction n arbitrary: i)
  case (Suc n)
  show ?case using Suc.IH [of "Suc i"] by auto
qed simp

lemma free_slot_before: "i \<le> k \<Longrightarrow> k < free_slot d i n \<Longrightarrow> dir_ino d k \<noteq> 0"
proof (induction n arbitrary: i)
  case (Suc n)
  then show ?case using Suc.IH [of "Suc i"] by (cases "k = i") (auto split: if_splits)
qed simp

lemma free_slot_at: "free_slot d i n < i + n \<Longrightarrow> dir_ino d (free_slot d i n) = 0"
  by (induction n arbitrary: i) auto

lemma free_slot_unique:
  assumes "\<And>k. i \<le> k \<Longrightarrow> k < m \<Longrightarrow> dir_ino d k \<noteq> 0" "i \<le> m" "m < i + n \<Longrightarrow> dir_ino d m = 0" "m \<le> i + n"
  shows "free_slot d i n = m"
  using free_slot_range [of i d n] free_slot_before [of i m d n] free_slot_at [of d i n]
    assms(1) [of "free_slot d i n"] assms(2-)
  by (cases "free_slot d i n" m rule: linorder_cases) auto

lemma dir_ino_zero: "32 * i + 4 \<le> 4096 \<Longrightarrow> (\<forall>k < 4096. 32 * i \<le> k \<longrightarrow> d k = 0) \<Longrightarrow> dir_ino d i = 0"
  unfolding dir_ino_def by (rule get_le_zero) auto

lemma dir_rep_count:
  assumes "dir_rep d es"
  shows "free_slot d 0 128 = length es"
proof (rule free_slot_unique)
  show "dir_ino d k \<noteq> 0" if "k < length es" for k using assms that by (auto simp: dir_rep_def)
  show "dir_ino d (length es) = 0" if "length es < 0 + 128"
    using assms that by (intro dir_ino_zero) (auto simp: dir_rep_def)
qed (use assms in \<open>auto simp: dir_rep_def\<close>)

lemma dir_rep_entries: "dir_rep d es \<Longrightarrow> dir_entries d = es"
  by (rule nth_equalityI) (auto simp: dir_entries_def dir_rep_count dir_rep_def)

lemma dir_inv_rep:
  assumes "dir_inv d"
  shows "dir_rep d (dir_entries d)"
  unfolding dir_rep_def
proof (intro conjI allI impI)
  show "length (dir_entries d) \<le> 128" using free_slot_range [of 0 d 128] by (simp add: dir_entries_def)
  fix i assume "i < length (dir_entries d)"
  then show "name_at d i = fst (dir_entries d ! i)" "dir_ino d i = snd (dir_entries d ! i)"
      "snd (dir_entries d ! i) \<noteq> 0"
    using free_slot_before [of 0 i d 128] by (simp_all add: dir_entries_def)
qed (use assms in \<open>simp add: dir_inv_def\<close>)

lemma dir_invI:
  assumes "dir_rep d es" "\<And>e. e \<in> set es \<Longrightarrow> good_name (fst e)" "distinct (map fst es)" "distinct (map snd es)"
  shows "dir_inv d"
  using assms by (auto simp: dir_inv_def dir_rep_entries dir_rep_def)

lemma dir_invD:
  assumes "dir_inv d"
  shows "dir_rep d (dir_entries d)" "\<And>e. e \<in> set (dir_entries d) \<Longrightarrow> good_name (fst e)"
    "distinct (map fst (dir_entries d))" "distinct (map snd (dir_entries d))"
    "length (dir_entries d) \<le> 128"
  using assms dir_inv_rep [OF assms] by (auto simp: dir_inv_def dir_rep_def)

section \<open>The block operations\<close>

lemma get_le_shift:
  assumes "\<And>k. k < n \<Longrightarrow> b (off + k) = b' (off' + k)"
  shows "get_le n b off = (get_le n b' off' :: 'a::len word)"
  using assms
proof (induction n arbitrary: off off')
  case (Suc n)
  have "get_le n b (Suc off) = (get_le n b' (Suc off') :: 'a word)"
    using Suc.prems [of "Suc _"] by (intro Suc.IH) auto
  then show ?case using Suc.prems [of 0] by simp
qed simp

lemma entry_cong:
  assumes "\<And>k. k < 32 \<Longrightarrow> d (32 * i + k) = d' (32 * j + k)"
  shows "dir_ino d i = dir_ino d' j" and "name_at d i = name_at d' j"
proof -
  show "dir_ino d i = dir_ino d' j" unfolding dir_ino_def using assms by (intro get_le_shift) simp
  have "bytes_at d (32 * i + 4) 28 = bytes_at d' (32 * j + 4) 28"
    using assms [of "4 + _"] by (intro nth_equalityI) (simp_all add: add.assoc)
  then show "name_at d i = name_at d' j" by (simp add: name_at_def)
qed

lemma dir_set_name_other:
  "k < 32 * i + 4 \<or> 32 * i + 32 \<le> k \<Longrightarrow> dir_set_name i nm d k = d k"
  by (auto simp: dir_set_name_def strscpy_def memcpy_def)

lemma dir_set_name_ino: "dir_ino (dir_set_name i nm d) j = dir_ino d j"
proof -
  have "dir_set_name i nm d k = d k" if "32 * j \<le> k" "k < 32 * j + 4" for k
    using that by (intro dir_set_name_other) (cases "i < j"; cases "j < i"; auto)
  then show ?thesis unfolding dir_ino_def by (rule get_le_cong)
qed

text \<open>A name of 28 bytes is stored without its last byte.\<close>

lemma name_at_dir_set_name:
  assumes "0 \<notin> set nm"
  shows "name_at (dir_set_name i nm d) i = take 27 nm"
proof -
  let ?d = "dir_set_name i nm d" and ?t = "take 27 nm"
  have "bytes_at ?d (32 * i + 4) 28 = ?t @ 0 # bytes_at ?d (32 * i + 4 + Suc (length ?t)) (27 - length ?t)"
    by (rule nth_equalityI)
      (auto simp: dir_set_name_def strscpy_def memcpy_def nth_append nth_Cons' bytes_at_def min_def ac_simps)
  moreover have "\<forall>c \<in> set ?t. c \<noteq> 0" using assms by (auto dest: in_set_takeD)
  ultimately show ?thesis by (simp add: name_at_def takeWhile_append)
qed

lemma name_at_dir_set_name_other: "i \<noteq> j \<Longrightarrow> name_at (dir_set_name i nm d) j = name_at d j"
  by (rule entry_cong(2), rule dir_set_name_other) (cases "i < j"; auto)

lemma dir_set_ino_other: "k < 32 * i \<or> 32 * i + 4 \<le> k \<Longrightarrow> dir_set_ino i ino d k = d k"
  by (simp add: dir_set_ino_def put_le_outside)

lemma name_at_dir_set_ino: "name_at (dir_set_ino i ino d) j = name_at d j"
proof -
  have "dir_set_ino i ino d k = d k" if "32 * j + 4 \<le> k" "k < 32 * j + 4 + 28" for k
    using that by (intro dir_set_ino_other) (cases "i < j"; cases "j < i"; auto)
  then show ?thesis by (simp add: name_at_def cong: bytes_at_cong)
qed

lemma dir_ino_dir_set_ino: "dir_ino (dir_set_ino i ino d) j = (if i = j then ino else dir_ino d j)"
  by (cases "i < j"; cases "j < i") (auto simp: dir_ino_def dir_set_ino_def block_simps)

lemmas dir_set_simps = dir_set_name_ino name_at_dir_set_name name_at_dir_set_name_other
  name_at_dir_set_ino dir_ino_dir_set_ino

text \<open>Adding an entry after the last one, closing the hole of an entry, changing a name.\<close>

lemma dir_rep_add:
  assumes "dir_rep d es" "length es < 128" "ino \<noteq> 0" "good_name nm"
  shows "dir_rep (dir_set_name (length es) nm (dir_set_ino (length es) ino d)) (es @ [(nm, ino)])"
proof -
  let ?n = "length es" and ?d = "dir_set_name (length es) nm (dir_set_ino (length es) ino d)"
  note R = assms(1) [unfolded dir_rep_def]
  have nm: "take 27 nm = nm" "0 \<notin> set nm" using assms(4) by (auto simp: good_name_def)
  have "name_at ?d i = fst ((es @ [(nm, ino)]) ! i) \<and> dir_ino ?d i = snd ((es @ [(nm, ino)]) ! i) \<and>
      snd ((es @ [(nm, ino)]) ! i) \<noteq> 0" if "i < Suc ?n" for i
    using that R assms(3) nm by (cases "i = ?n") (auto simp: dir_set_simps nth_append)
  moreover have "?d k = 0" if "k < 4096" "32 * Suc ?n \<le> k" for k
    using that R dir_set_name_other [of k ?n] dir_set_ino_other [of k ?n] by simp
  ultimately show ?thesis using assms(2) by (simp add: dir_rep_def)
qed

lemma dir_rep_rename:
  assumes "dir_rep d es" "f < length es" "good_name nm"
  shows "dir_rep (dir_set_name f nm d) (es[f := (nm, snd (es ! f))])"
proof -
  note R = assms(1) [unfolded dir_rep_def]
  have nm: "take 27 nm = nm" "0 \<notin> set nm" using assms(3) by (auto simp: good_name_def)
  have "dir_set_name f nm d k = 0" if "k < 4096" "32 * length es \<le> k" for k
    using that R assms(2) dir_set_name_other [of k f] by simp
  moreover have "name_at (dir_set_name f nm d) i = fst (es[f := (nm, snd (es ! f))] ! i) \<and>
      dir_ino (dir_set_name f nm d) i = snd (es[f := (nm, snd (es ! f))] ! i) \<and>
      snd (es[f := (nm, snd (es ! f))] ! i) \<noteq> 0" if "i < length es" for i
    using that R nm by (cases "i = f") (auto simp: dir_set_simps)
  ultimately show ?thesis using R by (simp add: dir_rep_def)
qed

lemma remove_entry_apply:
  assumes "f < n" "n \<le> 128"
  shows "remove_entry f n d k =
    (if k < 32 * f \<or> 32 * n \<le> k then d k else if k < 32 * (n - 1) then d (k + 32) else 0)"
  using assms by (auto simp: remove_entry_def memset_def memmove_def memcpy_def algebra_simps)

lemma dir_rep_remove:
  assumes "dir_rep d es" "f < length es"
  shows "dir_rep (remove_entry f (length es) d) (take f es @ drop (Suc f) es)"
proof -
  let ?d = "remove_entry f (length es) d" and ?es = "take f es @ drop (Suc f) es"
  note R = assms(1) [unfolded dir_rep_def]
  have app: "?d k = (if k < 32 * f \<or> 32 * length es \<le> k then d k
      else if k < 32 * (length es - 1) then d (k + 32) else 0)" for k
    using R assms(2) by (intro remove_entry_apply) auto
  have len: "length ?es = length es - 1" using assms(2) by simp
  have "name_at ?d i = fst (?es ! i) \<and> dir_ino ?d i = snd (?es ! i) \<and> snd (?es ! i) \<noteq> 0"
    if i: "i < length es - 1" for i
  proof (cases "i < f")
    case True
    then have "name_at ?d i = name_at d i" "dir_ino ?d i = dir_ino d i"
      using entry_cong [of ?d i d i] by (auto simp: app)
    then show ?thesis using True R assms(2) by (simp add: nth_append)
  next
    case False
    then have "?d (32 * i + k) = d (32 * Suc i + k)" if "k < 32" for k
    proof -
      have "\<not> 32 * i + k < 32 * f" "32 * i + k < 32 * (length es - 1)" "32 * i + k < 32 * length es"
        using False i that by auto
      then show ?thesis by (simp add: app add.commute add.left_commute)
    qed
    then have "name_at ?d i = name_at d (Suc i)" "dir_ino ?d i = dir_ino d (Suc i)"
      using entry_cong [of ?d i d "Suc i"] by blast+
    moreover have "?es ! i = es ! Suc i" using False i by (simp add: nth_append)
    ultimately show ?thesis using R i by simp
  qed
  moreover have "?d k = 0" if "k < 4096" "32 * (length es - 1) \<le> k" for k
    using that R assms(2) by (simp add: app)
  moreover have "length es - 1 \<le> 128" using R by linarith
  ultimately show ?thesis by (simp add: dir_rep_def len del: length_append)
qed

section \<open>The searches\<close>

lemma lookup_loop_spec:
  assumes "dir_rep d es" "0 \<notin> set nm" "length nm \<le> 28" "i \<le> length es" "i + n = 128"
  shows "lookup_loop d nm i n = map_of (drop i es) nm"
  using assms(4,5)
proof (induction n arbitrary: i)
  case 0
  then show ?case using assms(1) by (simp add: dir_rep_def)
next
  case (Suc n)
  note R = assms(1) [unfolded dir_rep_def]
  show ?case
  proof (cases "i = length es")
    case True
    then have "dir_ino d i = 0" using R Suc.prems by (intro dir_ino_zero) auto
    then show ?thesis using True by simp
  next
    case False
    then have i: "i < length es" using Suc.prems by simp
    then have "lookup_loop d nm i (Suc n) = (if fst (es ! i) = nm then Some (snd (es ! i)) else lookup_loop d nm (Suc i) n)"
      using R by (simp add: name_matches_iff [OF assms(2,3)])
    also have "\<dots> = map_of (drop i es) nm"
      using Suc.IH [of "Suc i"] Suc.prems i by (cases "es ! i") (auto simp: Cons_nth_drop_Suc [symmetric])
    finally show ?thesis .
  qed
qed

lemma lookup_entries:
  assumes "dir_inv d" "0 \<notin> set nm" "length nm \<le> 28"
  shows "lookup_loop d nm 0 128 = map_of (dir_entries d) nm"
  using lookup_loop_spec [OF dir_inv_rep [OF assms(1)] assms(2,3), of 0 128] by simp

lemma scan_subs_spec:
  assumes "dir_rep d es" "ino \<noteq> 0" "i \<le> length es" "i + n = 128"
    "\<And>k. k < length es \<Longrightarrow> snd (es ! k) = ino \<longleftrightarrow> k = f"
  shows "scan_subs d ino g i n = (if i \<le> f \<and> f < length es then Some f else g, length es)"
  using assms(3,4)
proof (induction n arbitrary: i g)
  case 0
  then show ?case using assms(1) by (auto simp: dir_rep_def)
next
  case (Suc n)
  note R = assms(1) [unfolded dir_rep_def]
  show ?case
  proof (cases "i = length es")
    case True
    then have "dir_ino d i = 0" using R Suc.prems by (intro dir_ino_zero) auto
    then show ?thesis using True assms(2) by auto
  next
    case False
    then have i: "i < length es" using Suc.prems by simp
    then have "dir_ino d i = snd (es ! i)" "snd (es ! i) \<noteq> 0" using R by auto
    then show ?thesis
      using Suc.IH [of "Suc i"] Suc.prems assms(5) [OF i] i by auto
  qed
qed

lemma scan_subs_absent:
  assumes "dir_inv d" "ino \<noteq> 0" "ino \<notin> snd ` set (dir_entries d)"
  shows "scan_subs d ino None 0 128 = (None, length (dir_entries d))"
  using scan_subs_spec [OF dir_inv_rep [OF assms(1)] assms(2), of 0 128 "length (dir_entries d)" None] assms(3)
  by (force simp: in_set_conv_nth image_iff)

lemma scan_subs_found:
  assumes "dir_inv d" "ino \<in> snd ` set (dir_entries d)"
  obtains f where "f < length (dir_entries d)" "snd (dir_entries d ! f) = ino"
    "scan_subs d ino None 0 128 = (Some f, length (dir_entries d))"
proof -
  note D = dir_invD [OF assms(1)]
  obtain f where f: "f < length (dir_entries d)" "snd (dir_entries d ! f) = ino"
    using assms(2) by (auto simp: in_set_conv_nth)
  have "snd (dir_entries d ! k) = ino \<longleftrightarrow> k = f" if "k < length (dir_entries d)" for k
    using that f D(4) by (auto simp: distinct_conv_nth)
  moreover have "ino \<noteq> 0" using D(1) f by (auto simp: dir_rep_def)
  ultimately show ?thesis
    using that [OF f] scan_subs_spec [OF D(1), of ino 0 128 f None] f by simp
qed

lemma dir_rep_name_free:
  assumes "dir_rep d es" "length es \<le> i" "i < 128"
  shows "name_at d i = []" "dir_ino d i = 0"
proof -
  have z: "d k = 0" if "32 * i \<le> k" "k < 32 * i + 32" for k using assms that by (auto simp: dir_rep_def)
  then have "bytes_at d (32 * i + 4) 28 ! 0 = 0" by simp
  then show "name_at d i = []"
    by (simp add: name_at_def takeWhile_eq_Nil_iff hd_conv_nth flip: length_greater_0_conv)
  show "dir_ino d i = 0" unfolding dir_ino_def using z by (intro get_le_zero) auto
qed

lemma rename_scan_exists:
  assumes "dir_rep d es" "good_name new" "j < length es" "fst (es ! j) = new" "i \<le> j" "i + n = 128"
  shows "rename_scan d same old new g np i n = None"
  using assms(5,6)
proof (induction n arbitrary: i g np)
  case 0
  then show ?case using assms(1,3) by (simp add: dir_rep_def)
next
  case (Suc n)
  have "name_matches d i new \<longleftrightarrow> name_at d i = new"
    using assms(2) by (intro name_matches_iff) (auto simp: good_name_def)
  then show ?case
    using Suc.IH [of "Suc i"] Suc.prems assms(1,3,4) by (cases "i = j") (auto simp: dir_rep_def Let_def)
qed

lemma rename_scan_fresh:
  assumes "dir_rep d es" "good_name new" "good_name old" "new \<notin> fst ` set es"
    "\<And>k. same \<Longrightarrow> k < length es \<Longrightarrow> fst (es ! k) = old \<longleftrightarrow> k = f" "np = None \<Longrightarrow> i \<le> length es" "i + n = 128"
  shows "rename_scan d same old new g np i n =
    Some (if same \<and> i \<le> f \<and> f < length es then Some f else g,
      if np = None \<and> length es < 128 then Some (length es) else np)"
  using assms(6,7)
proof (induction n arbitrary: i g np)
  case 0
  then show ?case using assms(1) by (auto simp: dir_rep_def)
next
  case (Suc n)
  note R = assms(1) [unfolded dir_rep_def]
  have mo: "name_matches d i old \<longleftrightarrow> name_at d i = old" and mn: "name_matches d i new \<longleftrightarrow> name_at d i = new"
    using assms(2,3) by (auto simp: good_name_def name_matches_iff)
  show ?case
  proof (cases "i < length es")
    case True
    then have "name_at d i \<noteq> new" "dir_ino d i \<noteq> 0" "same \<Longrightarrow> name_at d i = old \<longleftrightarrow> i = f"
      using R assms(4,5) by auto
    then show ?thesis
      using Suc.IH [of np "Suc i"] Suc.prems True by (auto simp: mo mn Let_def)
  next
    case False
    then have "name_at d i = []" "dir_ino d i = 0" using dir_rep_name_free [OF assms(1), of i] Suc.prems by auto
    moreover have "old \<noteq> []" "new \<noteq> []" using assms(2,3) by (auto simp: good_name_def)
    ultimately show ?thesis
      using Suc.IH [of "if np = None then Some i else np" "Suc i"] Suc.prems False by (auto simp: mo mn Let_def)
  qed
qed

lemma rename_scan_other:
  assumes "dir_rep d es" "good_name new" "new \<notin> fst ` set es" "good_name old"
  shows "rename_scan d False old new None None 0 128 = Some (None, if length es < 128 then Some (length es) else None)"
  using rename_scan_fresh [OF assms(1,2,4,3), where same = False and np = None and i = 0 and n = 128] by simp

section \<open>The contract holds of directory blocks\<close>

text \<open>The change of the block in \<^verbatim>\<open>ouichefs_create\<close>, \<^verbatim>\<open>ouichefs_unlink\<close> and \<^verbatim>\<open>ouichefs_rename\<close>.\<close>

definition dir_add :: "u8 list \<Rightarrow> u32 \<Rightarrow> block \<Rightarrow> block" where
  "dir_add nm ino d = (let i = free_slot d 0 OUICHEFS_MAX_SUBFILES in dir_set_name i nm (dir_set_ino i ino d))"

definition dir_del :: "u32 \<Rightarrow> block \<Rightarrow> block" where
  "dir_del ino d =
     (case scan_subs d ino None 0 OUICHEFS_MAX_SUBFILES of
        (None, n) \<Rightarrow> d
      | (Some f, n) \<Rightarrow> remove_entry f n d)"

definition dir_ren :: "u8 list \<Rightarrow> u8 list \<Rightarrow> block \<Rightarrow> block" where
  "dir_ren old new d =
     (case rename_scan d True old new None None 0 OUICHEFS_MAX_SUBFILES of
        Some (Some f, _) \<Rightarrow> dir_set_name f new d
      | _ \<Rightarrow> d)"

lemma dir_add_spec:
  assumes "dir_inv d" "good_name nm" "ino \<noteq> 0" "nm \<notin> fst ` set (dir_entries d)"
    "ino \<notin> snd ` set (dir_entries d)" "length (dir_entries d) < 128"
  shows "dir_entries (dir_add nm ino d) = dir_entries d @ [(nm, ino)] \<and> dir_inv (dir_add nm ino d)"
proof -
  note D = dir_invD [OF assms(1)]
  have R: "dir_rep (dir_add nm ino d) (dir_entries d @ [(nm, ino)])"
    using dir_rep_add [OF D(1) assms(6,3,2)] by (simp add: dir_add_def Let_def dir_rep_count [OF D(1)])
  then have "dir_inv (dir_add nm ino d)"
    using D assms(2,4,5) by (intro dir_invI [OF R]) auto
  then show ?thesis using dir_rep_entries [OF R] by simp
qed

lemma filter_snd_remove:
  assumes "distinct (map snd es)" "f < length es"
  shows "filter (\<lambda>e. snd e \<noteq> snd (es ! f)) es = take f es @ drop (Suc f) es"
proof -
  have es: "es = take f es @ es ! f # drop (Suc f) es" using assms(2) by (rule id_take_nth_drop)
  have "snd (es ! f) \<notin> snd ` set (take f es) \<union> snd ` set (drop (Suc f) es)"
    using assms(1) by (subst (asm) es) auto
  then have "filter (\<lambda>e. snd e \<noteq> snd (es ! f)) (take f es) = take f es"
    "filter (\<lambda>e. snd e \<noteq> snd (es ! f)) (drop (Suc f) es) = drop (Suc f) es"
    by (auto simp: filter_id_conv intro: rev_image_eqI)
  then show ?thesis by (subst (2) es) simp
qed

lemma dir_del_spec:
  assumes "dir_inv d" "ino \<in> snd ` set (dir_entries d)"
  shows "dir_entries (dir_del ino d) = filter (\<lambda>e. snd e \<noteq> ino) (dir_entries d) \<and> dir_inv (dir_del ino d)"
proof -
  note D = dir_invD [OF assms(1)]
  obtain f where f: "f < length (dir_entries d)" "snd (dir_entries d ! f) = ino"
    "scan_subs d ino None 0 128 = (Some f, length (dir_entries d))"
    by (rule scan_subs_found [OF assms])
  have R: "dir_rep (dir_del ino d) (filter (\<lambda>e. snd e \<noteq> ino) (dir_entries d))"
    using dir_rep_remove [OF D(1) f(1)] filter_snd_remove [OF D(4) f(1)] f by (simp add: dir_del_def)
  then have "dir_inv (dir_del ino d)"
    using D by (intro dir_invI [OF R]) (auto simp: distinct_map_filter)
  then show ?thesis using dir_rep_entries [OF R] by simp
qed

lemma map_fst_update:
  assumes "distinct (map fst es)" "f < length es"
  shows "map (\<lambda>e. if fst e = fst (es ! f) then (m, snd e) else e) es = es[f := (m, snd (es ! f))]"
  using assms by (intro nth_equalityI) (auto simp: distinct_conv_nth nth_list_update)

lemma rename_scan_found:
  assumes "dir_inv d" "good_name new" "good_name old" "old \<in> fst ` set (dir_entries d)"
    "new \<notin> fst ` set (dir_entries d)"
  obtains f where "f < length (dir_entries d)" "fst (dir_entries d ! f) = old"
    "rename_scan d True old new None None 0 128 =
      Some (Some f, if length (dir_entries d) < 128 then Some (length (dir_entries d)) else None)"
proof -
  note D = dir_invD [OF assms(1)]
  obtain f where f: "f < length (dir_entries d)" "fst (dir_entries d ! f) = old"
    using assms(4) by (auto simp: in_set_conv_nth)
  have "fst (dir_entries d ! k) = old \<longleftrightarrow> k = f" if "k < length (dir_entries d)" for k
    using that f D(3) by (auto simp: distinct_conv_nth)
  then show ?thesis
    using that [OF f] rename_scan_fresh [OF D(1) assms(2,3,5), where same = True and f = f and np = None and i = 0 and n = 128] f by simp
qed

lemma dir_ren_spec:
  assumes "dir_inv d" "good_name new" "good_name old" "old \<in> fst ` set (dir_entries d)"
    "new \<notin> fst ` set (dir_entries d)"
  shows "dir_entries (dir_ren old new d) = map (\<lambda>e. if fst e = old then (new, snd e) else e) (dir_entries d) \<and>
    dir_inv (dir_ren old new d)"
proof -
  note D = dir_invD [OF assms(1)]
  obtain f where f: "f < length (dir_entries d)" "fst (dir_entries d ! f) = old"
    "rename_scan d True old new None None 0 128 =
      Some (Some f, if length (dir_entries d) < 128 then Some (length (dir_entries d)) else None)"
    by (rule rename_scan_found [OF assms])
  let ?es = "(dir_entries d)[f := (new, snd (dir_entries d ! f))]"
  have R: "dir_rep (dir_ren old new d) ?es"
    using dir_rep_rename [OF D(1) f(1) assms(2)] f by (simp add: dir_ren_def)
  have "distinct (map fst ?es)" "distinct (map snd ?es)"
    using D(3,4) assms(5) f(1)
    by (auto simp: map_update intro!: distinct_list_update)
  then have "dir_inv (dir_ren old new d)"
    using D(2) assms(2) by (intro dir_invI [OF R]) (auto dest!: set_update_subset_insert [THEN subsetD])
  then show ?thesis using dir_rep_entries [OF R] map_fst_update [OF D(3) f(1), of new] f(2) by simp
qed

interpretation dirb: directory dir_entries dir_inv good_name "\<lambda>ino. ino \<noteq> 0" 128
  "\<lambda>nm d. lookup_loop d nm 0 128" dir_add dir_del dir_ren
proof unfold_locales
  show "lookup_loop d nm 0 128 = map_of (dir_entries d) nm" if "dir_inv d" "good_name nm" for d nm
    using that by (intro lookup_entries) (auto simp: good_name_def)
qed (simp_all add: dir_invD dir_add_spec dir_del_spec dir_ren_spec)

end
