(* ===== verification/Ouiche_DirOps.thy ===== *)
theory Ouiche_DirOps
  imports Ouiche_DirSpec Ouiche_SmallFile
begin

text \<open>
  The handlers of \<^verbatim>\<open>src/inode.c\<close> and \<^verbatim>\<open>src/dir.c\<close> against the meaning of a directory block: what
  lookup finds, what creation, removal and renaming do to the entries, the inode pool, the block
  pool and the rest of the volume.
\<close>

section \<open>A directory on a volume\<close>

definition dir_node :: "env \<Rightarrow> u32 \<Rightarrow> fs \<Rightarrow> bool" where
  "dir_node E dir s \<longleftrightarrow>
     (let ib = index_block (inodes s dir) in
      bread_ok E ib \<and> ib \<notin> free_blocks (sbi s) \<and> dir \<notin> free_inodes (sbi s) \<and> dir_inv (cache s ib) \<and>
      (\<forall>e \<in> set (dir_entries (cache s ib)). snd e \<notin> free_inodes (sbi s)))"

abbreviation entries_of :: "u32 \<Rightarrow> fs \<Rightarrow> (u8 list \<times> u32) list" where
  "entries_of dir s \<equiv> dir_entries (cache s (index_block (inodes s dir)))"

text \<open>What the file system relies on in \<^verbatim>\<open>inode_init_owner\<close>: it sets the mode (possibly with other
  permission bits) and leaves the fields of the file system alone.\<close>

definition owner_ok :: "(inode \<Rightarrow> u32 \<Rightarrow> inode \<Rightarrow> inode) \<Rightarrow> bool" where
  "owner_ok f \<longleftrightarrow> (\<forall>dir mode nd. index_block (f dir mode nd) = index_block nd \<and>
     num_slices (f dir mode nd) = num_slices nd \<and> i_mode (f dir mode nd) AND 0xF000 = mode AND 0xF000)"

section \<open>Lookup\<close>

lemma lookup_absent:
  assumes "bread_ok E (index_block (inodes s dir))" "dir_inv (cache s (index_block (inodes s dir)))"
    "0 \<notin> set nm" "length nm \<le> 28" "nm \<notin> fst ` set (entries_of dir s)"
  shows "ouichefs_lookup E dir nm s = Inr (Inr None, s)"
proof -
  have "map_of (entries_of dir s) nm = None" using assms(5) by (simp add: map_of_eq_None_iff)
  then show ?thesis
    using assms by (simp add: ouichefs_lookup_def Let_def sb_bread_hold lookup_entries)
qed

lemma brelse_keeps [simp]:
  "cache (brelse b s) = cache s" "sbi (brelse b s) = sbi s" "inodes (brelse b s) = inodes s"
  "icached (brelse b s) = icached s" "disk (brelse b s) = disk s" "dirty (brelse b s) = dirty s"
  "idirty (brelse b s) = idirty s"
  by (simp_all add: brelse_def)

lemma brelse_dirtied: "brelse b (mark_buffer_dirty b (buf_upd b g (hold b t))) = mark_buffer_dirty b (buf_upd b g t)"
  by (simp add: brelse_def mark_buffer_dirty_def buf_upd_def hold_def)

lemma lookup_present:
  assumes "bread_ok E (index_block (inodes s dir))" "dir_inv (cache s (index_block (inodes s dir)))"
    "0 \<notin> set nm" "length nm \<le> 28" "(nm, ino) \<in> set (entries_of dir s)"
    "ino < nr_inodes (sbi s)" "iget_ok E ino" "bread_ok E (inode_block_of ino)"
  shows "\<exists>t. ouichefs_lookup E dir nm s = Inr (Inr (Some ino), t) \<and> ino \<in> icached t \<and>
    sbi t = sbi s \<and> cache t = cache s \<and> refs t = refs s \<and> disk t = disk s \<and> dirty t = dirty s \<and>
    (\<forall>j. j \<noteq> ino \<longrightarrow> inodes t j = inodes s j)"
proof -
  let ?b = "index_block (inodes s dir)"
  have m: "map_of (entries_of dir s) nm = Some ino"
    using assms(5) dir_invD(3) [OF assms(2)] by simp
  obtain t where t: "ouichefs_iget E ino (hold ?b s) = (Inr ino, t)" "sbi t = sbi s" "cache t = cache s"
      "refs t = refs (hold ?b s)" "ino \<in> icached t" "dirty t = dirty s" "disk t = disk s"
      "\<forall>j. j \<noteq> ino \<longrightarrow> inodes t j = inodes s j"
    using iget_total [of ino "hold ?b s" E] assms(6-8) by auto
  have "ouichefs_lookup E dir nm s = Inr (Inr (Some ino), brelse ?b t)"
    using assms(1-4) m t(1) by (simp add: ouichefs_lookup_def Let_def sb_bread_hold lookup_entries)
  moreover have "refs (brelse ?b t) = refs s" using t(4) by (simp add: brelse_def hold_def)
  ultimately show ?thesis using t by (intro exI [of _ "brelse ?b t"]) simp
qed

section \<open>Creation\<close>

definition created :: "u32 \<Rightarrow> u8 list \<Rightarrow> u32 \<Rightarrow> u32 \<Rightarrow> fs \<Rightarrow> fs \<Rightarrow> bool" where
  "created dir nm mode ino s s' \<longleftrightarrow>
     (let ib = index_block (inodes s dir); bno = index_block (inodes s' ino) in
      ino \<in> free_inodes (sbi s) \<and> free_inodes (sbi s') = free_inodes (sbi s) - {ino} \<and>
      (if S_ISDIR mode
       then bno \<in> free_blocks (sbi s) \<and> free_blocks (sbi s') = free_blocks (sbi s) - {bno} \<and>
            zeroed (cache s' bno) \<and> i_size (inodes s' ino) = 4096 \<and> i_blocks (inodes s' ino) = 1
       else bno = 0 \<and> free_blocks (sbi s') = free_blocks (sbi s) \<and> i_size (inodes s' ino) = 0 \<and>
            i_blocks (inodes s' ino) = 0) \<and>
      num_slices (inodes s' ino) = 0 \<and> i_nlink (inodes s' ino) = 1 \<and>
      i_mode (inodes s' ino) AND 0xF000 = mode AND 0xF000 \<and>
      cache s' ib = dir_add nm ino (cache s ib) \<and>
      (\<forall>b. b \<noteq> ib \<and> \<not> (S_ISDIR mode \<and> b = bno) \<longrightarrow> cache s' b = cache s b) \<and>
      (\<forall>j. j \<noteq> ino \<and> j \<noteq> dir \<longrightarrow> inodes s' j = inodes s j) \<and>
      index_block (inodes s' dir) = ib \<and> i_mode (inodes s' dir) = i_mode (inodes s dir) \<and>
      i_nlink (inodes s' dir) = i_nlink (inodes s dir) + (if S_ISDIR mode then 1 else 0) \<and>
      block_pool (sbi s') \<and> block_univ (sbi s') = block_univ (sbi s) \<and>
      (\<forall>k. inode_pool k (sbi s) \<longrightarrow> inode_pool k (sbi s')) \<and> nr_inodes (sbi s') = nr_inodes (sbi s) \<and>
      (\<not> S_ISDIR mode \<longrightarrow> sbi s' = snd (get_free_inode (sbi s))) \<and>
      {ino, dir} \<subseteq> idirty s' \<and> ino \<in> icached s' \<and> refs s' = refs s)"

lemma get_free_inode_frame:
  "nr_blocks (snd (get_free_inode sb)) = nr_blocks sb" "bfree_bitmap (snd (get_free_inode sb)) = bfree_bitmap sb"
  "nr_free_blocks (snd (get_free_inode sb)) = nr_free_blocks sb"
  "s_free_sliced_blocks (snd (get_free_inode sb)) = s_free_sliced_blocks sb"
  by (simp_all add: get_free_inode_def Let_def split: prod.splits)

lemma get_free_block_frame:
  "nr_inodes (snd (get_free_block sb)) = nr_inodes sb" "ifree_bitmap (snd (get_free_block sb)) = ifree_bitmap sb"
  "nr_free_inodes (snd (get_free_block sb)) = nr_free_inodes sb"
  "s_free_sliced_blocks (snd (get_free_block sb)) = s_free_sliced_blocks sb"
  by (simp_all add: get_free_block_def Let_def split: prod.splits)

lemma pools_independent:
  "free_blocks (snd (get_free_inode sb)) = free_blocks sb" "block_pool (snd (get_free_inode sb)) = block_pool sb"
  "free_inodes (snd (get_free_block sb)) = free_inodes sb" "inode_pool k (snd (get_free_block sb)) = inode_pool k sb"
  by (simp_all add: free_blocks_def block_pool_def free_inodes_def inode_pool_def get_free_inode_frame get_free_block_frame)

lemma new_node_simps:
  assumes "owner_ok init" "S_ISDIR mode \<or> S_ISREG mode"
  shows "index_block (init_new_node E init p mode bno nd) = bno"
    "num_slices (init_new_node E init p mode bno nd) = 0"
    "i_nlink (init_new_node E init p mode bno nd) = 1"
    "i_mode (init_new_node E init p mode bno nd) AND 0xF000 = mode AND 0xF000"
    "i_size (init_new_node E init p mode bno nd) = (if S_ISDIR mode then 4096 else 0)"
    "i_blocks (init_new_node E init p mode bno nd) = (if S_ISDIR mode then 1 else 0)"
  using assms by (auto simp: init_new_node_def Let_def owner_ok_def)

text \<open>When an inode and, for a directory, a block are free, \<^verbatim>\<open>ouichefs_new_inode\<close> takes them.\<close>

lemma new_inode_taken:
  assumes "inode_pool k (sbi s)" "free_inodes (sbi s) \<noteq> {}" "block_pool (sbi s)" "free_blocks (sbi s) \<noteq> {}"
    and mode: "S_ISDIR mode \<or> S_ISREG mode"
    and ino: "ino = fst (get_free_inode (sbi s))" "iget_ok E ino" "bread_ok E (inode_block_of ino)"
    and dir: "dir \<notin> free_inodes (sbi s)"
  shows "\<exists>t bno. ouichefs_new_inode E init dir mode s = (Inr ino, t) \<and>
    bno = (if S_ISDIR mode then fst (get_free_block (sbi s)) else 0) \<and>
    sbi t = (if S_ISDIR mode then snd (get_free_block (snd (get_free_inode (sbi s)))) else snd (get_free_inode (sbi s))) \<and>
    (\<exists>nd. inodes t ino = init_new_node E init (inodes s dir) mode bno nd) \<and>
    (\<forall>j. j \<noteq> ino \<longrightarrow> inodes t j = inodes s j) \<and> cache t = cache s \<and> refs t = refs s \<and> ino \<in> icached t"
proof -
  define sb where "sb = snd (get_free_inode (sbi s))"
  have i: "ino \<in> free_inodes (sbi s)" "ino \<noteq> 0"
    using inos.grab_free [OF assms(1,2)] inos.grab_zero_iff [OF assms(1)] assms(2) ino(1) by auto
  have nz: "nr_free_inodes (sbi s) \<noteq> 0" "nr_free_blocks (sbi s) \<noteq> 0"
    using inos.counter_free [OF assms(1)] blocks.counter_free [OF assms(3)] assms(2,4) by auto
  have lt: "ino < nr_inodes sb"
    using i(1) by (simp add: sb_def free_inodes_def free_bits_def word_less_nat_alt)
  obtain t where t: "ouichefs_iget E ino (s\<lparr>sbi := sb\<rparr>) = (Inr ino, t)" "sbi t = sb" "cache t = cache s"
      "refs t = refs s" "ino \<in> icached t" "\<forall>j. j \<noteq> ino \<longrightarrow> inodes t j = inodes s j"
    using iget_total [of ino "s\<lparr>sbi := sb\<rparr>" E] lt ino(2,3) by auto
  have g: "get_free_inode (sbi s) = (ino, sb)" using ino(1) by (simp add: sb_def)
  have d: "inodes t dir = inodes s dir" using t(6) dir i(1) by metis
  have bz: "fst (get_free_block sb) \<noteq> 0" and be: "fst (get_free_block sb) = fst (get_free_block (sbi s))"
    using blocks.grab_zero_iff [of sb] assms(3,4) by (simp_all add: sb_def pools_independent get_free_block_def
      get_free_inode_frame Let_def split: prod.splits)
  let ?bno = "if S_ISDIR mode then fst (get_free_block (sbi s)) else 0"
  let ?t = "(if S_ISDIR mode then t\<lparr>sbi := snd (get_free_block sb)\<rparr> else t)"
  have "ouichefs_new_inode E init dir mode s = (Inr ino, upd_inode ino (init_new_node E init (inodes s dir) mode ?bno) ?t)"
  proof (cases "S_ISDIR mode")
    case True
    then show ?thesis
      using nz i(2) bz d by (simp add: ouichefs_new_inode_def g t(1,2) be fs_get_free_block_def case_prod_beta)
  next
    case False
    then show ?thesis
      using mode nz i(2) d by (simp add: ouichefs_new_inode_def g t(1,2))
  qed
  then show ?thesis
    using t by (intro exI [of _ "upd_inode ino (init_new_node E init (inodes s dir) mode ?bno) ?t"] exI [of _ ?bno])
      (auto simp: upd_inode_def sb_def)
qed

lemma buf_upd_simps [simp]:
  "cache (buf_upd b f s) = (cache s)(b := f (cache s b))" "sbi (buf_upd b f s) = sbi s"
  "inodes (buf_upd b f s) = inodes s" "refs (buf_upd b f s) = refs s" "icached (buf_upd b f s) = icached s"
  "cache (mark_buffer_dirty b s) = cache s" "sbi (mark_buffer_dirty b s) = sbi s"
  "inodes (mark_buffer_dirty b s) = inodes s" "refs (mark_buffer_dirty b s) = refs s"
  "icached (mark_buffer_dirty b s) = icached s"
  by (simp_all add: buf_upd_def mark_buffer_dirty_def)

lemma upd_inode_simps [simp]:
  "cache (upd_inode i f s) = cache s" "sbi (upd_inode i f s) = sbi s" "refs (upd_inode i f s) = refs s"
  "inodes (upd_inode i f s) = (inodes s)(i := f (inodes s i))" "icached (upd_inode i f s) = icached s"
  "cache (mark_inode_dirty i s) = cache s" "sbi (mark_inode_dirty i s) = sbi s" "refs (mark_inode_dirty i s) = refs s"
  "inodes (mark_inode_dirty i s) = inodes s" "icached (mark_inode_dirty i s) = icached s"
  "idirty (mark_inode_dirty i s) = insert i (idirty s)" "idirty (upd_inode i f s) = idirty s"
  by (simp_all add: upd_inode_def mark_inode_dirty_def)

text \<open>The tail of \<^verbatim>\<open>ouichefs_create\<close>, after the new inode is set up: registration in the parent.\<close>

definition registered :: "env \<Rightarrow> u32 \<Rightarrow> u32 \<Rightarrow> u8 list \<Rightarrow> u32 \<Rightarrow> u32 \<Rightarrow> fs \<Rightarrow> fs" where
  "registered E dir ib nm mode ino s =
     (let i = free_slot (cache s ib) 0 OUICHEFS_MAX_SUBFILES;
          s = buf_upd ib (\<lambda>d. dir_set_name i nm (dir_set_ino i ino d)) s;
          s = brelse ib (mark_buffer_dirty ib s);
          s = mark_inode_dirty ino s;
          s = upd_inode dir (\<lambda>nd. nd\<lparr>i_mtime := current_time E, i_ctime := current_time E\<rparr>) s;
          s = (if S_ISDIR mode then inode_inc_link_count dir s else s)
      in mark_inode_dirty dir s)"

lemma registered_simps:
  "sbi (registered E dir ib nm mode ino s) = sbi s"
  "cache (registered E dir ib nm mode ino s) = (cache s)(ib := dir_add nm ino (cache s ib))"
  "refs (registered E dir ib nm mode ino s) = (refs s)(ib := refs s ib - 1)"
  "icached (registered E dir ib nm mode ino s) = icached s"
  "j \<noteq> dir \<Longrightarrow> inodes (registered E dir ib nm mode ino s) j = inodes s j"
  "index_block (inodes (registered E dir ib nm mode ino s) dir) = index_block (inodes s dir)"
  "i_mode (inodes (registered E dir ib nm mode ino s) dir) = i_mode (inodes s dir)"
  "i_nlink (inodes (registered E dir ib nm mode ino s) dir) =
     i_nlink (inodes s dir) + (if S_ISDIR mode then 1 else 0)"
  "{ino, dir} \<subseteq> idirty (registered E dir ib nm mode ino s)"
  by (simp_all add: registered_def Let_def inode_inc_link_count_def dir_add_def)
    (simp_all add: brelse_def)

lemma create_done:
  assumes dn: "dir_node E dir s" and nm: "length nm \<le> 28"
    and room: "length (entries_of dir s) < 128"
    and pools: "inode_pool k (sbi s)" "free_inodes (sbi s) \<noteq> {}" "block_pool (sbi s)" "free_blocks (sbi s) \<noteq> {}"
    and mode: "S_ISDIR mode \<or> S_ISREG mode" and own: "owner_ok init"
    and ino: "ino = fst (get_free_inode (sbi s))" "iget_ok E ino" "bread_ok E (inode_block_of ino)"
    and blk: "S_ISDIR mode \<Longrightarrow> bread_ok E (fst (get_free_block (sbi s)))"
  shows "\<exists>s'. ouichefs_create E init dir nm mode s = Inr (0, s') \<and> created dir nm mode ino s s'"
proof -
  let ?ib = "index_block (inodes s dir)"
  have D: "bread_ok E ?ib" "?ib \<notin> free_blocks (sbi s)" "dir \<notin> free_inodes (sbi s)" "dir_inv (cache s ?ib)"
    using dn by (auto simp: dir_node_def Let_def)
  note R = dir_inv_rep [OF D(4)]
  have last: "dir_ino (cache s ?ib) 127 = 0"
    using dir_rep_name_free(2) [OF R, of 127] room by simp
  have slot: "free_slot (cache s ?ib) 0 128 < 128" using dir_rep_count [OF R] room by simp
  let ?h = "hold ?ib s"
  obtain t bno nd where t: "ouichefs_new_inode E init dir mode ?h = (Inr ino, t)"
      "bno = (if S_ISDIR mode then fst (get_free_block (sbi s)) else 0)"
      "sbi t = (if S_ISDIR mode then snd (get_free_block (snd (get_free_inode (sbi s)))) else snd (get_free_inode (sbi s)))"
      "inodes t ino = init_new_node E init (inodes s dir) mode bno nd" "\<forall>j. j \<noteq> ino \<longrightarrow> inodes t j = inodes s j"
      "cache t = cache s" "refs t = refs ?h" "ino \<in> icached t"
    using new_inode_taken [of k ?h mode ino E dir init, unfolded hold_simps, OF pools mode ino D(3)] by blast
  note N = new_node_simps [OF own mode]
  have i: "ino \<in> free_inodes (sbi s)" using inos.grab_free [OF pools(1,2)] ino(1) by simp
  have ne: "ino \<noteq> dir" using i D(3) by auto
  have be: "fst (get_free_block (snd (get_free_inode (sbi s)))) = fst (get_free_block (sbi s))"
    by (simp add: get_free_block_def get_free_inode_frame Let_def split: prod.splits)
  have bf: "fst (get_free_block (sbi s)) \<in> free_blocks (sbi s)" using blocks.grab_free [OF pools(3,4)] .
  then have bi: "fst (get_free_block (sbi s)) \<noteq> ?ib" using D(2) by auto
  let ?u = "if S_ISDIR mode then mark_buffer_dirty bno (buf_upd bno (\<lambda>d. memset d 0 0 4096) t) else t"
  have u: "sbi ?u = sbi t" "inodes ?u = inodes t" "refs ?u = refs ?h" "icached ?u = icached t"
    "cache ?u ?ib = cache s ?ib"
    "\<And>b. \<not> (S_ISDIR mode \<and> b = bno) \<Longrightarrow> cache ?u b = cache s b"
    "S_ISDIR mode \<Longrightarrow> zeroed (cache ?u bno)"
    using t bi by auto
  have h: "ouichefs_create E init dir nm mode s = Inr (0, registered E dir ?ib nm mode ino ?u)"
  proof -
    show ?thesis
      using nm D(1) last t(1,2) slot blk bi
      by (auto simp: ouichefs_create_def sb_bread_hold N t(4) t(6) brelse_dirtied registered_def Let_def)
  qed
  have fb: "free_blocks (sbi t) = (if S_ISDIR mode then free_blocks (sbi s) - {bno} else free_blocks (sbi s))"
    using blocks.free_grab [of "snd (get_free_inode (sbi s))"] pools(3) t(2,3)
    by (simp add: pools_independent be)
  have fi: "free_inodes (sbi t) = free_inodes (sbi s) - {ino}"
    using inos.free_grab [OF pools(1)] ino(1) t(3) by (simp add: pools_independent)
  have po: "block_pool (sbi t)" "block_univ (sbi t) = block_univ (sbi s)" "nr_inodes (sbi t) = nr_inodes (sbi s)"
    "\<And>l. inode_pool l (sbi s) \<Longrightarrow> inode_pool l (sbi t)"
    using blocks.grab_pool [of "snd (get_free_inode (sbi s))"] inos.grab_pool pools(3) t(3)
    by (simp_all add: pools_independent get_free_block_frame block_univ_def get_free_inode_frame)
  let ?s = "registered E dir ?ib nm mode ino ?u"
  have S: "sbi ?s = sbi t" "inodes ?s ino = inodes t ino" "icached ?s = icached t"
    "cache ?s = (cache ?u)(?ib := dir_add nm ino (cache s ?ib))" "refs ?s = refs s"
    "index_block (inodes ?s dir) = ?ib" "i_mode (inodes ?s dir) = i_mode (inodes s dir)"
    "i_nlink (inodes ?s dir) = i_nlink (inodes s dir) + (if S_ISDIR mode then 1 else 0)"
    "\<And>j. j \<noteq> ino \<Longrightarrow> j \<noteq> dir \<Longrightarrow> inodes ?s j = inodes s j" "{ino, dir} \<subseteq> idirty ?s"
    using u(1-5) t(5) ne registered_simps(9) by (simp_all add: registered_simps hold_def)
  have ix: "index_block (inodes t ino) = bno" by (simp add: t(4) N)
  have sb: "\<not> S_ISDIR mode \<longrightarrow> sbi t = snd (get_free_inode (sbi s))" using t(3) by simp
  have "created dir nm mode ino s ?s"
    unfolding created_def Let_def S(1-4) ix
    using fb fi i bf bi u(6,7) t(2,8) S po sb by (simp add: t(4) N pools_independent)
  then show ?thesis using h by blast
qed

lemma lookup_cached:
  assumes "bread_ok E (index_block (inodes s dir))" "dir_inv (cache s (index_block (inodes s dir)))"
    "good_name nm" "(nm, ino) \<in> set (entries_of dir s)" "ino < nr_inodes (sbi s)" "iget_ok E ino" "ino \<in> icached s"
  shows "ouichefs_lookup E dir nm s = Inr (Inr (Some ino), s)"
proof -
  let ?b = "index_block (inodes s dir)"
  have "map_of (entries_of dir s) nm = Some ino"
    using assms(4) dir_invD(3) [OF assms(2)] by simp
  moreover have "icached (hold ?b s) = icached s" by (simp add: hold_def)
  ultimately show ?thesis
    using assms by (simp add: ouichefs_lookup_def ouichefs_iget_def Let_def sb_bread_hold lookup_entries good_name_def not_le)
qed

text \<open>What a lookup answers, whatever it has to load: the entry of the name, unless its inode number is
  beyond the inode store, when the error pointer of \<^verbatim>\<open>ouichefs_iget\<close> is dereferenced.\<close>

lemma lookup_value:
  assumes "dir_inv (cache s (index_block (inodes s dir)))" "good_name nm" "\<And>i. iget_ok E i" "\<And>b. bread_ok E b"
  shows "map_sum id fst (ouichefs_lookup E dir nm s) =
    (case map_of (entries_of dir s) nm of
       None \<Rightarrow> Inr (Inr None)
     | Some i \<Rightarrow> if i < nr_inodes (sbi s) then Inr (Inr (Some i)) else Inl NullDeref)"
  using assms
  by (cases "map_of (entries_of dir s) nm")
    (auto simp: ouichefs_lookup_def ouichefs_iget_def Let_def sb_bread_hold lookup_entries good_name_def not_le)

text \<open>What a creation means for the directory: one more entry, found under its name.\<close>

lemma created_entries:
  assumes dn: "dir_node E dir s" and nm: "good_name nm" "nm \<notin> fst ` set (entries_of dir s)"
    and room: "length (entries_of dir s) < 128" and cr: "created dir nm mode ino s s'" and i0: "ino \<noteq> 0"
  shows "entries_of dir s' = entries_of dir s @ [(nm, ino)]" and "dir_node E dir s'"
proof -
  let ?ib = "index_block (inodes s dir)"
  have D: "bread_ok E ?ib" "?ib \<notin> free_blocks (sbi s)" "dir \<notin> free_inodes (sbi s)" "dir_inv (cache s ?ib)"
    "\<forall>e \<in> set (entries_of dir s). snd e \<notin> free_inodes (sbi s)"
    using dn by (auto simp: dir_node_def Let_def)
  have C: "ino \<in> free_inodes (sbi s)" "free_inodes (sbi s') = free_inodes (sbi s) - {ino}"
    "free_blocks (sbi s') \<subseteq> free_blocks (sbi s)" "cache s' ?ib = dir_add nm ino (cache s ?ib)"
    "index_block (inodes s' dir) = ?ib"
    using cr by (auto simp: created_def Let_def split: if_splits)
  have ni: "ino \<notin> snd ` set (entries_of dir s)" using C(1) D(5) by auto
  note A = dirb.add [OF D(4) nm(1) i0 nm(2) ni room]
  show e: "entries_of dir s' = entries_of dir s @ [(nm, ino)]" using A C(4,5) by simp
  show "dir_node E dir s'"
    using D A C by (auto simp: dir_node_def Let_def)
qed

section \<open>Listing\<close>

text \<open>The names handed out are padded with the rest of their 28 bytes.\<close>

lemma iterate_loop_spec:
  assumes "dir_rep d es" "i \<le> length es" "i + n = 128"
  shows "\<exists>k. k = min (ctx_room c) (length es - i) \<and>
    iterate_loop d i n c = c\<lparr>ctx_pos := ctx_pos c + k, ctx_room := ctx_room c - k,
      ctx_out := ctx_out c @ map (\<lambda>j. (bytes_at d (32 * j + 4) 28, snd (es ! j))) [i..<i + k]\<rparr>"
  using assms(2,3)
proof (induction n arbitrary: i c)
  case 0
  then show ?case using assms(1) by (simp add: dir_rep_def)
next
  case (Suc n)
  note R = assms(1) [unfolded dir_rep_def]
  show ?case
  proof (cases "i = length es")
    case True
    then show ?thesis using dir_rep_name_free(2) [OF assms(1), of i] Suc.prems by simp
  next
    case False
    then have i: "i < length es" "dir_ino d i = snd (es ! i)" "snd (es ! i) \<noteq> 0" using Suc.prems R by auto
    show ?thesis
    proof (cases "ctx_room c = 0")
      case True
      then show ?thesis by (simp add: dir_emit_def)
    next
      case room: False
      let ?c = "c\<lparr>ctx_out := ctx_out c @ [(bytes_at d (32 * i + 4) 28, snd (es ! i))], ctx_room := ctx_room c - 1,
        ctx_pos := ctx_pos c + 1\<rparr>"
      have st: "iterate_loop d i (Suc n) c = iterate_loop d (Suc i) n ?c"
        using i room by (simp add: dir_emit_def)
      have k: "min (ctx_room c) (length es - i) = Suc (min (ctx_room c - 1) (length es - Suc i))"
        using i(1) room by auto
      show ?thesis
        using Suc.IH [of "Suc i" ?c] Suc.prems i(1) unfolding st k
        by (simp add: upt_conv_Cons del: upt_Suc)
    qed
  qed
qed

lemma name_of_padded: "takeWhile (\<lambda>c. c \<noteq> 0) (bytes_at d (32 * j + 4) 28) = name_at d j"
  by (simp add: name_at_def)

lemma iterate_lists:
  assumes "bread_ok E (index_block (inodes s dir))" "dir_inv (cache s (index_block (inodes s dir)))"
    "S_ISDIR (i_mode (inodes s dir))" "ctx_pos c = p + 2" "p \<le> length (entries_of dir s)"
    "length (entries_of dir s) \<le> p + ctx_room c"
  shows "\<exists>c'. ouichefs_iterate E dir parent c s = (0, c', s) \<and> ctx_pos c' = length (entries_of dir s) + 2 \<and>
    (\<exists>out. ctx_out c' = ctx_out c @ out \<and>
      map (\<lambda>(nm, ino). (takeWhile (\<lambda>c. c \<noteq> 0) nm, ino)) out = drop p (entries_of dir s))"
proof -
  let ?ib = "index_block (inodes s dir)" and ?es = "entries_of dir s"
  note D = dir_invD [OF assms(2)]
  let ?out = "map (\<lambda>j. (bytes_at (cache s ?ib) (32 * j + 4) 28, snd (?es ! j))) [p..<length ?es]"
  have k: "min (ctx_room c) (length ?es - p) = length ?es - p" "p + (length ?es - p) = length ?es"
    using assms(5,6) by auto
  obtain c' where c': "iterate_loop (cache s ?ib) p (128 - p) c = c'" "ctx_pos c' = length ?es + 2"
      "ctx_out c' = ctx_out c @ ?out"
    using iterate_loop_spec [OF D(1) assms(5), of "128 - p" c] assms(4,5) D(5) by (simp add: k)
  have "ouichefs_iterate E dir parent c s = (0, c', s)"
    using assms D(5) c'(1) by (simp add: ouichefs_iterate_def dir_emit_dots_def sb_bread_hold)
  moreover have "map (\<lambda>(nm, ino). (takeWhile (\<lambda>c. c \<noteq> 0) nm, ino)) ?out = drop p ?es"
    using D(1) by (intro nth_equalityI) (auto simp: name_of_padded [of _ "p + _", simplified] dir_rep_def prod_eq_iff)
  ultimately show ?thesis using c' by blast
qed

end
