(* ===== verification/Ouiche_Unlink.thy ===== *)
theory Ouiche_Unlink
  imports Ouiche_DirOps
begin

text \<open>
  Removal: the entry leaves the parent directory, and the inode gives back what it owns.  A small
  file gives back its slices, a big file its index block and the blocks its size covers, a directory
  its block.
\<close>

section \<open>The entry\<close>

definition unlinked :: "env \<Rightarrow> u32 \<Rightarrow> u32 \<Rightarrow> fs \<Rightarrow> fs" where
  "unlinked E dir ino s =
     (let ib = index_block (inodes s dir);
          s = mark_buffer_dirty ib (buf_upd ib (dir_del ino) s);
          s = upd_inode dir (\<lambda>nd. nd\<lparr>i_mtime := current_time E, i_ctime := current_time E\<rparr>) s;
          s = (if S_ISDIR (i_mode (inodes s ino)) then inode_dec_link_count dir s else s)
      in mark_inode_dirty dir s)"

lemma unlinked_simps [simp]:
  "sbi (unlinked E dir ino s) = sbi s" "refs (unlinked E dir ino s) = refs s"
  "cache (unlinked E dir ino s) =
     (cache s)(index_block (inodes s dir) := dir_del ino (cache s (index_block (inodes s dir))))"
  "j \<noteq> dir \<Longrightarrow> inodes (unlinked E dir ino s) j = inodes s j"
  "index_block (inodes (unlinked E dir ino s) j) = index_block (inodes s j)"
  "i_nlink (inodes (unlinked E dir ino s) dir) =
     i_nlink (inodes s dir) - (if S_ISDIR (i_mode (inodes s ino)) then 1 else 0)"
  by (simp_all add: unlinked_def Let_def inode_dec_link_count_def)

lemma unlink_entry:
  assumes "bread_ok E (index_block (inodes s dir))" "dir_inv (cache s (index_block (inodes s dir)))"
    "ino \<in> snd ` set (entries_of dir s)"
  shows "ouichefs_unlink E fuel dir ino s =
    release_inode E fuel ino (index_block (inodes s ino)) (unlinked E dir ino s)"
proof -
  let ?ib = "index_block (inodes s dir)"
  obtain f where f: "scan_subs (cache s ?ib) ino None 0 128 = (Some f, length (entries_of dir s))"
    by (rule scan_subs_found [OF assms(2,3)]) simp
  have "buf_upd ?ib (remove_entry f (length (entries_of dir s))) s = buf_upd ?ib (dir_del ino) s"
    using f by (simp add: buf_upd_def dir_del_def)
  then show ?thesis
    using assms(1) f by (simp add: ouichefs_unlink_def unlinked_def Let_def sb_bread_hold brelse_dirtied)
qed

text \<open>An inode that is not in the directory makes \<^verbatim>\<open>f_id\<close> stay \<open>-1\<close>.\<close>

lemma unlink_absent:
  assumes "bread_ok E (index_block (inodes s dir))" "dir_inv (cache s (index_block (inodes s dir)))"
    "ino \<noteq> 0" "ino \<notin> snd ` set (entries_of dir s)"
  shows "ouichefs_unlink E fuel dir ino s = Inl OutOfBounds"
  using assms by (simp add: ouichefs_unlink_def Let_def sb_bread_hold scan_subs_absent)

section \<open>The inode\<close>

lemma clean_inode_simps:
  "cache (clean_inode ino bno sf s) = cache s" "refs (clean_inode ino bno sf s) = refs s"
  "sbi (clean_inode ino bno sf s) = put_inode (if bno \<noteq> 0 \<and> \<not> sf then put_block (sbi s) bno else sbi s) ino"
  "j \<noteq> ino \<Longrightarrow> inodes (clean_inode ino bno sf s) j = inodes s j"
  "inodes (clean_inode ino bno sf s) ino = (inodes s ino)\<lparr>i_blocks := 0, index_block := 0, i_size := 0, i_uid := 0,
     i_gid := 0, i_mode := 0, i_ctime := (0, 0), i_mtime := (0, 0), i_atime := (0, 0), i_nlink := i_nlink (inodes s ino) - 1\<rparr>"
  "ino \<in> idirty (clean_inode ino bno sf s)"
  by (simp_all add: clean_inode_def Let_def inode_dec_link_count_def upd_sbi_def fs_put_block_def)

lemma put_frame:
  "nr_inodes (put_block sb b) = nr_inodes sb" "ifree_bitmap (put_block sb b) = ifree_bitmap sb"
  "nr_free_inodes (put_block sb b) = nr_free_inodes sb"
  "nr_blocks (put_inode sb b) = nr_blocks sb" "bfree_bitmap (put_inode sb b) = bfree_bitmap sb"
  "nr_free_blocks (put_inode sb b) = nr_free_blocks sb"
  by (simp_all add: put_block_def put_inode_def split: prod.splits)

lemma put_independent [simp]:
  "free_inodes (put_block sb b) = free_inodes sb" "inode_pool k (put_block sb b) = inode_pool k sb"
  "inode_univ (put_block sb b) = inode_univ sb"
  "free_blocks (put_inode sb b) = free_blocks sb" "block_pool (put_inode sb b) = block_pool sb"
  "block_univ (put_inode sb b) = block_univ sb"
  by (simp_all add: free_inodes_def inode_pool_def inode_univ_def free_blocks_def block_pool_def block_univ_def put_frame)

text \<open>What is left of a removed inode.\<close>

definition cleaned :: "inode \<Rightarrow> bool" where
  "cleaned nd \<longleftrightarrow> i_mode nd = 0 \<and> i_size nd = 0 \<and> i_blocks nd = 0 \<and> index_block nd = 0"

text \<open>The inode \<open>ino\<close> and the blocks \<open>D\<close> are free, the blocks are cleared, the rest is as it was.\<close>

definition released :: "u32 \<Rightarrow> u32 set \<Rightarrow> fs \<Rightarrow> fs \<Rightarrow> bool" where
  "released ino D s s' \<longleftrightarrow>
     free_blocks (sbi s') = free_blocks (sbi s) \<union> D \<and> block_pool (sbi s') \<and>
     free_inodes (sbi s') = insert ino (free_inodes (sbi s)) \<and>
     (\<forall>k. inode_pool k (sbi s) \<longrightarrow> inode_pool k (sbi s')) \<and>
     (\<forall>b \<in> D. zeroed (cache s' b)) \<and> (\<forall>b. b \<notin> D \<longrightarrow> cache s' b = cache s b) \<and>
     (\<forall>j. j \<noteq> ino \<longrightarrow> inodes s' j = inodes s j) \<and> cleaned (inodes s' ino) \<and> refs s' = refs s"

section \<open>The blocks of a big file\<close>

definition mapped :: "fs \<Rightarrow> u32 \<Rightarrow> nat \<Rightarrow> nat \<Rightarrow> u32 set" where
  "mapped s ib lo hi = index_get (cache s ib) ` {lo..<hi} - {0}"

lemma mapped_step:
  "lo < hi \<Longrightarrow> mapped s ib lo hi =
     (if index_get (cache s ib) lo = 0 then mapped s ib (Suc lo) hi
      else insert (index_get (cache s ib) lo) (mapped s ib (Suc lo) hi))"
proof -
  assume "lo < hi"
  then have "{lo..<hi} = insert lo {Suc lo..<hi}" by auto
  then show ?thesis by (simp add: mapped_def insert_Diff_if)
qed

text \<open>The entries from \<open>i\<close> on name distinct blocks in use, other than the index block.\<close>

definition live_from :: "env \<Rightarrow> u32 \<Rightarrow> nat \<Rightarrow> fs \<Rightarrow> bool" where
  "live_from E ib i s \<longleftrightarrow> block_pool (sbi s) \<and>
     (\<forall>k. i \<le> k \<and> k < 1024 \<and> index_get (cache s ib) k \<noteq> 0 \<longrightarrow>
        index_get (cache s ib) k \<noteq> ib \<and> bread_ok E (index_get (cache s ib) k) \<and>
        index_get (cache s ib) k \<in> block_univ (sbi s) - free_blocks (sbi s) \<and>
        (\<forall>l. i \<le> l \<and> l < 1024 \<and> l \<noteq> k \<longrightarrow> index_get (cache s ib) l \<noteq> index_get (cache s ib) k))"

definition blocks_freed :: "u32 set \<Rightarrow> fs \<Rightarrow> fs \<Rightarrow> bool" where
  "blocks_freed D s s' \<longleftrightarrow>
     free_blocks (sbi s') = free_blocks (sbi s) \<union> D \<and> block_pool (sbi s') \<and> block_univ (sbi s') = block_univ (sbi s) \<and>
     free_inodes (sbi s') = free_inodes (sbi s) \<and> inode_univ (sbi s') = inode_univ (sbi s) \<and>
     (\<forall>k. inode_pool k (sbi s') = inode_pool k (sbi s)) \<and>
     (\<forall>b \<in> D. zeroed (cache s' b)) \<and> (\<forall>b. b \<notin> D \<longrightarrow> cache s' b = cache s b) \<and>
     inodes s' = inodes s \<and> refs s' = refs s"

definition scrubbed :: "u32 \<Rightarrow> fs \<Rightarrow> fs" where
  "scrubbed b s = fs_put_block b (mark_buffer_dirty b (buf_upd b (\<lambda>d. memset d 0 0 4096) s))"

lemma scrubbed_simps [simp]:
  "cache (scrubbed b s) = (cache s)(b := memset (cache s b) 0 0 4096)" "sbi (scrubbed b s) = put_block (sbi s) b"
  "inodes (scrubbed b s) = inodes s" "refs (scrubbed b s) = refs s"
  by (simp_all add: scrubbed_def fs_put_block_def)

lemma block_univ_put_block [simp]: "block_univ (put_block sb b) = block_univ sb"
  by (simp add: block_univ_def)

lemma scrubbed_freed:
  assumes "block_pool (sbi s)" "b \<in> block_univ (sbi s) - free_blocks (sbi s)"
  shows "blocks_freed {b} s (scrubbed b s)"
  using assms blocks.free_put [OF assms(1), of b] blocks.put_pool [OF assms] by (simp add: blocks_freed_def)

lemma live_from_scrubbed:
  assumes "live_from E ib i s" "b = index_get (cache s ib) i" "b \<noteq> 0" "i < 1024"
  shows "live_from E ib (Suc i) (scrubbed b s)"
proof -
  have "b \<in> block_univ (sbi s) - free_blocks (sbi s)" "b \<noteq> ib" "block_pool (sbi s)"
    using assms by (auto simp: live_from_def)
  then show ?thesis
    using assms scrubbed_freed [of s b] by (auto simp: live_from_def blocks_freed_def)
qed

lemma unlink_blocks_freed:
  assumes "live_from E ib i s" "i + n \<le> 1024"
  shows "\<exists>s'. unlink_blocks E ib i n s = Inr s' \<and> blocks_freed (mapped s ib i (i + n)) s s'"
  using assms
proof (induction n arbitrary: i s)
  case 0
  then show ?case by (simp add: blocks_freed_def mapped_def live_from_def)
next
  case (Suc n)
  let ?b = "index_get (cache s ib) i"
  note m = mapped_step [of i "i + Suc n" s ib]
  show ?case
  proof (cases "?b = 0")
    case True
    have "live_from E ib (Suc i) s" using Suc.prems(1) by (auto simp: live_from_def)
    then show ?thesis using Suc.IH [of "Suc i" s] Suc.prems(2) True m by simp
  next
    case False
    have b: "?b \<noteq> ib" "bread_ok E ?b" "?b \<in> block_univ (sbi s) - free_blocks (sbi s)" "block_pool (sbi s)"
      using Suc.prems False by (auto simp: live_from_def)
    let ?t = "scrubbed ?b s"
    have "unlink_blocks E ib i (Suc n) s = unlink_blocks E ib (Suc i) n ?t"
      using Suc.prems(2) False b(1,2)
      by (simp add: sb_bread_hold scrubbed_def buf_upd_def mark_buffer_dirty_def brelse_def hold_def Let_def)
    moreover obtain s' where s': "unlink_blocks E ib (Suc i) n ?t = Inr s'" "blocks_freed (mapped ?t ib (Suc i) (Suc i + n)) ?t s'"
      using Suc.IH [OF live_from_scrubbed [OF Suc.prems(1) refl False]] Suc.prems(2) by auto
    moreover have "mapped ?t ib (Suc i) (Suc i + n) = mapped s ib (Suc i) (i + Suc n)"
      using b(1) by (simp add: mapped_def)
    moreover have "blocks_freed (insert ?b (mapped s ib (Suc i) (i + Suc n))) s s'"
      if "blocks_freed (mapped s ib (Suc i) (i + Suc n)) ?t s'"
      using that scrubbed_freed [OF b(4,3)] by (auto simp: blocks_freed_def)
    ultimately show ?thesis using False m by auto
  qed
qed

section \<open>Releasing an inode\<close>

text \<open>An inode in use.\<close>

abbreviation live_inode :: "nat \<Rightarrow> u32 \<Rightarrow> fs \<Rightarrow> bool" where
  "live_inode k ino s \<equiv> inode_pool k (sbi s) \<and> ino \<in> inode_univ (sbi s) - free_inodes (sbi s)"

text \<open>Clearing the inode last, after the blocks \<open>D\<close> are free.\<close>

lemma clean_released:
  assumes "blocks_freed D s t" "live_inode k ino s" "bno \<in> block_univ (sbi s) - free_blocks (sbi s) - D" "\<not> sf"
    "cache u = (cache t)(bno := memset (cache t bno) 0 0 4096)" "sbi u = sbi t" "inodes u = inodes t" "refs u = refs t"
  shows "released ino (insert bno D) s (clean_inode ino bno sf u)"
proof -
  have T: "block_pool (sbi t)" "bno \<in> block_univ (sbi t) - free_blocks (sbi t)" "inode_pool k (sbi t)"
    "ino \<in> inode_univ (sbi t) - free_inodes (sbi t)"
    using assms(1-3) by (auto simp: blocks_freed_def)
  have nz: "bno \<noteq> 0" using T(2) by (auto simp: block_univ_def)
  have pool: "inode_pool j (put_inode (put_block (sbi t) bno) ino)" if "inode_pool j (sbi s)" for j
    using inos.put_pool [of j "put_block (sbi t) bno" ino] T(4) that assms(1) by (simp add: blocks_freed_def)
  have fi: "free_inodes (put_inode (put_block (sbi t) bno) ino) = insert ino (free_inodes (sbi t))"
    using inos.free_put [of k "put_block (sbi t) bno" ino] T(3,4) by simp
  have C: "sbi (clean_inode ino bno sf u) = put_inode (put_block (sbi t) bno) ino"
    using nz assms(4,6) by (simp add: clean_inode_simps)
  show ?thesis
    unfolding released_def C
    using assms(1) pool fi blocks.free_put [OF T(1), of bno] blocks.put_pool [OF T(1,2)] T(2)
    by (auto simp: clean_inode_simps assms(5,7,8) blocks_freed_def cleaned_def)
qed

lemma release_dir:
  assumes "S_ISDIR (i_mode (inodes s ino))" "bread_ok E bno" "block_pool (sbi s)"
    "bno \<in> block_univ (sbi s) - free_blocks (sbi s)" "live_inode k ino s"
  shows "\<exists>s'. release_inode E fuel ino bno s = Inr (0, s') \<and> released ino {bno} s s'"
proof -
  have nz: "bno \<noteq> 0" using assms(4) by (auto simp: block_univ_def)
  let ?u = "brelse bno (sync_dirty_buffer bno (mark_buffer_dirty bno (buf_upd bno (\<lambda>d. memset d 0 0 4096) (hold bno s))))"
  have "release_inode E fuel ino bno s = Inr (0, clean_inode ino bno False ?u)"
    using assms(1,2) nz by (simp add: release_inode_def Let_def sb_bread_hold)
  moreover have "released ino (insert bno {}) s (clean_inode ino bno False ?u)"
    using assms by (intro clean_released [where t = s and k = k])
      (auto simp: blocks_freed_def fs_defs hold_def)
  ultimately show ?thesis by simp
qed

lemma release_big:
  assumes "\<not> S_ISDIR (i_mode (inodes s ino))" "unat (i_blocks (inodes s ino)) = Suc n" "n \<le> 1024" "bread_ok E bno"
    "live_from E bno 0 s" "bno \<in> block_univ (sbi s) - free_blocks (sbi s)" "live_inode k ino s"
  shows "\<exists>s'. release_inode E fuel ino bno s = Inr (0, s') \<and> released ino (insert bno (mapped s bno 0 n)) s s'"
proof -
  have nz: "bno \<noteq> 0" "i_blocks (inodes s ino) \<noteq> 0" using assms(2,6) by (auto simp: block_univ_def)
  have n: "unat (i_blocks (inodes s ino) - 1) = n"
    using assms(2) nz(2) by (simp add: unat_minus_one)
  have live: "live_from E bno 0 (hold bno s)" using assms(5) by (simp add: live_from_def)
  have mp: "mapped (hold bno s) bno 0 n = mapped s bno 0 n" by (simp add: mapped_def)
  obtain t where t: "unlink_blocks E bno 0 n (hold bno s) = Inr t" "blocks_freed (mapped s bno 0 n) (hold bno s) t"
    using unlink_blocks_freed [OF live, of n] assms(3) by (auto simp: mp)
  have ib: "bno \<notin> mapped s bno 0 n"
  proof
    assume "bno \<in> mapped s bno 0 n"
    then obtain k where "k < n" "index_get (cache s bno) k = bno" by (auto simp: mapped_def)
    then show False using assms(3,5) nz(1) unfolding live_from_def by (metis le0 less_le_trans)
  qed
  let ?u = "brelse bno (sync_dirty_buffer bno (mark_buffer_dirty bno (buf_upd bno (\<lambda>d. memset d 0 0 4096) t)))"
  have h: "release_inode E fuel ino bno s = Inr (0, clean_inode ino bno False ?u)"
    using assms(1,4) nz t(1) n by (simp add: release_inode_def Let_def sb_bread_hold)
  have "blocks_freed (mapped s bno 0 n) s (brelse bno t)"
    using t(2) by (auto simp: blocks_freed_def hold_def brelse_def)
  then have "released ino (insert bno (mapped s bno 0 n)) s (clean_inode ino bno False ?u)"
    using assms(6,7) ib by (intro clean_released [where t = "brelse bno t" and k = k]) (auto simp: fs_defs)
  then show ?thesis using h by blast
qed

text \<open>A file that was never written owns nothing.\<close>

lemma release_empty:
  assumes "\<not> S_ISDIR (i_mode (inodes s ino))" "i_blocks (inodes s ino) = 0" "index_block (inodes s ino) = 0"
    "block_pool (sbi s)" "live_inode k ino s"
  shows "\<exists>s'. release_inode E fuel ino 0 s = Inr (0, s') \<and> released ino {} s s' \<and> sbi s' = put_inode (sbi s) ino"
proof -
  let ?t = "mark_inode_dirty ino (upd_inode ino (\<lambda>nd. nd\<lparr>index_block := 0, i_size := 0\<rparr>) s)"
  have "SMALL_FILE_GET_BNO (inodes s ino) = 0" using assms(3) by (simp add: SMALL_FILE_GET_BNO_def)
  then have "release_inode E fuel ino 0 s = Inr (0, clean_inode ino 0 True ?t)"
    using assms(1,2) by (simp add: release_inode_def Let_def delete_slice_and_clear_inode_def delete_slice_def)
  moreover have "inode_pool j (put_inode (sbi s) ino)" if "inode_pool j (sbi s)" for j
    using inos.put_pool [OF that] assms(5) by blast
  then have "released ino {} s (clean_inode ino 0 True ?t)"
    using assms(4,5) inos.free_put [of k "sbi s" ino]
    by (simp add: released_def clean_inode_simps cleaned_def)
  moreover have "sbi (clean_inode ino 0 True ?t) = put_inode (sbi s) ino" by (simp add: clean_inode_simps)
  ultimately show ?thesis by blast
qed

section \<open>Removal from a directory\<close>

text \<open>The parent after the removal, when none of the blocks given back is its own.\<close>

lemma unlinked_node:
  assumes dn: "dir_node E dir s" and mem: "ino \<in> snd ` set (entries_of dir s)"
    and rel: "free_blocks (sbi s') = free_blocks (sbi s) \<union> D" "free_inodes (sbi s') = insert ino (free_inodes (sbi s))"
    and own: "index_block (inodes s dir) \<notin> D" "ino \<noteq> dir"
    and keep: "cache s' (index_block (inodes s dir)) = dir_del ino (cache s (index_block (inodes s dir)))"
      "index_block (inodes s' dir) = index_block (inodes s dir)"
  shows "entries_of dir s' = filter (\<lambda>e. snd e \<noteq> ino) (entries_of dir s)" and "dir_node E dir s'"
proof -
  let ?ib = "index_block (inodes s dir)"
  have D: "bread_ok E ?ib" "?ib \<notin> free_blocks (sbi s)" "dir \<notin> free_inodes (sbi s)" "dir_inv (cache s ?ib)"
    "\<forall>e \<in> set (entries_of dir s). snd e \<notin> free_inodes (sbi s)"
    using dn by (auto simp: dir_node_def Let_def)
  note A = dirb.del [OF D(4) mem]
  show e: "entries_of dir s' = filter (\<lambda>e. snd e \<noteq> ino) (entries_of dir s)" using A keep by simp
  show "dir_node E dir s'"
    using D A keep rel own by (auto simp: dir_node_def Let_def)
qed

section \<open>Small files\<close>

lemma sb_inode_part:
  "free_blocks (sb\<lparr>ifree_bitmap := m, nr_free_inodes := n\<rparr>) = free_blocks sb"
  "block_univ (sb\<lparr>ifree_bitmap := m, nr_free_inodes := n\<rparr>) = block_univ sb"
  "block_pool (sb\<lparr>ifree_bitmap := m, nr_free_inodes := n\<rparr>) = block_pool sb"
  by (simp_all add: free_blocks_def block_univ_def block_pool_def)

text \<open>The slices depend on the chain blocks, the free blocks and the inodes of the small files only.\<close>

lemma small_vol_cong:
  assumes vol: "small_vol E s xs F" and sb: "sbi t = (sbi s)\<lparr>ifree_bitmap := m, nr_free_inodes := n\<rparr>"
    and ca: "\<And>b. b \<in> set xs \<or> b \<in> free_blocks (sbi s) \<Longrightarrow> cache t b = cache s b"
    and no: "\<And>i. i \<in> F \<Longrightarrow> inodes t i = inodes s i"
  shows "small_vol E t xs F"
proof -
  have "chain (cache t) h xs = chain (cache s) h xs" for h
    by (rule chain_cong) (simp add: ca)
  then have "sliced_chain E t xs = sliced_chain E s xs"
    by (simp add: sliced_chain_def sb sb_inode_part)
  moreover have "mounted E t = mounted E s" "free_zeroed t = free_zeroed s"
    using ca by (simp_all add: mounted_def io_ok_def free_zeroed_def sb sb_inode_part)
  moreover have "bits_exact t F b = bits_exact s F b" if "b \<in> set xs" for b
    using that by (simp add: bits_exact_def ca no)
  moreover have "(\<Sum>l \<in> F. unat (num_slices (inodes t l))) = (\<Sum>l \<in> F. unat (num_slices (inodes s l)))"
    by (intro sum.cong) (simp_all add: no)
  ultimately show ?thesis
    using vol unfolding small_vol_def slice_inv_def by (simp add: no ca sb)
qed

lemma put_inode_part: "\<exists>m n. put_inode sb ino = sb\<lparr>ifree_bitmap := m, nr_free_inodes := n\<rparr>"
  by (intro exI [of _ "ifree_bitmap (put_inode sb ino)"] exI [of _ "nr_free_inodes (put_inode sb ino)"])
    (simp add: put_inode_def split: prod.splits)

text \<open>Removing a small file gives back its slices and the sliced blocks left empty.\<close>

definition unlinked_small :: "env \<Rightarrow> u32 \<Rightarrow> u32 list \<Rightarrow> u32 set \<Rightarrow> fs \<Rightarrow> fs \<Rightarrow> bool" where
  "unlinked_small E ino xs F s s' \<longleftrightarrow>
     (\<exists>xs'. set xs' \<subseteq> set xs \<and> small_vol E s' xs' (F - {ino}) \<and>
        free_blocks (sbi s') = free_blocks (sbi s) \<union> (set xs - set xs')) \<and>
     (\<forall>l \<in> F - {ino}. \<forall>p < i_size (inodes s l). small_byte s' l p = small_byte s l p) \<and>
     free_inodes (sbi s') = insert ino (free_inodes (sbi s)) \<and> cleaned (inodes s' ino) \<and>
     nr_inodes (sbi s') = nr_inodes (sbi s) \<and> (\<forall>k. inode_pool k (sbi s) \<longrightarrow> inode_pool k (sbi s')) \<and>
     (\<forall>b. b \<notin> set xs \<longrightarrow> cache s' b = cache s b) \<and>
     (\<forall>j. j \<noteq> ino \<longrightarrow> inodes s' j = inodes s j) \<and> refs s' = refs s"

text \<open>The slices do not touch the inode pool.\<close>

lemma inode_part_put_block [simp]: "inode_part (put_block sb b) = inode_part sb"
  by (simp add: inode_part_def put_frame)

lemma reap_inode_part:
  "reap_sliced_blocks E fuel b p s = Inr (r, s') \<Longrightarrow> inode_part (sbi s') = inode_part (sbi s)"
proof (induction fuel arbitrary: b p s)
  case 0
  then show ?case
    by (subst (asm) reap_sliced_blocks.simps) (auto simp: brelse_opt_def split: if_splits option.splits)
next
  case (Suc fuel)
  let ?frees = "BITMAP_IS_ALL_FREE (cache s b)" and ?next = "SLICED_BLOCK_SB_NEXT (cache s b)"
  have "inode_part (sbi (brelse_opt p t)) = inode_part (sbi t)" for p t
    by (simp add: brelse_opt_def split: option.split)
  moreover have "inode_part (sb\<lparr>nr_sliced_blocks := x\<rparr>) = inode_part sb"
    "inode_part (sb\<lparr>s_free_sliced_blocks := x\<rparr>) = inode_part sb" for x sb by (simp_all add: inode_part_def)
  ultimately show ?case
    using Suc.prems
    by (subst (asm) reap_sliced_blocks.simps)
      (auto simp: sb_bread_def Let_def upd_sbi_def fs_put_block_def dest!: Suc.IH split: if_splits option.splits)
qed

lemma delete_inode_part:
  assumes "delete_slice_and_clear_inode E fuel i s = Inr (r, s')"
  shows "inode_part (sbi s') = inode_part (sbi s)"
proof -
  have "inode_part (sb\<lparr>nr_used_slices := x\<rparr>) = inode_part sb" for x sb by (simp add: inode_part_def)
  then show ?thesis
    using assms
    by (auto simp: delete_slice_and_clear_inode_def delete_slice_def sb_bread_def Let_def upd_sbi_def
        dest!: reap_inode_part split: if_splits sum.splits option.splits)
qed

lemma release_small:
  assumes vol: "small_vol E s xs F" and i: "ino \<in> F" "length xs \<le> fuel" "\<not> S_ISDIR (i_mode (inodes s ino))"
    and live: "live_inode k ino s"
  shows "\<exists>s'. release_inode E fuel ino bno s = Inr (0, s') \<and> unlinked_small E ino xs F s s'"
proof -
  obtain t where d: "delete_slice_and_clear_inode E fuel ino s = Inr (0, t)" and T: "small_deleted E ino s xs F t"
    using delete_small [OF vol i(1,2)] by blast
  have "small_node xs (inodes s ino)" using vol i(1) by (auto simp: small_vol_def slice_inv_def)
  then have b0: "i_blocks (inodes s ino) = 0" by (simp add: small_node_def)
  let ?s = "clean_inode ino bno True t"
  have h: "release_inode E fuel ino bno s = Inr (0, ?s)"
    using i(3) b0 d by (simp add: release_inode_def Let_def)
  note P = inode_part_cong [OF delete_inode_part [OF d]]
  have sb: "sbi ?s = put_inode (sbi t) ino" by (simp add: clean_inode_simps)
  obtain m n where mn: "sbi ?s = (sbi t)\<lparr>ifree_bitmap := m, nr_free_inodes := n\<rparr>"
    using put_inode_part [of "sbi t" ino] sb by auto
  obtain xs' where xs': "set xs' \<subseteq> set xs" "small_vol E t xs' (F - {ino})"
      "free_blocks (sbi t) = free_blocks (sbi s) \<union> (set xs - set xs')"
    using T by (auto simp: small_deleted_def)
  have v: "small_vol E ?s xs' (F - {ino})"
    by (rule small_vol_cong [OF xs'(2) mn]) (simp_all add: clean_inode_simps)
  have fi: "free_inodes (sbi ?s) = insert ino (free_inodes (sbi s))"
    using inos.free_put [of k "sbi t" ino] live P by (simp add: sb)
  have pk: "nr_inodes (sbi ?s) = nr_inodes (sbi s)" "\<forall>k. inode_pool k (sbi s) \<longrightarrow> inode_pool k (sbi ?s)"
    using inos.put_pool [of _ "sbi t" ino] live P delete_inode_part [OF d] by (simp_all add: sb inode_part_def)
  have "unlinked_small E ino xs F s ?s"
    unfolding unlinked_small_def
  proof (intro conjI exI [of _ xs'] xs'(1) v fi pk)
    show "free_blocks (sbi ?s) = free_blocks (sbi s) \<union> (set xs - set xs')" using xs'(3) sb by simp
    show "\<forall>l \<in> F - {ino}. \<forall>p < i_size (inodes s l). small_byte ?s l p = small_byte s l p"
      using T by (auto simp: small_deleted_def small_byte_def clean_inode_simps)
  qed (use T in \<open>auto simp: small_deleted_def clean_inode_simps cleaned_def\<close>)
  then show ?thesis using h by blast
qed

lemma unlink_big_file:
  assumes dn: "dir_node E dir s" and mem: "ino \<in> snd ` set (entries_of dir s)" "ino \<noteq> dir"
    and bf: "big_file E ino s" "\<not> S_ISDIR (i_mode (inodes s ino))" and live: "live_inode k ino s"
    and own: "index_block (inodes s dir) \<notin> insert (index_block (inodes s ino)) (data_blocks s (index_block (inodes s ino)))"
  shows "\<exists>s'. ouichefs_unlink E fuel dir ino s = Inr (0, s') \<and>
    released ino (insert (index_block (inodes s ino))
        (mapped s (index_block (inodes s ino)) 0 (div_round_up (i_size (inodes s ino)) 4096)))
      (unlinked E dir ino s) s' \<and>
    entries_of dir s' = filter (\<lambda>e. snd e \<noteq> ino) (entries_of dir s) \<and> dir_node E dir s'"
proof -
  let ?ib = "index_block (inodes s dir)" and ?b = "index_block (inodes s ino)"
  let ?n = "div_round_up (i_size (inodes s ino)) 4096" and ?t = "unlinked E dir ino s"
  have D: "bread_ok E ?ib" "dir_inv (cache s ?ib)" using dn by (auto simp: dir_node_def Let_def)
  note W = bf(1) [unfolded big_file_def big_wf_def]
  have n: "?n \<le> 1024" using W div_round_up_le_iff [of 4096 "i_size (inodes s ino)" 1024] by simp
  have bl: "unat (i_blocks (inodes ?t ino)) = Suc ?n" using big_file_blocks(1) [OF bf(1)] mem(2) by simp
  have cb: "cache ?t ?b = cache s ?b" using own by auto
  have lf: "live_from E ?b 0 ?t"
    using W unfolding live_from_def cb by (auto simp: io_ok_def) metis
  have mp: "mapped ?t ?b 0 ?n = mapped s ?b 0 ?n" unfolding mapped_def cb ..
  obtain s' where s': "release_inode E fuel ino ?b ?t = Inr (0, s')" "released ino (insert ?b (mapped s ?b 0 ?n)) ?t s'"
    using release_big [of ?t ino ?n E ?b k fuel] bf(2) bl n lf W live mem(2) by (auto simp: io_ok_def mp)
  have nin: "?ib \<notin> insert ?b (mapped s ?b 0 ?n)" using own n by (auto simp: mapped_def data_blocks_def)
  then have "cache s' ?ib = dir_del ino (cache s ?ib)" "index_block (inodes s' dir) = ?ib"
    using s'(2) mem(2) by (auto simp: released_def)
  then show ?thesis
    using s' unlink_entry [OF D mem(1), of fuel]
      unlinked_node [OF dn mem(1), of s' "insert ?b (mapped s ?b 0 ?n)"] nin mem(2) by (simp add: released_def)
qed

lemma unlink_small_file:
  assumes dn: "dir_node E dir s" and mem: "ino \<in> snd ` set (entries_of dir s)" "ino \<noteq> dir"
    and vol: "small_vol E s xs F" "ino \<in> F" "length xs \<le> fuel" "\<not> S_ISDIR (i_mode (inodes s ino))"
    and live: "live_inode k ino s" and own: "index_block (inodes s dir) \<notin> set xs" "dir \<notin> F"
  shows "\<exists>s'. ouichefs_unlink E fuel dir ino s = Inr (0, s') \<and>
    unlinked_small E ino xs F (unlinked E dir ino s) s' \<and>
    entries_of dir s' = filter (\<lambda>e. snd e \<noteq> ino) (entries_of dir s) \<and> dir_node E dir s'"
proof -
  let ?ib = "index_block (inodes s dir)" and ?t = "unlinked E dir ino s"
  have D: "bread_ok E ?ib" "dir_inv (cache s ?ib)" "?ib \<notin> free_blocks (sbi s)" using dn by (auto simp: dir_node_def Let_def)
  have v: "small_vol E ?t xs F"
    using D(3) own
    by (intro small_vol_cong [OF vol(1), where m = "ifree_bitmap (sbi s)" and n = "nr_free_inodes (sbi s)"])
      (auto intro!: unlinked_simps(4))
  obtain s' where s': "release_inode E fuel ino (index_block (inodes s ino)) ?t = Inr (0, s')"
      "unlinked_small E ino xs F ?t s'"
    using release_small [OF v vol(2,3), of k] vol(4) live mem(2) by auto
  obtain xs' where xs': "free_blocks (sbi s') = free_blocks (sbi s) \<union> (set xs - set xs')"
    using s'(2) by (auto simp: unlinked_small_def)
  have "cache s' ?ib = dir_del ino (cache s ?ib)" "index_block (inodes s' dir) = ?ib"
    "free_inodes (sbi s') = insert ino (free_inodes (sbi s))"
    using s'(2) mem(2) own(1) by (auto simp: unlinked_small_def)
  then show ?thesis
    using s' unlink_entry [OF D(1,2) mem(1), of fuel] unlinked_node [OF dn mem(1) xs'] own(1) mem(2) by auto
qed

lemma rmdir_empty:
  assumes dn: "dir_node E dir s" and mem: "ino \<in> snd ` set (entries_of dir s)" "ino \<noteq> dir"
    and nd: "S_ISDIR (i_mode (inodes s ino))" "i_nlink (inodes s ino) \<le> 2" "bread_ok E (index_block (inodes s ino))"
    and empty: "dir_ino (cache s (index_block (inodes s ino))) 0 = 0"
    and blk: "block_pool (sbi s)" "index_block (inodes s ino) \<in> block_univ (sbi s) - free_blocks (sbi s)"
    and live: "live_inode k ino s" and own: "index_block (inodes s dir) \<noteq> index_block (inodes s ino)"
  shows "\<exists>s'. ouichefs_rmdir E fuel dir ino s = Inr (0, s') \<and>
    released ino {index_block (inodes s ino)} (unlinked E dir ino s) s' \<and>
    entries_of dir s' = filter (\<lambda>e. snd e \<noteq> ino) (entries_of dir s) \<and> dir_node E dir s'"
proof -
  let ?ib = "index_block (inodes s dir)" and ?b = "index_block (inodes s ino)" and ?t = "unlinked E dir ino s"
  have D: "bread_ok E ?ib" "dir_inv (cache s ?ib)" using dn by (auto simp: dir_node_def Let_def)
  have r: "ouichefs_rmdir E fuel dir ino s = ouichefs_unlink E fuel dir ino s"
    using nd(3) empty leD [OF nd(2)] by (simp add: ouichefs_rmdir_def sb_bread_hold Let_def)
  obtain s' where s': "release_inode E fuel ino ?b ?t = Inr (0, s')" "released ino {?b} ?t s'"
    using release_dir [of ?t ino E ?b k fuel] nd blk live mem(2) by auto
  then have "cache s' ?ib = dir_del ino (cache s ?ib)" "index_block (inodes s' dir) = ?ib"
    using mem(2) own by (auto simp: released_def)
  then show ?thesis
    using s' r unlink_entry [OF D mem(1), of fuel] unlinked_node [OF dn mem(1), of s' "{?b}"] own mem(2)
    by (simp add: released_def)
qed

end
