(* ===== verification/Ouiche_Volumes.thy ===== *)
theory Ouiche_Volumes
  imports Ouiche_SmallFile
begin

text \<open>
  Concrete volumes of eight blocks, on which the theorems of the development are applied: an empty
  one, one with a five-byte small file, one with a three-byte big file, one with no free block and
  one with a single free block.
\<close>

definition demo_env :: env where
  "demo_env = \<lparr>bread_ok = \<lambda>_. True, kmalloc_ok = \<lambda>_. True, current_time = (7, 0),
     iget_ok = \<lambda>_. True\<rparr>"

text \<open>Blocks 4 to 7 and inodes 2 to 7 are free.\<close>

definition demo_sb :: sb_info where
  "demo_sb = \<lparr>magic = OUICHEFS_MAGIC, nr_blocks = 8, nr_inodes = 8, nr_istore_blocks = 1,
     nr_ifree_blocks = 1, nr_bfree_blocks = 1, nr_sliced_blocks = 0, nr_free_inodes = 6,
     nr_free_blocks = 4, nr_used_slices = 0, s_free_sliced_blocks = 0,
     ifree_bitmap = (\<lambda>_. 0)(0 := 0xFC), bfree_bitmap = (\<lambda>_. 0)(0 := 0xF0)\<rparr>"

definition demo_inode :: inode where
  "demo_inode = \<lparr>i_mode = 33188, i_uid = 0, i_gid = 0, i_size = 0, i_ctime = (0, 0), i_atime = (0, 0),
     i_mtime = (0, 0), i_blocks = 0, i_nlink = 1, index_block = 0, num_slices = 0\<rparr>"

definition demo_fs :: fs where
  "demo_fs = \<lparr>sbi = demo_sb, cache = \<lambda>_ _. 0, disk = \<lambda>_ _. 0, dirty = {}, refs = \<lambda>_. 0,
     inodes = \<lambda>_. demo_inode, icached = {}, idirty = {}\<rparr>"

text \<open>Inode 2 is a small file: the five bytes \<^verbatim>\<open>hello\<close> in slice 1 of the sliced block 4.\<close>

definition hello :: "u8 list" where
  "hello = [104, 101, 108, 108, 111]"

lemma hello_facts [simp]: "length hello = 5" "hello \<noteq> []"
  by (simp_all add: hello_def)

definition demo_small :: fs where
  "demo_small = demo_fs\<lparr>
     sbi := demo_sb\<lparr>nr_sliced_blocks := 1, nr_used_slices := 1, s_free_sliced_blocks := 4,
       nr_free_blocks := 3, bfree_bitmap := (\<lambda>_. 0)(0 := 0xE0)\<rparr>,
     cache := (\<lambda>_ _. 0)(4 := memcpy (memcpy (\<lambda>_. 0) 0 [0xFC, 0xFF, 0xFF, 0xFF]) 128 hello),
     inodes := (\<lambda>_. demo_inode)(2 := demo_inode\<lparr>i_size := 5, num_slices := 1, index_block := 129\<rparr>)\<rparr>"

text \<open>Inode 2 is a big file: index block 4, data block 5.\<close>

definition demo_big :: fs where
  "demo_big = demo_fs\<lparr>
     sbi := demo_sb\<lparr>nr_free_blocks := 2, bfree_bitmap := (\<lambda>_. 0)(0 := 0xC0)\<rparr>,
     cache := (\<lambda>_ _. 0)(4 := (\<lambda>_. 0)(0 := 5), 5 := memcpy (\<lambda>_. 0) 0 [1, 2, 3]),
     inodes := (\<lambda>_. demo_inode)(2 := demo_inode\<lparr>i_size := 3, i_blocks := 2, index_block := 4\<rparr>)\<rparr>"

text \<open>A volume whose block pool is exhausted, and one with a single free block.\<close>

definition demo_full :: fs where
  "demo_full = demo_fs\<lparr>sbi := demo_sb\<lparr>nr_free_blocks := 0, bfree_bitmap := \<lambda>_. 0\<rparr>\<rparr>"

definition demo_last :: fs where
  "demo_last = demo_fs\<lparr>sbi := demo_sb\<lparr>nr_free_blocks := 1, bfree_bitmap := (\<lambda>_. 0)(0 := 0x80)\<rparr>\<rparr>"

section \<open>Their pools\<close>

lemma test_bit_single: "test_bit ((\<lambda>_. 0)(0 := w)) k \<longleftrightarrow> k < 64 \<and> bit w k"
  by (auto simp: test_bit_def)

lemma free_bits_small:
  "free_bits ((\<lambda>_. 0)(0 := w)) 8 = {k. k < 8 \<and> bit w k}"
  by (auto simp: free_bits_def test_bit_single)

lemma less_eight: "k < (8 :: nat) \<longleftrightarrow> k \<in> {0, 1, 2, 3, 4, 5, 6, 7}"
  by auto

lemma demo_bits:
  "{k. k < 8 \<and> bit (0xF0 :: u64) k} = {4, 5, 6, 7}"
  "{k. k < 8 \<and> bit (0xE0 :: u64) k} = {5, 6, 7}"
  "{k. k < 8 \<and> bit (0xC0 :: u64) k} = {6, 7}"
  "{k. k < 8 \<and> bit (0xFC :: u64) k} = {2, 3, 4, 5, 6, 7}"
  unfolding less_eight by auto

lemma demo_free_bits:
  "free_bits ((\<lambda>_. 0)(0 := 0xF0)) 8 = {4, 5, 6, 7}"
  "free_bits ((\<lambda>_. 0)(0 := 0xE0)) 8 = {5, 6, 7}"
  "free_bits ((\<lambda>_. 0)(0 := 0xC0)) 8 = {6, 7}"
  "free_bits ((\<lambda>_. 0)(0 := 0xFC)) 8 = {2, 3, 4, 5, 6, 7}"
  unfolding free_bits_small by (rule demo_bits)+

lemma unat_in_eq: "{b :: u32. unat b \<in> {}} = {}"
  "k < 4294967296 \<Longrightarrow> {b :: u32. unat b \<in> insert k A} = insert (of_nat k) {b. unat b \<in> A}"
proof -
  assume "k < 4294967296"
  then have "unat b = k \<longleftrightarrow> b = of_nat k" for b :: u32
    by (auto simp: word_unat_eq_iff unat_of_nat_u32)
  then show "{b :: u32. unat b \<in> insert k A} = insert (of_nat k) {b. unat b \<in> A}" by auto
qed simp

lemma demo_free_blocks:
  "free_blocks demo_sb = {4, 5, 6, 7}"
  "free_blocks (sbi demo_small) = {5, 6, 7}"
  "free_blocks (sbi demo_big) = {6, 7}"
  by (simp_all add: free_blocks_def demo_sb_def demo_small_def demo_big_def demo_free_bits
      unat_in_eq del: insert_iff fun_upd_apply)

lemma demo_free_inodes: "free_inodes demo_sb = {2, 3, 4, 5, 6, 7}"
  by (simp add: free_inodes_def demo_sb_def demo_free_bits unat_in_eq del: insert_iff fun_upd_apply)

lemma demo_pools:
  "block_pool demo_sb" "block_pool (sbi demo_small)" "block_pool (sbi demo_big)" "inode_pool 0 demo_sb"
  by (simp_all add: block_pool_def inode_pool_def bitmap_pool_def demo_sb_def demo_small_def demo_big_def
      demo_free_bits test_bit_single del: fun_upd_apply)

lemma demo_mounted: "mounted demo_env demo_fs" "mounted demo_env demo_small" "io_ok demo_env demo_big"
  by (simp_all add: mounted_def io_ok_def demo_env_def demo_fs_def demo_small_def demo_sb_def)

lemma demo_free_zeroed: "free_zeroed demo_fs" "free_zeroed demo_small" "free_zeroed demo_big"
  unfolding free_zeroed_def demo_free_blocks
  by (simp_all add: demo_fs_def demo_small_def demo_big_def zeroed_def)

lemma demo_full_pool: "block_pool (sbi demo_full)" "free_blocks (sbi demo_full) = {}"
  by (simp_all add: demo_full_def block_pool_def bitmap_pool_def free_blocks_def free_bits_def test_bit_def demo_sb_def)

lemma demo_last_pool: "block_pool (sbi demo_last)" "free_blocks (sbi demo_last) = {7}"
proof -
  have "{k. k < 8 \<and> bit (0x80 :: u64) k} = {7}" unfolding less_eight by auto
  then have f: "free_bits ((\<lambda>_. 0)(0 := 0x80)) 8 = {7}" unfolding free_bits_small .
  show "block_pool (sbi demo_last)" "free_blocks (sbi demo_last) = {7}"
    by (simp_all add: demo_last_def demo_sb_def block_pool_def bitmap_pool_def free_blocks_def f unat_in_eq
        test_bit_single del: insert_iff fun_upd_apply)
qed

section \<open>Their invariants\<close>

lemma demo_fs_vol: "small_vol demo_env demo_fs [] {}"
  using demo_mounted(1) demo_free_zeroed(1) demo_pools(1)
  by (simp add: small_vol_def slice_inv_def sliced_chain_def) (simp add: demo_fs_def demo_sb_def)

lemma demo_small_header:
  "bm_of demo_small 4 = 0xFFFFFFFC" "SLICED_BLOCK_SB_NEXT (cache demo_small 4) = 0"
  by (simp_all add: demo_small_def demo_fs_def SLICED_BLOCK_SB_BITMAP_def SLICED_BLOCK_SB_NEXT_def
      get_le_def memcpy_def hello_def)

lemma demo_small_inode:
  "SMALL_FILE_GET_BNO (inodes demo_small 2) = 4" "SMALL_FILE_GET_SLICE (inodes demo_small 2) = 1"
  "num_slices (inodes demo_small 2) = 1" "i_size (inodes demo_small 2) = 5" "i_blocks (inodes demo_small 2) = 0"
  "occupies (inodes demo_small 2) b k \<longleftrightarrow> b = 4 \<and> k = 1"
  by (auto simp: demo_small_def demo_fs_def demo_inode_def SMALL_FILE_GET_BNO_def SMALL_FILE_GET_SLICE_def
      drop_bit_eq_div occupies_def)

lemma demo_small_other:
  "i \<noteq> 2 \<Longrightarrow> index_block (inodes demo_small i) = 0" "i \<noteq> 2 \<Longrightarrow> i_blocks (inodes demo_small i) = 0"
  "i \<noteq> 2 \<Longrightarrow> i_size (inodes demo_small i) = 0"
  by (simp_all add: demo_small_def demo_inode_def)

lemma demo_fs_new: "index_block (inodes demo_fs i) = 0" "i_blocks (inodes demo_fs i) = 0" "i_size (inodes demo_fs i) = 0"
  "free_blocks (sbi demo_fs) \<noteq> {}"
  by (simp_all add: demo_fs_def demo_inode_def demo_free_blocks)

lemma bit_one_used: "bit (0xFFFFFFFC :: u32) k \<longleftrightarrow> 2 \<le> k \<and> k < 32"
proof -
  have eq: "(0xFFFFFFFC :: u32) = NOT (Bit_Operations.mask 2)" by (simp add: mask_eq_exp_minus_1)
  show ?thesis unfolding eq bit_not_iff bit_mask_iff by auto
qed

lemma demo_small_cells: "bits_exact demo_small {2} 4" "free_slices_zero (cache demo_small 4)"
proof -
  show "bits_exact demo_small {2} 4"
    unfolding bits_exact_def demo_small_header bit_one_used using demo_small_inode(6) by auto
  have "cache demo_small 4 p = 0" if "256 \<le> p" for p
    using that by (simp add: demo_small_def memcpy_def hello_def)
  then show "free_slices_zero (cache demo_small 4)"
    unfolding free_slices_zero_def demo_small_header bit_one_used by (auto simp: less_eq_div_iff_mult_less_eq)
qed

lemma demo_small_chain: "sliced_chain demo_env demo_small [4]"
  using demo_free_blocks(2) demo_pools(2) demo_small_header(2)
  by (simp add: sliced_chain_def block_univ_def)
    (simp add: demo_small_def demo_env_def demo_fs_def demo_sb_def)

lemma demo_small_vol: "small_vol demo_env demo_small [4] {2}"
  unfolding small_vol_def slice_inv_def
proof (intro conjI)
  show "\<forall>i \<in> {2}. small_node [4] (inodes demo_small i)"
    by (simp add: small_node_def demo_small_inode div_round_up_def)
  show "nr_sliced_blocks (sbi demo_small) = of_nat (length [4 :: u32])"
    "nr_used_slices (sbi demo_small) = of_nat (\<Sum>i \<in> {2}. unat (num_slices (inodes demo_small i)))"
    by (simp_all add: demo_small_inode) (simp_all add: demo_small_def demo_sb_def)
qed (use demo_small_chain demo_mounted(2) demo_free_zeroed(2) demo_small_cells demo_small_inode in auto)

lemma demo_big_index: "index_get (cache demo_big 4) k = (if k = 0 then 5 else 0)"
proof (cases "k = 0")
  case True
  then show ?thesis by (simp add: index_get_def demo_big_def get_le_def)
next
  case False
  then show ?thesis
    by (auto simp: index_get_def demo_big_def intro!: get_le_zero)
qed

lemma demo_big_inode:
  "index_block (inodes demo_big 2) = 4" "i_size (inodes demo_big 2) = 3" "i_blocks (inodes demo_big 2) = 2"
  by (simp_all add: demo_big_def)

lemma demo_big_content:
  "content 2 demo_big 0 = 1" "content 2 demo_big (Suc 0) = 2" "content 2 demo_big (Suc (Suc 0)) = 3"
  by (simp_all add: content_def file_byte_def demo_big_inode demo_big_index) (simp_all add: demo_big_def memcpy_def)

lemma demo_big_file: "big_file demo_env 2 demo_big"
proof -
  have "big_wf demo_big 4"
    using demo_pools(3) demo_free_zeroed(3) demo_free_blocks(3)
    by (auto simp: big_wf_def demo_big_index block_univ_def) (simp_all add: demo_big_def demo_sb_def)
  then show ?thesis
    using demo_mounted(3) by (simp add: big_file_def demo_big_inode div_round_up_def)
qed

lemma demo_big_room: "room_for 2 demo_big 1 4"
proof -
  have "holes demo_big 4 0 1 = {}" by (auto simp: holes_def demo_big_index)
  then show ?thesis
    by (simp add: room_for_def demo_big_inode div_round_up_def)
qed

end
