(* ===== verification/Ouiche_Grow.thy ===== *)
theory Ouiche_Grow
  imports Ouiche_Unlink Ouiche_Volumes
begin

text \<open>
  A small file that changes its number of slices: \<^verbatim>\<open>write_small_file\<close> copies the old content and the
  new bytes into one buffer, writes it as if the file were new, then deletes the old slices.

  Between the two halves the old slices belong to no inode.  The proofs give them to inode 0, which
  no file has: with this ghost owner the invariant of the slices holds at every point, and the
  lemmas on creation and deletion apply.
\<close>

section \<open>A ghost owner\<close>

lemma slice_inv_nodes:
  assumes "slice_inv E s xs F" and "sbi t = sbi s" and "cache t = cache s"
    and "\<And>l. l \<in> F \<Longrightarrow> inodes t l = inodes s l"
  shows "slice_inv E t xs F"
  using assms
  by (simp add: slice_inv_def sliced_chain_def mounted_def io_ok_def free_zeroed_def bits_exact_def cong: sum.cong)

lemma small_vol_move:
  assumes vol: "small_vol E s xs F" and i: "i \<in> F" "g \<notin> F" and t: "sbi t = sbi s" "cache t = cache s"
    and n: "inodes t g = inodes s i" "\<And>l. l \<in> F - {i} \<Longrightarrow> inodes t l = inodes s l"
  shows "small_vol E t xs (insert g (F - {i}))"
proof -
  let ?F = "insert g (F - {i})"
  note I = slice_invD [OF vol [unfolded small_vol_def, THEN conjunct1]]
  define h where "h l = (if l = g then i else l)" for l
  have h: "inodes t l = inodes s (h l)" "h l \<in> F" if "l \<in> ?F" for l using that i n by (auto simp: h_def)
  have inj: "l = l'" if "h l = h l'" "l \<in> ?F" "l' \<in> ?F" for l l' using that by (auto simp: h_def split: if_splits)
  have sur: "\<exists>l \<in> ?F. h l = j" if "j \<in> F" for j using that i(2) by (cases "j = i") (auto simp: h_def)
  have all: "(\<forall>l \<in> ?F. P (inodes t l)) \<longleftrightarrow> (\<forall>j \<in> F. P (inodes s j))" for P using h sur by metis
  have ex: "(\<exists>l \<in> ?F. P (inodes t l)) \<longleftrightarrow> (\<exists>j \<in> F. P (inodes s j))" for P using h sur by metis
  have sum: "(\<Sum>l \<in> ?F. unat (num_slices (inodes t l))) = (\<Sum>j \<in> F. unat (num_slices (inodes s j)))"
    using i I(4) n by (simp add: sum.remove [of F i])
  have dis: "l = l'" if "l \<in> ?F" "l' \<in> ?F" "occupies (inodes t l) b k" "occupies (inodes t l') b k" for l l' b k
    using that h [of l] h [of l'] I(6) [of "h l" "h l'" b k] inj by metis
  have bits: "bits_exact t ?F b \<longleftrightarrow> bits_exact s F b" for b
    unfolding bits_exact_def all [of "\<lambda>nd. \<not> occupies nd b k" for k] by (simp add: t)
  have inv: "slice_inv E t xs ?F"
    unfolding slice_inv_def all [of "small_node xs"] sum bits
  proof (intro conjI ballI allI impI)
    show "sliced_chain E t xs" "mounted E t" "free_zeroed t" "finite ?F"
      using I(1-4) by (simp_all add: sliced_chain_def mounted_def io_ok_def free_zeroed_def t)
    show "nr_sliced_blocks (sbi t) = of_nat (length xs)"
      "nr_used_slices (sbi t) = of_nat (\<Sum>j \<in> F. unat (num_slices (inodes s j)))"
      using vol by (simp_all add: small_vol_def slice_inv_def t)
    show "small_node xs (inodes s j)" if "j \<in> F" for j using I(5) [OF that] .
    show "l = l'" if "l \<in> ?F" "l' \<in> ?F" "occupies (inodes t l) b k \<and> occupies (inodes t l') b k" for l l' b k
      using dis that by blast
    show "bits_exact s F b" "free_slices_zero (cache t b)" if "b \<in> set xs" for b using I(7,8) [OF that] t(2) by simp_all
  qed
  have "\<forall>b \<in> set xs. \<exists>l \<in> ?F. SMALL_FILE_GET_BNO (inodes t l) = b"
    using vol by (simp only: ex [of "\<lambda>nd. SMALL_FILE_GET_BNO nd = b" for b]) (simp add: small_vol_def)
  then show ?thesis using inv by (simp add: small_vol_def)
qed

text \<open>A state with the node \<open>nd\<close> as inode 0.\<close>

definition ghost :: "inode \<Rightarrow> fs \<Rightarrow> fs" where
  "ghost nd s = s\<lparr>inodes := (inodes s)(0 := nd)\<rparr>"

lemma ghost_simps [simp]:
  "sbi (ghost nd s) = sbi s" "cache (ghost nd s) = cache s" "refs (ghost nd s) = refs s" "inodes (ghost nd s) 0 = nd"
  "l \<noteq> 0 \<Longrightarrow> inodes (ghost nd s) l = inodes s l" "dirty (ghost nd s) = dirty s" "disk (ghost nd s) = disk s"
  by (simp_all add: ghost_def)

lemma ghost_byte [simp]: "l \<noteq> 0 \<Longrightarrow> small_byte (ghost nd s) l p = small_byte s l p"
  by (simp add: small_byte_def)

lemma ghost_placed: "placed s xs n b u \<Longrightarrow> placed (ghost nd s) xs n b (ghost nd u)"
  by (auto simp: placed_def pick_def appended_def ghost_def Let_def fs_defs split: option.splits)

lemma ghost_stored: "i \<noteq> 0 \<Longrightarrow> small_stored E i b j pos sz bs (ghost nd u) = ghost nd (small_stored E i b j pos sz bs u)"
  by (simp add: small_stored_def ghost_def Let_def fun_upd_twist)

lemma ghost_cleared: "run_cleared b j n (ghost nd s) = ghost nd (run_cleared b j n s)"
  by (simp add: run_cleared_def ghost_def)

lemma ghost_reaped: "reaped xs None v t \<Longrightarrow> reaped xs None (ghost nd v) (ghost nd t)"
  by (simp add: reaped_def kept_blocks_def empty_blocks_def brelse_opt_def coherent_def ghost_def link_def)

section \<open>Writing the new slices and deleting the old ones\<close>

text \<open>File \<open>i\<close> holds \<open>bs\<close>; apart from its inode only blocks of the chain and free blocks have changed, and
  they are the same blocks together.\<close>

definition regrown :: "env \<Rightarrow> u32 \<Rightarrow> u8 list \<Rightarrow> u32 list \<Rightarrow> u32 set \<Rightarrow> fs \<Rightarrow> fs \<Rightarrow> bool" where
  "regrown E i bs xs F s t \<longleftrightarrow>
     (\<exists>ys. small_vol E t ys F \<and> free_blocks (sbi t) \<union> set ys = free_blocks (sbi s) \<union> set xs) \<and>
     (\<forall>c. c \<notin> set xs \<and> c \<notin> free_blocks (sbi s) \<longrightarrow> cache t c = cache s c) \<and>
     inode_part (sbi t) = inode_part (sbi s) \<and> i_size (inodes t i) = length bs \<and> (\<forall>p < length bs. small_byte t i p = bs ! p) \<and>
     (\<forall>l \<in> F - {i}. \<forall>p < i_size (inodes s l). small_byte t l p = small_byte s l p) \<and>
     (\<forall>l. l \<noteq> i \<longrightarrow> inodes t l = inodes s l)"

lemma delete_slice_inode_part:
  "delete_slice E fuel b sl n s = Inr (r, t) \<Longrightarrow> inode_part (sbi t) = inode_part (sbi s)"
  by (auto simp: delete_slice_def sb_bread_def Let_def upd_sbi_def dest!: reap_inode_part split: if_splits option.splits)

lemma delete_old:
  assumes vol: "small_vol E (ghost nd s) xs (insert 0 F)" and F: "0 \<notin> F" and fuel: "length xs \<le> fuel"
  shows "\<exists>t xs'. delete_slice E fuel (SMALL_FILE_GET_BNO nd) (SMALL_FILE_GET_SLICE nd) (ucast (num_slices nd)) s = Inr (0, t) \<and>
    small_vol E t xs' F \<and> (\<forall>l \<in> F. \<forall>p < i_size (inodes s l). small_byte t l p = small_byte s l p) \<and>
    free_blocks (sbi t) \<union> set xs' = free_blocks (sbi s) \<union> set xs \<and> (\<forall>c. c \<notin> set xs \<longrightarrow> cache t c = cache s c) \<and>
    inode_part (sbi t) = inode_part (sbi s) \<and> inodes t = inodes s \<and> refs t = refs s"
proof -
  let ?b = "SMALL_FILE_GET_BNO nd" and ?sl = "SMALL_FILE_GET_SLICE nd" and ?n = "ucast (num_slices nd) :: u32"
  have inv: "slice_inv E (ghost nd s) xs (insert 0 F)" using vol by (simp add: small_vol_def)
  note I = slice_invD [OF inv]
  have un: "unat ?n = unat (num_slices nd)" by (rule unat_ucast_16_32)
  have nd: "?b \<in> set xs" "unat ?sl \<noteq> 0" "unat ?sl + unat ?n \<le> 32" "1 \<le> unat ?n"
    using I(5) [of 0] slices_of_bounds(2) [of "i_size nd"] unfolding un by (auto simp: small_node_def)
  then have n0: "?n \<noteq> 0" using nd(4) by (metis not_one_le_zero unsigned_0)
  have ch: "sliced_chain E s xs" using I(1) by (simp add: sliced_chain_def)
  define v where "v = run_cleared ?b (unat ?sl) (unat ?n) s"
  obtain t where t: "delete_slice E fuel ?b ?sl ?n s = Inr (0, t)" "reaped xs None v t"
    using delete_slice_reaped [OF ch nd(1) n0 nd(2,3) fuel] by (auto simp: v_def)
  have iv: "inodes v = inodes s" "refs v = refs s" by (simp_all add: v_def run_cleared_simps)
  have "slice_inv E (ghost nd v) xs F"
    using run_cleared_inv [OF inv, of 0] F by (simp add: v_def ghost_cleared un)
  then have "slice_inv E v xs F"
  proof (rule slice_inv_nodes)
    show "inodes v l = inodes (ghost nd v) l" if "l \<in> F" for l using that F by (cases "l = 0") auto
  qed simp_all
  then have "small_vol E t (kept_blocks v xs) F" using t(2) by (rule reaped_vol)
  moreover have "small_byte t l p = small_byte s l p" if l: "l \<in> F" "p < i_size (inodes s l)" for l p
  proof -
    have "l \<noteq> 0" using l(1) F by auto
    moreover have "small_byte (ghost nd t) l p = small_byte (ghost nd s) l p"
    proof (rule reaped_bytes [OF inv])
      show "reaped xs None (ghost nd v) (ghost nd t)" by (rule ghost_reaped [OF t(2)])
      show "ghost nd v = run_cleared (SMALL_FILE_GET_BNO (inodes (ghost nd s) 0))
          (unat (SMALL_FILE_GET_SLICE (inodes (ghost nd s) 0))) (unat (num_slices (inodes (ghost nd s) 0))) (ghost nd s)"
        by (simp add: ghost_cleared v_def un)
    qed (use l \<open>l \<noteq> 0\<close> in simp_all)
    ultimately show ?thesis by simp
  qed
  moreover have "inodes t = inodes s" "refs t = refs s" using t(2) iv by (simp_all add: reaped_def brelse_opt_def)
  moreover have "free_blocks (sbi t) \<union> set (kept_blocks v xs) = free_blocks (sbi s) \<union> set xs"
    using t(2) by (auto simp: reaped_def v_def run_cleared_simps empty_blocks_def kept_blocks_def)
  moreover have "cache t c = cache s c" if "c \<notin> set xs" for c
    using t(2) that nd(1) by (auto simp: reaped_def v_def run_cleared_simps)
  moreover have "inode_part (sbi t) = inode_part (sbi s)" by (rule delete_slice_inode_part [OF t(1)])
  ultimately show ?thesis using t(1) by blast
qed

lemma placed_inodes: "placed s xs n b u \<Longrightarrow> inodes u = inodes s"
  by (auto simp: placed_def appended_def Let_def fs_defs split: option.splits)

lemma reslice:
  assumes vol: "small_vol E s xs F" and i: "i \<in> F" "0 \<notin> F" and nd: "nd = inodes s i"
    and s1: "sbi s1 = sbi s" "cache s1 = cache s" "inodes s1 = (inodes s)(i := nd\<lparr>index_block := 0, i_size := 0\<rparr>)"
    and it: "length (it_bytes it) = it_count it" "0 < it_count it" "it_count it \<le> 3968"
    and io: "\<not> ki_append iocb" "ki_pos iocb = 0"
    and room: "pick s (slices_of (it_count it)) xs \<noteq> None \<or> free_blocks (sbi s) \<noteq> {}"
    and fuel: "Suc (length xs) \<le> fuel"
  shows "\<exists>it' s2 s3. write_small_new E fuel i iocb it s1 = Inr (int (it_count it), iocb, it', s2) \<and>
    delete_slice E fuel (SMALL_FILE_GET_BNO nd) (SMALL_FILE_GET_SLICE nd) (ucast (num_slices nd)) s2 = Inr (0, s3) \<and>
    regrown E i (it_bytes it) xs F s s3 \<and> refs s3 = refs s1"
proof -
  let ?n = "slices_of (it_count it)" and ?F = "insert 0 (F - {i})"
  have i0: "i \<noteq> 0" using i by auto
  have v1: "small_vol E (ghost nd s1) xs ?F"
  proof (rule small_vol_move [OF vol i])
    show "inodes (ghost nd s1) l = inodes s l" if "l \<in> F - {i}" for l
      using that i(2) s1(3) by (cases "l = 0") auto
  qed (simp_all add: s1 nd)
  have inv: "slice_inv E (ghost nd s1) xs ?F" using v1 by (simp add: small_vol_def)
  note I = slice_invD [OF inv]
  have ch: "sliced_chain E s1 xs" "mounted E s1" using I(1,2) by (simp_all add: sliced_chain_def mounted_def io_ok_def)
  have pk: "pick s1 ?n xs = pick s ?n xs" by (simp add: pick_def s1)
  obtain b u it' where w: "placed s1 xs ?n b u" "has_run (bm_of u b) ?n"
      "write_small_new E fuel i iocb it s1 = Inr (int (it_count it), iocb\<lparr>ki_pos := 0\<rparr>, it',
        small_stored E i b (first_run (bm_of u b) ?n) 0 (it_count it) (it_bytes it) u)"
    using write_small_new_placed [OF ch(1) fuel ch(2), of 0 iocb i "it_count it" it] io it(1,3) room
    by (auto simp: s1 pk)
  let ?s2 = "small_stored E i b (first_run (bm_of u b) ?n) 0 (it_count it) (it_bytes it) u"
  obtain ys where y: "slice_inv E (ghost nd u) ys ?F" "search_frame (ghost nd s1) xs b (ghost nd u) ys"
    using placed_frame [OF inv ghost_placed [OF w(1)]] by blast
  have g: "good_run (ghost nd u) ys b (first_run (bm_of u b) ?n) ?n"
    using good_first_run [of "ghost nd u" b ?n ys] w(2) y(2) slices_of_bounds(2) [OF it(2)]
    by (simp add: search_frame_def)
  have "i \<notin> ?F" "i_blocks (inodes (ghost nd s1) i) = 0" "it_bytes it \<noteq> []"
    using i0 i(1) it vol nd by (auto simp: s1(3) small_vol_def slice_inv_def small_node_def)
  then have C: "small_created E i 0 (it_bytes it) (ghost nd s1) xs ?F (ghost nd ?s2)"
    using small_stored_created [OF v1 _ _ y, of i _ 0 "it_bytes it"] g it(1) ghost_stored [OF i0] by simp
  note C' = C [unfolded small_created_def]
  obtain zs where zs: "zs = xs \<or> (\<exists>nb \<in> free_blocks (sbi s). zs = xs @ [nb])" "free_blocks (sbi ?s2) = free_blocks (sbi s) - set zs"
      "small_vol E (ghost nd ?s2) zs (insert i ?F)"
    using C' by (auto simp: s1)
  then have z: "length zs \<le> fuel" "small_vol E (ghost nd ?s2) zs (insert i ?F)" using fuel by auto
  have "insert i ?F = insert 0 F" using i by auto
  then obtain s3 zs' where d: "small_vol E s3 zs' F" "inodes s3 = inodes ?s2" "refs s3 = refs ?s2"
      "delete_slice E fuel (SMALL_FILE_GET_BNO nd) (SMALL_FILE_GET_SLICE nd) (ucast (num_slices nd)) ?s2 = Inr (0, s3)"
      "\<forall>l \<in> F. \<forall>p < i_size (inodes ?s2 l). small_byte s3 l p = small_byte ?s2 l p"
      "free_blocks (sbi s3) \<union> set zs' = free_blocks (sbi ?s2) \<union> set zs" "\<forall>c. c \<notin> set zs \<longrightarrow> cache s3 c = cache ?s2 c"
      "inode_part (sbi s3) = inode_part (sbi ?s2)"
    using delete_old [of E nd ?s2 zs F fuel] z i(2) by auto
  have N: "inodes s3 l = inodes s l" if "l \<noteq> i" for l
    using that placed_inodes [OF w(1)] by (simp add: d(2) small_stored_simps s1)
  have sz: "i_size (inodes ?s2 i) = length (it_bytes it)" using C' i0 by simp
  have new: "small_byte s3 i p = it_bytes it ! p" if "p < length (it_bytes it)" for p
  proof -
    have "small_byte s3 i p = small_byte ?s2 i p" using d(5) i(1) that unfolding sz [symmetric] by blast
    also have "\<dots> = small_byte (ghost nd ?s2) i p" using i0 by simp
    also have "\<dots> = it_bytes it ! p" using C' that by simp
    finally show ?thesis .
  qed
  have kept: "\<forall>l \<in> ?F. \<forall>p < i_size (inodes (ghost nd s1) l). small_byte (ghost nd ?s2) l p = small_byte (ghost nd s1) l p"
    using C' by blast
  have old: "small_byte s3 l p = small_byte s l p" if l: "l \<in> F - {i}" "p < i_size (inodes s l)" for l p
  proof -
    have l0: "l \<noteq> 0" "l \<noteq> i" using l(1) i(2) by auto
    have "small_byte s3 l p = small_byte ?s2 l p" using d(2,5) l N [OF l0(2)] by auto
    also have "\<dots> = small_byte (ghost nd ?s2) l p" using l0 by simp
    also have "\<dots> = small_byte (ghost nd s1) l p"
    proof -
      have "p < i_size (inodes (ghost nd s1) l)" using l(2) l0 s1(3) by simp
      then show ?thesis using kept l(1) by blast
    qed
    finally show ?thesis using l0 by (simp add: small_byte_def s1)
  qed
  have "regrown E i (it_bytes it) xs F s s3"
    unfolding regrown_def
  proof (intro conjI exI [of _ zs'] d(1) allI impI ballI)
    show "free_blocks (sbi s3) \<union> set zs' = free_blocks (sbi s) \<union> set xs" using d(6) zs(1,2) by auto
    show "inode_part (sbi s3) = inode_part (sbi s)" using C' d(8) s1(1) by simp
    fix c assume c: "c \<notin> set xs \<and> c \<notin> free_blocks (sbi s)"
    have "cache ?s2 c = cache s c" using C' c s1(1,2) by simp
    moreover have "c \<notin> set zs" using c zs(1) by auto
    ultimately show "cache s3 c = cache s c" using d(7) by simp
  qed (use d(2) sz N new old in simp_all)
  moreover have "refs s3 = refs s1" using C' d(3) by simp
  moreover have "iocb\<lparr>ki_pos := 0\<rparr> = iocb" using io(2) by simp
  ultimately show ?thesis using w(3) d(4) by metis
qed

section \<open>The handler\<close>

lemma combined_buf_length: "length (combined_buf old pos new) = max (pos + length new) (length old)"
  by (simp add: combined_buf_def)

lemma combined_buf_nth:
  assumes "p < max (pos + length new) (length old)"
  shows "combined_buf old pos new ! p =
    (if pos \<le> p \<and> p < pos + length new then new ! (p - pos) else if p < length old then old ! p else 0)"
  using assms by (auto simp: combined_buf_def nth_append min_def)

lemma combined_buf_all: "length old \<le> length new \<Longrightarrow> combined_buf old 0 new = new"
  by (simp add: combined_buf_def)

text \<open>What the handler finds of a small file before it reads its block.\<close>

lemma small_file_facts:
  assumes "small_vol E s xs F" and "i \<in> F"
  shows "bread_ok E (SMALL_FILE_GET_BNO (inodes s i))" "SMALL_FILE_GET_BNO (inodes s i) \<noteq> 0"
    "SMALL_FILE_GET_SLICE (inodes s i) \<noteq> 0" "num_slices (inodes s i) \<noteq> 0" "index_block (inodes s i) \<noteq> 0"
    "unat (num_slices (inodes s i)) = slices_of (i_size (inodes s i))"
    "unat (SMALL_FILE_GET_SLICE (inodes s i)) * 128 + i_size (inodes s i) \<le> 4096"
    "bytes_at (cache s (SMALL_FILE_GET_BNO (inodes s i))) (unat (SMALL_FILE_GET_SLICE (inodes s i)) * 128)
       (i_size (inodes s i)) = map (small_byte s i) [0..<i_size (inodes s i)]"
proof -
  let ?nd = "inodes s i"
  let ?b = "SMALL_FILE_GET_BNO ?nd" and ?m = "SMALL_FILE_GET_SLICE ?nd"
  note I = slice_invD [OF assms(1) [unfolded small_vol_def, THEN conjunct1]]
  have nd: "?b \<in> set xs" "1 \<le> unat ?m" "unat ?m + unat (num_slices ?nd) \<le> 32" "1 \<le> unat (num_slices ?nd)"
    "unat (num_slices ?nd) = slices_of (i_size ?nd)"
    using I(5) [OF assms(2)] slices_of_bounds(2) [of "i_size ?nd"] by (auto simp: small_node_def)
  show "bread_ok E ?b" "?b \<noteq> 0" using I(1) nd(1) by (auto simp: sliced_chain_def block_univ_def)
  show m: "?m \<noteq> 0" "num_slices ?nd \<noteq> 0" using nd(2,4) by auto
  show "index_block ?nd \<noteq> 0" using m(1) by (auto simp: SMALL_FILE_GET_SLICE_def)
  show "unat (num_slices ?nd) = slices_of (i_size ?nd)" by (rule nd(5))
  have "i_size ?nd \<le> slices_of (i_size ?nd) * 128" by (rule le_div_round_up_mult) simp
  then show "unat ?m * 128 + i_size ?nd \<le> 4096" using nd(3,5) by simp
  show "bytes_at (cache s ?b) (unat ?m * 128) (i_size ?nd) = map (small_byte s i) [0..<i_size ?nd]"
    by (intro nth_equalityI) (simp_all add: small_byte_def)
qed

lemma slices_differ:
  assumes "sz \<le> 3968" and "slices_of sz \<noteq> unat (n :: u16)"
  shows "(ucast n :: u32) \<noteq> of_nat (slices_of sz)"
proof
  assume "(ucast n :: u32) = of_nat (slices_of sz)"
  then have "unat (ucast n :: u32) = slices_of sz"
    using assms(1) slices_of_bounds(1) [of sz] by (simp add: unat_of_nat_u32)
  then show False using assms(2) unat_ucast_16_32 [of n] by simp
qed

lemma write_small_file_grow:
  assumes vol: "small_vol E s xs F" and i: "i \<in> F" "0 \<notin> F"
    and it: "length (it_bytes it) = it_count it" "0 < it_count it" and io: "\<not> ki_append iocb" "pos = ki_pos iocb"
    and sz: "sz = max (pos + it_count it) (i_size (inodes s i))" "sz \<le> 3968"
    and n: "slices_of sz \<noteq> unat (num_slices (inodes s i))" and km: "kmalloc_ok E = (\<lambda>_. True)"
    and room: "pick s (slices_of sz) xs \<noteq> None \<or> free_blocks (sbi s) \<noteq> {}" and fuel: "Suc (length xs) \<le> fuel"
  shows "\<exists>it' t. write_small_file E fuel i iocb it s =
      Inr (int (it_count it), iocb\<lparr>ki_pos := pos + it_count it\<rparr>, it', t) \<and>
    regrown E i (combined_buf (map (small_byte s i) [0..<i_size (inodes s i)]) pos (it_bytes it)) xs F s t \<and>
    refs t = refs (hold (SMALL_FILE_GET_BNO (inodes s i)) s)"
proof -
  define nd where "nd = inodes s i"
  let ?b = "SMALL_FILE_GET_BNO nd" and ?m = "SMALL_FILE_GET_SLICE nd" and ?k = "ucast (num_slices nd) :: u32"
  let ?old = "map (small_byte s i) [0..<i_size nd]" and ?bs = "combined_buf (map (small_byte s i) [0..<i_size nd]) pos (it_bytes it)"
  note N = small_file_facts [OF vol i(1), folded nd_def]
  have ne: "?k \<noteq> of_nat (slices_of sz)" using slices_differ [OF sz(2) n] by (simp add: nd_def)
  let ?s1 = "upd_inode i (\<lambda>nd. nd\<lparr>index_block := 0, i_size := 0\<rparr>) (hold ?b s)"
  have s1: "sbi ?s1 = sbi s" "cache ?s1 = cache s" "inodes ?s1 = (inodes s)(i := nd\<lparr>index_block := 0, i_size := 0\<rparr>)"
    "refs ?s1 = refs (hold ?b s)"
    by (simp_all add: upd_inode_def nd_def)
  have len: "length ?bs = sz" by (simp add: combined_buf_length sz(1) it(1) nd_def)
  have pos: "0 < sz" using sz(1) it(2) by simp
  note R = reslice [OF vol i nd_def s1(1-3)]
  show ?thesis
  proof (cases "pos = 0")
    case True
    have ct: "sz = it_count it" using n N(6) sz(1) True by (auto simp: nd_def max_def split: if_splits)
    then have bs: "?bs = it_bytes it" using True sz(1) it(1) by (simp add: combined_buf_all nd_def)
    obtain it' s2 s3 where w: "write_small_new E fuel i iocb it ?s1 = Inr (int (it_count it), iocb, it', s2)"
        "delete_slice E fuel ?b ?m ?k s2 = Inr (0, s3)" "regrown E i (it_bytes it) xs F s s3" "refs s3 = refs (hold ?b s)"
      using R [of it iocb fuel] it io True sz(2) room fuel by (auto simp: ct s1(4))
    moreover have "regrown E i ?bs xs F s s3" unfolding bs by (rule w(3))
    moreover have "max (it_count it) (i_size nd) = it_count it" using ct sz(1) True by (simp add: nd_def)
    ultimately show ?thesis
      using True ct ne N(1-5) io it(2)
      by (simp add: write_small_file_def Let_def nd_def [symmetric] sb_bread_hold)
  next
    case False
    let ?it = "\<lparr>it_bytes = ?bs, it_count = sz\<rparr>" and ?io = "iocb\<lparr>ki_pos := 0, ki_append := False\<rparr>"
    obtain it' s2 s3 where w: "write_small_new E fuel i ?io ?it ?s1 = Inr (int sz, ?io, it', s2)"
        "delete_slice E fuel ?b ?m ?k s2 = Inr (0, s3)" "regrown E i ?bs xs F s s3" "refs s3 = refs (hold ?b s)"
      using R [of ?it ?io fuel] len pos sz(2) room fuel by (auto simp: s1(4))
    moreover have "iocb\<lparr>ki_append := False\<rparr> = iocb" using io(1) by (cases iocb) simp
    ultimately show ?thesis
      using False ne N(1-5,7) io it km sz(1)
      by (simp add: write_small_file_def Let_def nd_def [symmetric] sb_bread_hold copy_from_iter_enough s1(2) N(8))
  qed
qed

section \<open>The property\<close>

text \<open>C6.  A write that changes the number of slices of a small file succeeds: the file is stored anew with
  the new bytes at their position, its other bytes kept and zeroes in a gap, its old slices are given
  back, every other small file keeps its bytes, the ownership invariant is kept and the position
  advances.  Every block that was neither in the chain of sliced blocks nor free (the blocks of big
  files, directories and metadata) is unchanged, the chain and the free blocks are together what they
  were, no inode is taken or freed.  The buffer of the old sliced block is not released.\<close>

theorem small_file_grow:
  assumes "small_vol E s xs F" and "i \<in> F" and "0 \<notin> F"
    and "length (it_bytes it) = it_count it" and "0 < it_count it" and "\<not> ki_append iocb"
    and "sz = max (ki_pos iocb + it_count it) (i_size (inodes s i))" and "sz \<le> 3968"
    and "div_round_up sz 128 \<noteq> unat (num_slices (inodes s i))" and "kmalloc_ok E = (\<lambda>_. True)"
    and "pick s (div_round_up sz 128) xs \<noteq> None \<or> free_blocks (sbi s) \<noteq> {}" and "Suc (length xs) \<le> fuel"
  shows "\<exists>it' t xs'. custom_write_iter E fuel i iocb it s =
      Inr (int (it_count it), iocb\<lparr>ki_pos := ki_pos iocb + it_count it\<rparr>, it', t) \<and>
    small_vol E t xs' F \<and> free_blocks (sbi t) \<union> set xs' = free_blocks (sbi s) \<union> set xs \<and> i_size (inodes t i) = sz \<and>
    (\<forall>p < sz. small_byte t i p =
       (if ki_pos iocb \<le> p \<and> p < ki_pos iocb + it_count it then it_bytes it ! (p - ki_pos iocb)
        else if p < i_size (inodes s i) then small_byte s i p else 0)) \<and>
    (\<forall>l \<in> F - {i}. \<forall>p < i_size (inodes s l). small_byte t l p = small_byte s l p) \<and>
    (\<forall>l. l \<noteq> i \<longrightarrow> inodes t l = inodes s l) \<and>
    (\<forall>c. c \<notin> set xs \<and> c \<notin> free_blocks (sbi s) \<longrightarrow> cache t c = cache s c) \<and>
    free_inodes (sbi t) = free_inodes (sbi s) \<and>
    refs t = (refs s)(SMALL_FILE_GET_BNO (inodes s i) := refs s (SMALL_FILE_GET_BNO (inodes s i)) + 1)"
proof -
  let ?bs = "combined_buf (map (small_byte s i) [0..<i_size (inodes s i)]) (ki_pos iocb) (it_bytes it)"
  obtain it' t where w: "write_small_file E fuel i iocb it s =
        Inr (int (it_count it), iocb\<lparr>ki_pos := ki_pos iocb + it_count it\<rparr>, it', t)"
      "regrown E i ?bs xs F s t" "refs t = refs (hold (SMALL_FILE_GET_BNO (inodes s i)) s)"
    using write_small_file_grow [OF assms(1-6) refl assms(7-12)] by blast
  note R = w(2) [unfolded regrown_def]
  have nd: "i_blocks (inodes s i) = 0" using assms(1,2) by (simp add: small_vol_def slice_inv_def small_node_def)
  have len: "length ?bs = sz" by (simp add: combined_buf_length assms(4,7))
  have "custom_write_iter E fuel i iocb it s = write_small_file E fuel i iocb it s"
    using assms(7,8) nd by (simp add: custom_write_iter_def Let_def will_be_small_def is_small_file_def)
  moreover have "?bs ! p = (if ki_pos iocb \<le> p \<and> p < ki_pos iocb + it_count it then it_bytes it ! (p - ki_pos iocb)
        else if p < i_size (inodes s i) then small_byte s i p else 0)" if "p < sz" for p
    using that assms(4,7) by (simp add: combined_buf_nth)
  moreover have "free_inodes (sbi t) = free_inodes (sbi s)" using R inode_part_cong(1) by blast
  ultimately show ?thesis using w(1,3) R len by (auto simp: hold_def)
qed

theorem small_file_grow_witness:
  "\<exists>it' t. custom_write_iter demo_env 2 2 \<lparr>ki_pos = 200, ki_append = False\<rparr> \<lparr>it_bytes = hello, it_count = 5\<rparr> demo_small =
      Inr (5, \<lparr>ki_pos = 205, ki_append = False\<rparr>, it', t) \<and> i_size (inodes t 2) = 205 \<and> small_byte t 2 150 = 0"
proof -
  have "free_blocks (sbi demo_small) \<noteq> {}" using demo_free_blocks(2) by simp
  moreover have "kmalloc_ok demo_env = (\<lambda>_. True)" by (simp add: demo_env_def)
  ultimately show ?thesis
    using small_file_grow [OF demo_small_vol, of 2 "\<lparr>it_bytes = hello, it_count = 5\<rparr>" "\<lparr>ki_pos = 200, ki_append = False\<rparr>" 205 2]
    by (auto simp: demo_small_inode div_round_up_def)
qed

end
