(* ===== verification/Ouiche_Rename.thy ===== *)
theory Ouiche_Rename
  imports Ouiche_Unlink
begin

text \<open>
  Renaming, within one directory and from one directory to another: the entries of both directories
  afterwards, the refusals, and the full old directory, whose search runs past the block.
\<close>

section \<open>Within a directory\<close>

lemma rename_same_dir:
  assumes "flags AND 6 = 0" "bread_ok E (index_block (inodes s dir))" "dir_inv (cache s (index_block (inodes s dir)))"
    "good_name new" "good_name old" "old \<in> fst ` set (entries_of dir s)" "new \<notin> fst ` set (entries_of dir s)"
  shows "ouichefs_rename E dir old src dir new flags s =
    Inr (0, mark_buffer_dirty (index_block (inodes s dir)) (buf_upd (index_block (inodes s dir)) (dir_ren old new) s))"
proof -
  let ?ib = "index_block (inodes s dir)"
  obtain f where f: "rename_scan (cache s ?ib) True old new None None 0 128 =
      Some (Some f, if length (entries_of dir s) < 128 then Some (length (entries_of dir s)) else None)"
    by (rule rename_scan_found [OF assms(3-7)]) simp
  have "buf_upd ?ib (dir_set_name f new) s = buf_upd ?ib (dir_ren old new) s"
    by (simp add: buf_upd_def dir_ren_def f)
  moreover have "length new \<le> 28" using assms(4) by (simp add: good_name_def)
  ultimately show ?thesis
    using assms(1,2) by (simp add: ouichefs_rename_def Let_def sb_bread_hold brelse_dirtied f)
qed

lemma rename_refused:
  assumes "flags AND 6 = 0" "bread_ok E (index_block (inodes s dir'))" "dir_inv (cache s (index_block (inodes s dir')))"
    "good_name new"
  shows "new \<in> fst ` set (entries_of dir' s) \<Longrightarrow> ouichefs_rename E dir old src dir' new flags s = Inr (- EEXIST, s)"
    and "new \<notin> fst ` set (entries_of dir' s) \<Longrightarrow> length (entries_of dir' s) = 128 \<Longrightarrow> dir \<noteq> dir' \<Longrightarrow> good_name old \<Longrightarrow>
      ouichefs_rename E dir old src dir' new flags s = Inr (- EMLINK, s)"
proof -
  note R = dir_inv_rep [OF assms(3)]
  let ?ib = "index_block (inodes s dir')"
  have l: "length new \<le> 28" using assms(4) by (simp add: good_name_def)
  show "ouichefs_rename E dir old src dir' new flags s = Inr (- EEXIST, s)" if mem: "new \<in> fst ` set (entries_of dir' s)"
  proof -
    obtain j where "j < length (entries_of dir' s)" "fst (entries_of dir' s ! j) = new"
      using mem by (auto simp: in_set_conv_nth)
    then show ?thesis
      using assms(1,2) l rename_scan_exists [OF R assms(4), of j 0 128]
      by (simp add: ouichefs_rename_def Let_def sb_bread_hold)
  qed
  show "ouichefs_rename E dir old src dir' new flags s = Inr (- EMLINK, s)"
    if "new \<notin> fst ` set (entries_of dir' s)" "length (entries_of dir' s) = 128" "dir \<noteq> dir'" "good_name old"
  proof -
    have "rename_scan (cache s ?ib) False old new None None 0 128 = Some (None, None)"
      using rename_scan_other [OF R assms(4) that(1,4)] that(2) by simp
    then show ?thesis
      using assms(1,2) l that(3) by (simp add: ouichefs_rename_def Let_def sb_bread_hold)
  qed
qed

section \<open>From one directory to another\<close>

text \<open>The state after the insertion into the new directory, and after the removal from the old one.\<close>

definition move_in :: "env \<Rightarrow> u32 \<Rightarrow> u32 \<Rightarrow> u8 list \<Rightarrow> fs \<Rightarrow> fs" where
  "move_in E src new_dir nm s =
     (let nb = index_block (inodes s new_dir);
          s = mark_buffer_dirty nb (buf_upd nb (dir_add nm src) s);
          s = upd_inode new_dir (\<lambda>nd. nd\<lparr>i_atime := current_time E, i_ctime := current_time E, i_mtime := current_time E\<rparr>) s;
          s = (if S_ISDIR (i_mode (inodes s src)) then inode_inc_link_count new_dir s else s)
      in mark_inode_dirty new_dir s)"

definition move_out :: "env \<Rightarrow> u32 \<Rightarrow> u32 \<Rightarrow> fs \<Rightarrow> fs" where
  "move_out E src old_dir s =
     (let ob = index_block (inodes s old_dir);
          s = mark_buffer_dirty ob (buf_upd ob (dir_del src) s);
          s = upd_inode old_dir (\<lambda>nd. nd\<lparr>i_ctime := current_time E, i_mtime := current_time E\<rparr>) s;
          s = (if S_ISDIR (i_mode (inodes s src)) then inode_dec_link_count old_dir s else s)
      in mark_inode_dirty old_dir s)"

lemma move_in_simps [simp]:
  "sbi (move_in E src dir nm s) = sbi s" "refs (move_in E src dir nm s) = refs s"
  "cache (move_in E src dir nm s) =
     (cache s)(index_block (inodes s dir) := dir_add nm src (cache s (index_block (inodes s dir))))"
  "j \<noteq> dir \<Longrightarrow> inodes (move_in E src dir nm s) j = inodes s j"
  "index_block (inodes (move_in E src dir nm s) j) = index_block (inodes s j)"
  "i_nlink (inodes (move_in E src dir nm s) dir) =
     i_nlink (inodes s dir) + (if S_ISDIR (i_mode (inodes s src)) then 1 else 0)"
  "i_mode (inodes (move_in E src dir nm s) j) = i_mode (inodes s j)"
  by (simp_all add: move_in_def Let_def inode_inc_link_count_def)

lemma move_out_simps [simp]:
  "sbi (move_out E src dir s) = sbi s" "refs (move_out E src dir s) = refs s"
  "cache (move_out E src dir s) =
     (cache s)(index_block (inodes s dir) := dir_del src (cache s (index_block (inodes s dir))))"
  "j \<noteq> dir \<Longrightarrow> inodes (move_out E src dir s) j = inodes s j"
  "index_block (inodes (move_out E src dir s) j) = index_block (inodes s j)"
  "i_nlink (inodes (move_out E src dir s) dir) =
     i_nlink (inodes s dir) - (if S_ISDIR (i_mode (inodes s src)) then 1 else 0)"
  "i_mode (inodes (move_out E src dir s) j) = i_mode (inodes s j)"
  by (simp_all add: move_out_def Let_def inode_dec_link_count_def)

lemma rename_remove_entry:
  assumes "bread_ok E (index_block (inodes s dir))" "dir_inv (cache s (index_block (inodes s dir)))"
    "src \<in> snd ` set (entries_of dir s)"
  shows "rename_remove E dir src s =
    (if length (entries_of dir s) = 128 then Inl OutOfBounds else Inr (0, move_out E src dir s))"
proof -
  let ?ob = "index_block (inodes s dir)"
  obtain f where f: "scan_subs (cache s ?ob) src None 0 128 = (Some f, length (entries_of dir s))"
    by (rule scan_subs_found [OF assms(2,3)]) simp
  have "buf_upd ?ob (remove_entry f (length (entries_of dir s))) s = buf_upd ?ob (dir_del src) s"
    by (simp add: buf_upd_def dir_del_def f)
  moreover have "length (entries_of dir s) \<le> 128" using dir_invD(5) [OF assms(2)] .
  ultimately show ?thesis
    using assms(1) f by (auto simp: rename_remove_def move_out_def Let_def sb_bread_hold brelse_dirtied)
qed

lemma rename_inserted:
  assumes "flags AND 6 = 0" "old_dir \<noteq> new_dir" "bread_ok E (index_block (inodes s new_dir))"
    "dir_inv (cache s (index_block (inodes s new_dir)))" "good_name new" "good_name old"
    "new \<notin> fst ` set (entries_of new_dir s)" "length (entries_of new_dir s) < 128"
  shows "ouichefs_rename E old_dir old src new_dir new flags s = rename_remove E old_dir src (move_in E src new_dir new s)"
proof -
  let ?nb = "index_block (inodes s new_dir)" and ?n = "length (entries_of new_dir s)"
  note R = dir_inv_rep [OF assms(4)]
  have sc: "rename_scan (cache s ?nb) False old new None None 0 128 = Some (None, Some ?n)"
    using rename_scan_other [OF R assms(5,7,6)] assms(8) by simp
  have "buf_upd ?nb (\<lambda>d. dir_set_name ?n new (dir_set_ino ?n src d)) s = buf_upd ?nb (dir_add new src) s"
    by (simp add: buf_upd_def dir_add_def Let_def dir_rep_count [OF R])
  moreover have "length new \<le> 28" using assms(5) by (simp add: good_name_def)
  ultimately show ?thesis
    using assms(1-3) sc
    by (cases "src = new_dir") (simp_all add: ouichefs_rename_def move_in_def Let_def sb_bread_hold brelse_dirtied)
qed

text \<open>The move as a whole.\<close>

lemma rename_moves:
  assumes nd: "dir_node E new_dir s" and od: "dir_node E old_dir s"
    and fl: "flags AND 6 = 0" "old_dir \<noteq> new_dir" "index_block (inodes s new_dir) \<noteq> index_block (inodes s old_dir)"
    and nm: "good_name new" "good_name old" "new \<notin> fst ` set (entries_of new_dir s)"
    and room: "length (entries_of new_dir s) < 128" "length (entries_of old_dir s) < 128"
    and src: "src \<in> snd ` set (entries_of old_dir s)" "src \<notin> snd ` set (entries_of new_dir s)"
  shows "\<exists>s'. ouichefs_rename E old_dir old src new_dir new flags s = Inr (0, s') \<and>
    entries_of new_dir s' = entries_of new_dir s @ [(new, src)] \<and>
    entries_of old_dir s' = filter (\<lambda>e. snd e \<noteq> src) (entries_of old_dir s) \<and>
    dir_node E new_dir s' \<and> dir_node E old_dir s' \<and>
    (\<forall>b. b \<noteq> index_block (inodes s new_dir) \<and> b \<noteq> index_block (inodes s old_dir) \<longrightarrow> cache s' b = cache s b) \<and>
    (\<forall>j. j \<noteq> old_dir \<and> j \<noteq> new_dir \<longrightarrow> inodes s' j = inodes s j) \<and> sbi s' = sbi s \<and> refs s' = refs s"
proof -
  let ?nb = "index_block (inodes s new_dir)" and ?ob = "index_block (inodes s old_dir)"
  let ?t = "move_in E src new_dir new s" and ?s = "move_out E src old_dir (move_in E src new_dir new s)"
  have N: "bread_ok E ?nb" "dir_inv (cache s ?nb)" and O: "bread_ok E ?ob" "dir_inv (cache s ?ob)"
    using nd od by (auto simp: dir_node_def Let_def)
  have "src \<noteq> 0" using src(1) dir_invD(1) [OF O(2)] unfolding dir_rep_def by (metis imageE in_set_conv_nth)
  note A = dirb.add [OF N(2) nm(1) this nm(3) src(2) room(1)] and B = dirb.del [OF O(2) src(1)]
  have ct: "cache ?t ?ob = cache s ?ob" using fl(3) by simp
  have "rename_remove E old_dir src ?t = Inr (0, ?s)"
    using rename_remove_entry [of E ?t old_dir src] O src(1) room(2) ct by simp
  then have h: "ouichefs_rename E old_dir old src new_dir new flags s = Inr (0, ?s)"
    using rename_inserted [OF fl(1,2) N nm room(1)] by simp
  have c: "cache ?s ?nb = dir_add new src (cache s ?nb)" "cache ?s ?ob = dir_del src (cache s ?ob)"
    using fl(3) by auto
  have fr: "\<forall>e \<in> set (entries_of old_dir s). snd e \<notin> free_inodes (sbi s)" "\<forall>e \<in> set (entries_of new_dir s). snd e \<notin> free_inodes (sbi s)"
    "?nb \<notin> free_blocks (sbi s)" "?ob \<notin> free_blocks (sbi s)" "new_dir \<notin> free_inodes (sbi s)" "old_dir \<notin> free_inodes (sbi s)"
    using nd od by (auto simp: dir_node_def Let_def)
  have "dir_node E new_dir ?s" "dir_node E old_dir ?s"
    using N O A B c fr src(1) by (auto simp: dir_node_def Let_def simp del: move_out_simps(3) move_in_simps(3))
  moreover have "entries_of new_dir ?s = entries_of new_dir s @ [(new, src)]"
    "entries_of old_dir ?s = filter (\<lambda>e. snd e \<noteq> src) (entries_of old_dir s)"
    using A B c by (simp_all del: move_out_simps(3) move_in_simps(3))
  ultimately show ?thesis using h by (intro exI [of _ ?s]) simp
qed

text \<open>A full old directory makes the search run past the block.\<close>

lemma rename_full_old:
  assumes nd: "dir_node E new_dir s" and od: "dir_node E old_dir s"
    and fl: "flags AND 6 = 0" "old_dir \<noteq> new_dir" "index_block (inodes s new_dir) \<noteq> index_block (inodes s old_dir)"
    and nm: "good_name new" "good_name old" "new \<notin> fst ` set (entries_of new_dir s)"
    and room: "length (entries_of new_dir s) < 128" "length (entries_of old_dir s) = 128"
    and src: "src \<in> snd ` set (entries_of old_dir s)"
  shows "ouichefs_rename E old_dir old src new_dir new flags s = Inl OutOfBounds"
proof -
  have N: "bread_ok E (index_block (inodes s new_dir))" "dir_inv (cache s (index_block (inodes s new_dir)))"
    and O: "bread_ok E (index_block (inodes s old_dir))" "dir_inv (cache s (index_block (inodes s old_dir)))"
    using nd od by (auto simp: dir_node_def Let_def)
  have "cache (move_in E src new_dir new s) (index_block (inodes s old_dir)) = cache s (index_block (inodes s old_dir))"
    using fl(3) by simp
  then show ?thesis
    using rename_inserted [OF fl(1,2) N nm room(1)] rename_remove_entry [of E "move_in E src new_dir new s" old_dir src]
      O src room(2) by simp
qed

end
