(* ===== verification/Ouiche_Namespace.thy ===== *)
theory Ouiche_Namespace
  imports Ouiche_Rename Ouiche_Volumes
begin

text \<open>
  The properties of the namespace: what the directory handlers of \<^verbatim>\<open>src/inode.c\<close> and
  \<^verbatim>\<open>src/dir.c\<close> promise together, each applied to a concrete volume.
\<close>

section \<open>Volumes with directories\<close>

lemma zero_dir: "dir_entries (\<lambda>_. 0) = []" "dir_inv (\<lambda>_. 0)"
proof -
  have R: "dir_rep (\<lambda>_. 0) []" by (simp add: dir_rep_def)
  show "dir_entries (\<lambda>_. 0) = []" "dir_inv (\<lambda>_. 0)" using dir_rep_entries [OF R] dir_invI [OF R] by simp_all
qed

text \<open>The name \<^verbatim>\<open>a\<close>, and a directory with one entry, inode 2 under that name.\<close>

definition name_a :: "u8 list" where "name_a = [97]"

definition name_b :: "u8 list" where "name_b = [98]"

definition dir_a :: block where "dir_a = dir_add name_a 2 (\<lambda>_. 0)"

lemma names_good: "good_name name_a" "good_name name_b" "name_a \<noteq> name_b" "name_b \<noteq> name_a"
  by (simp_all add: good_name_def name_a_def name_b_def)

lemma dir_a_entries: "dir_entries dir_a = [(name_a, 2)]" "dir_inv dir_a"
  using dir_add_spec [of "\<lambda>_. 0" name_a 2] zero_dir names_good by (simp_all add: dir_a_def)

definition dir_inode :: inode where
  "dir_inode = demo_inode\<lparr>i_mode := 0x41ED, i_size := 4096, i_blocks := 1, i_nlink := 2\<rparr>"

text \<open>An empty root directory: inode 1, block 4.\<close>

definition demo_root :: fs where
  "demo_root = demo_fs\<lparr>sbi := demo_sb\<lparr>nr_free_blocks := 3, bfree_bitmap := (\<lambda>_. 0)(0 := 0xE0)\<rparr>,
     inodes := (\<lambda>_. demo_inode)(1 := dir_inode\<lparr>index_block := 4\<rparr>)\<rparr>"

text \<open>The kernel's \<^verbatim>\<open>inode_init_owner\<close> for a root user.\<close>

definition demo_owner :: "inode \<Rightarrow> u32 \<Rightarrow> inode \<Rightarrow> inode" where
  "demo_owner dir mode nd = nd\<lparr>i_mode := mode, i_uid := 0, i_gid := 0\<rparr>"

lemma demo_owner_ok: "owner_ok demo_owner"
  by (simp add: owner_ok_def demo_owner_def)

lemma demo_root_facts:
  "index_block (inodes demo_root 1) = 4" "cache demo_root = (\<lambda>_ _. 0)" "icached demo_root = {}"
  "nr_inodes (sbi demo_root) = 8"
  by (simp_all add: demo_root_def demo_fs_def demo_sb_def)

lemma demo_root_pools:
  "free_blocks (sbi demo_root) = {5, 6, 7}" "block_pool (sbi demo_root)"
  "free_inodes (sbi demo_root) = {2, 3, 4, 5, 6, 7}" "inode_pool 0 (sbi demo_root)"
proof -
  show "free_inodes (sbi demo_root) = {2, 3, 4, 5, 6, 7}"
    using demo_free_inodes by (simp add: demo_root_def free_inodes_def)
  show "inode_pool 0 (sbi demo_root)" using demo_pools(4) by (simp add: demo_root_def inode_pool_def)
  show "free_blocks (sbi demo_root) = {5, 6, 7}"
    by (simp add: demo_root_def free_blocks_def demo_sb_def demo_free_bits unat_in_eq del: insert_iff fun_upd_apply)
  show "block_pool (sbi demo_root)"
    by (simp add: demo_root_def block_pool_def bitmap_pool_def demo_sb_def demo_free_bits test_bit_single del: fun_upd_apply)
qed

lemma demo_env_ok: "bread_ok demo_env b" "iget_ok demo_env i" "kmalloc_ok demo_env = (\<lambda>_. True)"
  by (simp_all add: demo_env_def)

lemma demo_root_node: "dir_node demo_env 1 demo_root" "entries_of 1 demo_root = []"
  by (simp_all add: dir_node_def Let_def demo_root_facts demo_root_pools zero_dir demo_env_ok)

section \<open>Creation\<close>

lemma good_name_len: "good_name nm \<Longrightarrow> length nm \<le> 28"
  by (simp add: good_name_def)

text \<open>C10.  Creating a file or a directory under a fresh name in a directory with room succeeds when an
  inode and a block are free: the lowest free inode is taken and set up (a directory gets a cleared
  block of its own, a file none), the directory lists one more entry, and from then on a lookup of
  the name finds the new inode, while \<^verbatim>\<open>ouichefs_lookup\<close> answers for every other name what it answered before.\<close>

theorem create_then_lookup:
  assumes "dir_node E dir s" and "good_name nm" and "nm \<notin> fst ` set (entries_of dir s)"
    and "length (entries_of dir s) < 128"
    and "inode_pool k (sbi s)" and "free_inodes (sbi s) \<noteq> {}" and "block_pool (sbi s)" and "free_blocks (sbi s) \<noteq> {}"
    and "S_ISDIR mode \<or> S_ISREG mode" and "owner_ok init"
    and "\<And>i. iget_ok E i" and "\<And>b. bread_ok E b"
  shows "\<exists>s' ino. ouichefs_create E init dir nm mode s = Inr (0, s') \<and> created dir nm mode ino s s' \<and>
    ino = Min (free_inodes (sbi s)) \<and>
    dir_node E dir s' \<and> entries_of dir s' = entries_of dir s @ [(nm, ino)] \<and>
    ouichefs_lookup E dir nm s' = Inr (Inr (Some ino), s') \<and>
    (\<forall>m. good_name m \<and> m \<noteq> nm \<longrightarrow> map_of (entries_of dir s') m = map_of (entries_of dir s) m \<and>
       map_sum id fst (ouichefs_lookup E dir m s') = map_sum id fst (ouichefs_lookup E dir m s))"
proof -
  let ?ino = "fst (get_free_inode (sbi s))"
  obtain s' where s': "ouichefs_create E init dir nm mode s = Inr (0, s')" and cr: "created dir nm mode ?ino s s'"
    using create_done [OF assms(1) good_name_len [OF assms(2)] assms(4-10) refl assms(11,12,12)] by blast
  have i: "?ino \<in> free_inodes (sbi s)" "?ino \<noteq> 0"
    using inos.grab_free [OF assms(5,6)] inos.grab_zero_iff [OF assms(5)] assms(6) by auto
  have m: "?ino = Min (free_inodes (sbi s))"
    using i(1) inos.grab_least [OF assms(5)] by (intro Min_eqI [symmetric]) auto
  note N = created_entries [OF assms(1-4) cr i(2)]
  have lt: "?ino < nr_inodes (sbi s')" "?ino \<in> icached s'"
    using i(1) cr by (auto simp: created_def Let_def free_inodes_def free_bits_def word_less_nat_alt)
  have D: "dir_inv (cache s' (index_block (inodes s' dir)))" using N(2) by (simp add: dir_node_def Let_def)
  have "ouichefs_lookup E dir nm s' = Inr (Inr (Some ?ino), s')"
    using N(1) by (intro lookup_cached [OF assms(12) D assms(2) _ lt(1) assms(11) lt(2)]) simp
  moreover have "map_of (entries_of dir s') m = map_of (entries_of dir s) m" if "m \<noteq> nm" for m
    using that N(1) by (simp add: map_add_def split: option.split)
  moreover have "map_sum id fst (ouichefs_lookup E dir m s') = map_sum id fst (ouichefs_lookup E dir m s)"
    if "good_name m" "m \<noteq> nm" for m
  proof -
    have d: "dir_inv (cache s (index_block (inodes s dir)))" and n: "nr_inodes (sbi s') = nr_inodes (sbi s)"
      using assms(1) cr by (auto simp: dir_node_def created_def Let_def)
    show ?thesis
      by (simp only: lookup_value [OF d that(1) assms(11,12)] lookup_value [OF D that(1) assms(11,12)] n calculation(2) [OF that(2)])
  qed
  ultimately show ?thesis using s' cr m N by (intro exI [of _ s'] exI [of _ ?ino]) simp
qed

theorem create_then_lookup_witness:
  "\<exists>s' ino. ouichefs_create demo_env demo_owner 1 name_a 0x81A4 demo_root = Inr (0, s') \<and>
    entries_of 1 s' = [(name_a, ino)] \<and> ouichefs_lookup demo_env 1 name_a s' = Inr (Inr (Some ino), s')"
proof -
  have "S_ISDIR 0x81A4 \<or> S_ISREG 0x81A4" by (simp add: S_ISREG_def)
  note T = create_then_lookup [OF demo_root_node(1) names_good(1) _ _ demo_root_pools(4) _ demo_root_pools(2) _
      this demo_owner_ok demo_env_ok(2,1)]
  have "\<exists>s' ino. ouichefs_create demo_env demo_owner 1 name_a 0x81A4 demo_root = Inr (0, s') \<and> created 1 name_a 0x81A4 ino demo_root s' \<and>
    ino = Min (free_inodes (sbi demo_root)) \<and>
    dir_node demo_env 1 s' \<and> entries_of 1 s' = entries_of 1 demo_root @ [(name_a, ino)] \<and>
    ouichefs_lookup demo_env 1 name_a s' = Inr (Inr (Some ino), s') \<and>
    (\<forall>m. good_name m \<and> m \<noteq> name_a \<longrightarrow> map_of (entries_of 1 s') m = map_of (entries_of 1 demo_root) m \<and>
       map_sum id fst (ouichefs_lookup demo_env 1 m s') = map_sum id fst (ouichefs_lookup demo_env 1 m demo_root))"
    by (rule T) (simp_all add: demo_root_node(2) demo_root_pools)
  then show ?thesis unfolding demo_root_node(2) by auto
qed

section \<open>A directory made and removed\<close>

lemma mkdir_mode: "mode < 0x1000 \<Longrightarrow> S_ISDIR (mode OR 0x4000)" for mode :: u32
proof -
  assume "mode < 0x1000"
  then have "take_bit 12 mode = mode" by (simp add: word_unat_eq_iff unsigned_take_bit_eq word_less_nat_alt take_bit_nat_eq_self_iff)
  then have "mode AND 0xF000 = take_bit 12 mode AND 0xF000" by simp
  also have "\<dots> = mode AND take_bit 12 0xF000" by (simp only: take_bit_eq_mask ac_simps)
  also have "\<dots> = 0" by simp
  finally show ?thesis by (simp add: S_ISDIR_def bit.conj_disj_distrib2)
qed

text \<open>C13.  Removing a directory just made gives back everything: the entry, the inode, the block, the
  link count of the parent; no other block, inode or buffer reference has changed.\<close>

theorem mkdir_rmdir:
  assumes "dir_node E dir s" and "good_name nm" and "nm \<notin> fst ` set (entries_of dir s)"
    and "length (entries_of dir s) < 128"
    and "inode_pool k (sbi s)" and "free_inodes (sbi s) \<noteq> {}" and "block_pool (sbi s)" and "free_blocks (sbi s) \<noteq> {}"
    and "mode < 0x1000" and "owner_ok init"
    and "\<And>i. iget_ok E i" and "\<And>b. bread_ok E b"
  shows "\<exists>ino s' s''. ouichefs_mkdir E init dir nm mode s = Inr (0, s') \<and> (nm, ino) \<in> set (entries_of dir s') \<and>
    ouichefs_rmdir E fuel dir ino s' = Inr (0, s'') \<and>
    entries_of dir s'' = entries_of dir s \<and> dir_node E dir s'' \<and>
    free_blocks (sbi s'') = free_blocks (sbi s) \<and> block_pool (sbi s'') \<and>
    free_inodes (sbi s'') = free_inodes (sbi s) \<and> inode_pool k (sbi s'') \<and>
    i_nlink (inodes s'' dir) = i_nlink (inodes s dir) \<and>
    (\<forall>j. j \<noteq> ino \<and> j \<noteq> dir \<longrightarrow> inodes s'' j = inodes s j) \<and>
    (\<forall>b. b \<noteq> index_block (inodes s dir) \<and> b \<notin> free_blocks (sbi s) \<longrightarrow> cache s'' b = cache s b) \<and>
    (free_zeroed s \<longrightarrow> free_zeroed s'') \<and> refs s'' = refs s"
proof -
  let ?ino = "fst (get_free_inode (sbi s))" and ?m = "mode OR 0x4000"
  have md: "S_ISDIR ?m" using mkdir_mode [OF assms(9)] .
  obtain s' where s': "ouichefs_create E init dir nm ?m s = Inr (0, s')" and cr: "created dir nm ?m ?ino s s'"
    using create_done [OF assms(1) good_name_len [OF assms(2)] assms(4-8) _ assms(10) refl assms(11,12,12), of ?m] md by blast
  have i: "?ino \<in> free_inodes (sbi s)" "?ino \<noteq> 0"
    using inos.grab_free [OF assms(5,6)] inos.grab_zero_iff [OF assms(5)] assms(6) by auto
  note N = created_entries [OF assms(1-4) cr i(2)]
  note C = cr [unfolded created_def Let_def]
  let ?b = "index_block (inodes s' ?ino)" and ?ib = "index_block (inodes s dir)"
  have D: "?ib \<notin> free_blocks (sbi s)" "dir \<notin> free_inodes (sbi s)" using assms(1) by (auto simp: dir_node_def Let_def)
  have ib: "index_block (inodes s' dir) = ?ib" and b: "?b \<in> free_blocks (sbi s)" using C md by auto
  have univ: "inode_univ (sbi s') = inode_univ (sbi s)" using C by (simp add: inode_univ_def)
  have ne: "?ino \<noteq> dir" "?ib \<noteq> ?b" using i(1) D b by auto
  have isd: "S_ISDIR (i_mode (inodes s' ?ino))" using C md by (simp add: S_ISDIR_def)
  have bz: "dir_ino (cache s' ?b) 0 = 0" using C md by (simp add: dir_ino_def zeroed_get32)
  have bu: "?b \<in> block_univ (sbi s') - free_blocks (sbi s')" using C md b blocks.free_univ [OF assms(7)] by auto
  have li: "live_inode k ?ino s'" using C i(1) inos.free_univ [OF assms(5)] univ assms(5) by auto
  obtain s'' where r: "ouichefs_rmdir E fuel dir ?ino s' = Inr (0, s'')"
      "released ?ino {?b} (unlinked E dir ?ino s') s''"
      "entries_of dir s'' = filter (\<lambda>e. snd e \<noteq> ?ino) (entries_of dir s')" "dir_node E dir s''"
    using rmdir_empty [OF N(2) _ ne(1) isd _ assms(12) bz _ bu li, of fuel] C N(1) ib ne(2) by auto
  note R = r(2) [unfolded released_def]
  have ni: "\<forall>e \<in> set (entries_of dir s). snd e \<noteq> ?ino" using assms(1) i(1) by (auto simp: dir_node_def Let_def)
  have fb: "free_blocks (sbi s'') = free_blocks (sbi s)" using R C md b by auto
  have ca: "cache s'' c = cache s c" if "c \<noteq> ?ib" "c \<noteq> ?b" for c using R C ib that by simp
  have fz: "free_zeroed s''" if "free_zeroed s"
    unfolding free_zeroed_def fb
  proof
    fix c assume "c \<in> free_blocks (sbi s)"
    then have "c \<noteq> ?ib" "zeroed (cache s c)" using D(1) that by (auto simp: free_zeroed_def)
    then have "c = ?b \<or> cache s'' c = cache s c" "zeroed (cache s c)" using ca by blast+
    then show "zeroed (cache s'' c)" using R by auto
  qed
  show ?thesis
  proof (intro exI conjI)
    show "ouichefs_mkdir E init dir nm mode s = Inr (0, s')" using s' by (simp add: ouichefs_mkdir_def)
    show "entries_of dir s'' = entries_of dir s" using r(3) N(1) ni by (simp add: filter_id_conv)
    show "i_nlink (inodes s'' dir) = i_nlink (inodes s dir)"
      using R C ne(1) isd md by simp
    show "\<forall>j. j \<noteq> ?ino \<and> j \<noteq> dir \<longrightarrow> inodes s'' j = inodes s j" using R C by simp
    show "\<forall>c. c \<noteq> ?ib \<and> c \<notin> free_blocks (sbi s) \<longrightarrow> cache s'' c = cache s c" using ca b by auto
    show "inode_pool k (sbi s'')" using R li by simp
    show "free_zeroed s \<longrightarrow> free_zeroed s''" using fz by blast
  qed (use r N(1) fb R C i in auto)
qed

theorem mkdir_rmdir_witness:
  "\<exists>ino s' s''. ouichefs_mkdir demo_env demo_owner 1 name_a 0x1ED demo_root = Inr (0, s') \<and>
    ouichefs_rmdir demo_env 0 1 ino s' = Inr (0, s'') \<and> free_blocks (sbi s'') = {5, 6, 7}"
  using mkdir_rmdir [OF demo_root_node(1) names_good(1) _ _ demo_root_pools(4) _ demo_root_pools(2) _ _ demo_owner_ok
      demo_env_ok(2,1), of "0x1ED" 0]
  unfolding demo_root_node(2) demo_root_pools(1,3) by auto

section \<open>Removal\<close>

lemma unlinked_name_gone:
  assumes "dir_inv (cache s (index_block (inodes s dir)))" "(nm, ino) \<in> set (entries_of dir s)"
    "entries_of dir s' = filter (\<lambda>e. snd e \<noteq> ino) (entries_of dir s)" "dir_node E dir s'"
  shows "ouichefs_lookup E dir nm s' = Inr (Inr None, s')"
proof -
  have "\<forall>j. (nm, j) \<in> set (entries_of dir s) \<longrightarrow> j = ino"
    using dir_invD(3) [OF assms(1)] assms(2) by (auto dest: eq_key_imp_eq_value)
  moreover have "0 \<notin> set nm" "length nm \<le> 28" using dir_invD(2) [OF assms(1,2)] by (auto simp: good_name_def)
  ultimately show ?thesis using assms(3,4) by (intro lookup_absent) (auto simp: dir_node_def Let_def)
qed

text \<open>C11.  Unlinking a small file takes its entry out of the directory, so that its name is no longer
  found, gives back the inode, its slices and the sliced blocks left empty, and leaves the bytes of
  every other small file, every other inode and every block outside the chain and the directory as
  they were.\<close>

theorem unlink_small_correct:
  assumes "dir_node E dir s" and "(nm, ino) \<in> set (entries_of dir s)" and "ino \<noteq> dir"
    and "small_vol E s xs F" and "ino \<in> F" and "length xs \<le> fuel" and "\<not> S_ISDIR (i_mode (inodes s ino))"
    and "inode_pool k (sbi s)" and "ino \<in> inode_univ (sbi s) - free_inodes (sbi s)"
    and "index_block (inodes s dir) \<notin> set xs" and "dir \<notin> F"
  shows "\<exists>s' xs'. ouichefs_unlink E fuel dir ino s = Inr (0, s') \<and>
    entries_of dir s' = filter (\<lambda>e. snd e \<noteq> ino) (entries_of dir s) \<and> dir_node E dir s' \<and>
    ouichefs_lookup E dir nm s' = Inr (Inr None, s') \<and>
    free_inodes (sbi s') = insert ino (free_inodes (sbi s)) \<and> cleaned (inodes s' ino) \<and>
    set xs' \<subseteq> set xs \<and> small_vol E s' xs' (F - {ino}) \<and>
    free_blocks (sbi s') = free_blocks (sbi s) \<union> (set xs - set xs') \<and>
    (\<forall>l \<in> F - {ino}. \<forall>p < i_size (inodes s l). small_byte s' l p = small_byte s l p) \<and>
    (\<forall>j. j \<noteq> ino \<and> j \<noteq> dir \<longrightarrow> inodes s' j = inodes s j) \<and>
    (\<forall>b. b \<notin> set xs \<and> b \<noteq> index_block (inodes s dir) \<longrightarrow> cache s' b = cache s b) \<and> refs s' = refs s"
proof -
  let ?t = "unlinked E dir ino s"
  have mem: "ino \<in> snd ` set (entries_of dir s)" using assms(2) by force
  obtain s' where s': "ouichefs_unlink E fuel dir ino s = Inr (0, s')" "unlinked_small E ino xs F ?t s'"
      "entries_of dir s' = filter (\<lambda>e. snd e \<noteq> ino) (entries_of dir s)" "dir_node E dir s'"
    using unlink_small_file [OF assms(1) mem assms(3-7), of k] assms(8-11) by blast
  note U = s'(2) [unfolded unlinked_small_def]
  have D: "dir_inv (cache s (index_block (inodes s dir)))" using assms(1) by (auto simp: dir_node_def Let_def)
  note gone = unlinked_name_gone [OF D assms(2) s'(3,4)]
  have node: "inodes ?t l = inodes s l" if "l \<in> F" for l using that assms(11) by (intro unlinked_simps(4)) auto
  have "SMALL_FILE_GET_BNO (inodes s l) \<noteq> index_block (inodes s dir)" if "l \<in> F" for l
    using that assms(4,10) by (auto simp: small_vol_def slice_inv_def small_node_def)
  then have byte: "small_byte ?t l p = small_byte s l p" if "l \<in> F" for l p
    using that node by (simp add: small_byte_def)
  obtain xs' where xs': "set xs' \<subseteq> set xs" "small_vol E s' xs' (F - {ino})"
      "free_blocks (sbi s') = free_blocks (sbi s) \<union> (set xs - set xs')" using U by auto
  have "\<forall>l \<in> F - {ino}. \<forall>p < i_size (inodes s l). small_byte s' l p = small_byte s l p"
    using U byte node by auto
  then show ?thesis using s' xs' U gone by (intro exI [of _ s'] exI [of _ xs']) simp
qed

text \<open>A volume with the small file of \<open>demo_small\<close> under the name \<^verbatim>\<open>a\<close> of a root directory in block 5.\<close>

definition demo_root_small :: fs where
  "demo_root_small = demo_small\<lparr>
     sbi := (sbi demo_small)\<lparr>nr_free_blocks := 2, bfree_bitmap := (\<lambda>_. 0)(0 := 0xC0),
       nr_free_inodes := 5, ifree_bitmap := (\<lambda>_. 0)(0 := 0xF8)\<rparr>,
     cache := (cache demo_small)(5 := dir_a),
     inodes := (inodes demo_small)(1 := dir_inode\<lparr>index_block := 5\<rparr>)\<rparr>"

lemma free_bits_F8: "free_bits ((\<lambda>_. 0)(0 := 0xF8)) 8 = {3, 4, 5, 6, 7}"
proof -
  have "{k. k < 8 \<and> bit (0xF8 :: u64) k} = {3, 4, 5, 6, 7}" unfolding less_eight by auto
  then show ?thesis unfolding free_bits_small .
qed

lemma demo_root_small_pools:
  "free_blocks (sbi demo_root_small) = {6, 7}" "block_pool (sbi demo_root_small)"
  "free_inodes (sbi demo_root_small) = {3, 4, 5, 6, 7}" "inode_pool 0 (sbi demo_root_small)"
  by (simp_all add: demo_root_small_def demo_small_def demo_sb_def free_blocks_def block_pool_def free_inodes_def
      inode_pool_def bitmap_pool_def demo_free_bits free_bits_F8 test_bit_single unat_in_eq del: insert_iff fun_upd_apply)
    simp_all

lemma demo_root_small_facts:
  "cache demo_root_small 4 = cache demo_small 4" "inodes demo_root_small 2 = inodes demo_small 2"
  "cache demo_root_small 5 = dir_a" "index_block (inodes demo_root_small 1) = 5" "cache demo_root_small 6 = (\<lambda>_. 0)"
  "cache demo_root_small 7 = (\<lambda>_. 0)" "nr_blocks (sbi demo_root_small) = 8" "nr_inodes (sbi demo_root_small) = 8"
  "s_free_sliced_blocks (sbi demo_root_small) = 4" "nr_sliced_blocks (sbi demo_root_small) = 1"
  "nr_used_slices (sbi demo_root_small) = 1"
  by (simp_all add: demo_root_small_def demo_small_def demo_sb_def)

lemma demo_root_small_node: "dir_node demo_env 1 demo_root_small" "entries_of 1 demo_root_small = [(name_a, 2)]"
  by (simp_all add: dir_node_def Let_def demo_root_small_facts demo_root_small_pools dir_a_entries demo_env_ok)

lemma demo_root_small_vol: "small_vol demo_env demo_root_small [4] {2}"
proof -
  have "sliced_chain demo_env demo_root_small [4]"
    using demo_root_small_pools demo_small_header(2)
    by (simp add: sliced_chain_def block_univ_def demo_root_small_facts demo_env_ok)
  moreover have "mounted demo_env demo_root_small" "free_zeroed demo_root_small"
    by (simp_all add: mounted_def io_ok_def demo_env_ok free_zeroed_def demo_root_small_pools demo_root_small_facts zeroed_def)
  moreover have "bits_exact demo_root_small {2} 4"
    using demo_small_cells(1) by (simp add: bits_exact_def demo_root_small_facts)
  ultimately show ?thesis
    using demo_small_vol demo_small_cells(2) unfolding small_vol_def slice_inv_def
    by (simp add: demo_root_small_facts demo_small_inode)
qed

theorem unlink_small_correct_witness:
  "\<exists>s'. ouichefs_unlink demo_env 1 1 2 demo_root_small = Inr (0, s') \<and> entries_of 1 s' = [] \<and>
    ouichefs_lookup demo_env 1 name_a s' = Inr (Inr None, s')"
proof -
  have "(name_a, 2) \<in> set (entries_of 1 demo_root_small)" by (simp add: demo_root_small_node)
  note T = unlink_small_correct [OF demo_root_small_node(1) this _ demo_root_small_vol, of 1 0]
  have "\<not> S_ISDIR (i_mode (inodes demo_root_small 2))"
    by (simp add: demo_root_small_facts demo_small_def demo_inode_def S_ISDIR_def)
  then show ?thesis
    using T demo_root_small_pools
    by (auto simp: demo_root_small_facts dir_a_entries inode_univ_def)
qed

text \<open>C12.  Unlinking a big file takes its entry out of the directory and gives back the inode, the index
  block and every data block its size covers, all cleared; every other block but the directory's and
  every other inode is as it was.\<close>

theorem unlink_big_correct:
  assumes "dir_node E dir s" and "(nm, ino) \<in> set (entries_of dir s)" and "ino \<noteq> dir"
    and "big_file E ino s" and "\<not> S_ISDIR (i_mode (inodes s ino))"
    and "inode_pool k (sbi s)" and "ino \<in> inode_univ (sbi s) - free_inodes (sbi s)"
    and "index_block (inodes s dir) \<notin> insert (index_block (inodes s ino)) (data_blocks s (index_block (inodes s ino)))"
    and "D = insert (index_block (inodes s ino))
      (mapped s (index_block (inodes s ino)) 0 (div_round_up (i_size (inodes s ino)) 4096))"
  shows "\<exists>s'. ouichefs_unlink E fuel dir ino s = Inr (0, s') \<and>
    entries_of dir s' = filter (\<lambda>e. snd e \<noteq> ino) (entries_of dir s) \<and> dir_node E dir s' \<and>
    ouichefs_lookup E dir nm s' = Inr (Inr None, s') \<and>
    free_inodes (sbi s') = insert ino (free_inodes (sbi s)) \<and> cleaned (inodes s' ino) \<and>
    free_blocks (sbi s') = free_blocks (sbi s) \<union> D \<and> block_pool (sbi s') \<and> free_zeroed s' \<and>
    (\<forall>j. j \<noteq> ino \<and> j \<noteq> dir \<longrightarrow> inodes s' j = inodes s j) \<and>
    (\<forall>b. b \<notin> D \<and> b \<noteq> index_block (inodes s dir) \<longrightarrow> cache s' b = cache s b) \<and> refs s' = refs s"
proof -
  let ?t = "unlinked E dir ino s" and ?ib = "index_block (inodes s dir)"
  have mem: "ino \<in> snd ` set (entries_of dir s)" using assms(2) by force
  obtain s' where s': "ouichefs_unlink E fuel dir ino s = Inr (0, s')" "released ino D ?t s'"
      "entries_of dir s' = filter (\<lambda>e. snd e \<noteq> ino) (entries_of dir s)" "dir_node E dir s'"
    using unlink_big_file [OF assms(1) mem assms(3-5) _ assms(8), of k] assms(6,7,9) by blast
  note R = s'(2) [unfolded released_def]
  have D: "dir_inv (cache s ?ib)" "?ib \<notin> free_blocks (sbi s)" using assms(1) by (auto simp: dir_node_def Let_def)
  have "free_zeroed s'"
    unfolding free_zeroed_def
  proof
    fix b assume "b \<in> free_blocks (sbi s')"
    then have "b \<in> D \<or> b \<in> free_blocks (sbi s)" using R by auto
    moreover have "zeroed (cache s b)" if "b \<in> free_blocks (sbi s)"
      using assms(4) that by (auto simp: big_file_def big_wf_def free_zeroed_def)
    moreover have "cache s' b = cache s b" if "b \<in> free_blocks (sbi s)" "b \<notin> D"
    proof -
      have "b \<noteq> ?ib" using that(1) D(2) by auto
      then show ?thesis using R that(2) by simp
    qed
    ultimately show "zeroed (cache s' b)" using R by metis
  qed
  then show ?thesis
    using s' R unlinked_name_gone [OF D(1) assms(2) s'(3,4)] by (intro exI [of _ s']) simp
qed

text \<open>A volume with the big file of \<open>demo_big\<close> under the name \<^verbatim>\<open>a\<close> of a root directory in block 6.\<close>

definition demo_root_big :: fs where
  "demo_root_big = demo_big\<lparr>
     sbi := (sbi demo_big)\<lparr>nr_free_blocks := 1, bfree_bitmap := (\<lambda>_. 0)(0 := 0x80),
       nr_free_inodes := 5, ifree_bitmap := (\<lambda>_. 0)(0 := 0xF8)\<rparr>,
     cache := (cache demo_big)(6 := dir_a),
     inodes := (inodes demo_big)(1 := dir_inode\<lparr>index_block := 6\<rparr>)\<rparr>"

lemma demo_root_big_pools:
  "free_blocks (sbi demo_root_big) = {7}" "block_pool (sbi demo_root_big)"
  "free_inodes (sbi demo_root_big) = {3, 4, 5, 6, 7}" "inode_pool 0 (sbi demo_root_big)"
proof -
  have "{k. k < 8 \<and> bit (0x80 :: u64) k} = {7}" unfolding less_eight by auto
  then have f: "free_bits ((\<lambda>_. 0)(0 := 0x80)) 8 = {7}" unfolding free_bits_small .
  show "free_blocks (sbi demo_root_big) = {7}" "block_pool (sbi demo_root_big)"
    "free_inodes (sbi demo_root_big) = {3, 4, 5, 6, 7}" "inode_pool 0 (sbi demo_root_big)"
    by (simp_all add: demo_root_big_def demo_big_def demo_sb_def free_blocks_def block_pool_def free_inodes_def
        inode_pool_def bitmap_pool_def f free_bits_F8 test_bit_single unat_in_eq del: insert_iff fun_upd_apply)
      simp_all
qed

lemma demo_root_big_facts:
  "cache demo_root_big 4 = cache demo_big 4" "inodes demo_root_big 2 = inodes demo_big 2"
  "cache demo_root_big 6 = dir_a" "index_block (inodes demo_root_big 1) = 6" "cache demo_root_big 7 = (\<lambda>_. 0)"
  "nr_blocks (sbi demo_root_big) = 8" "nr_inodes (sbi demo_root_big) = 8"
  by (simp_all add: demo_root_big_def demo_big_def demo_sb_def)

lemma demo_root_big_node: "dir_node demo_env 1 demo_root_big" "entries_of 1 demo_root_big = [(name_a, 2)]"
  by (simp_all add: dir_node_def Let_def demo_root_big_facts demo_root_big_pools dir_a_entries demo_env_ok)

lemma demo_root_big_file: "big_file demo_env 2 demo_root_big"
proof -
  have "big_wf demo_root_big 4"
    using demo_root_big_pools
    by (auto simp: big_wf_def demo_root_big_facts demo_big_index block_univ_def free_zeroed_def zeroed_def)
  then show ?thesis
    by (simp add: big_file_def demo_root_big_facts demo_big_inode div_round_up_def io_ok_def demo_env_ok)
qed

theorem unlink_big_correct_witness:
  "\<exists>s'. ouichefs_unlink demo_env 0 1 2 demo_root_big = Inr (0, s') \<and> entries_of 1 s' = [] \<and>
    free_blocks (sbi s') = {4, 5, 7}"
proof -
  have "(name_a, 2) \<in> set (entries_of 1 demo_root_big)" by (simp add: demo_root_big_node)
  note T = unlink_big_correct [OF demo_root_big_node(1) this _ demo_root_big_file, of 0 "{4, 5}" 0]
  have "\<not> S_ISDIR (i_mode (inodes demo_root_big 2))"
    by (simp add: demo_root_big_facts demo_big_def demo_inode_def S_ISDIR_def)
  moreover have "mapped demo_root_big 4 0 1 = {5}" by (simp add: mapped_def demo_root_big_facts demo_big_index)
  moreover have "6 \<notin> data_blocks demo_root_big 4" by (auto simp: data_blocks_def demo_root_big_facts demo_big_index)
  moreover have "2 \<in> inode_univ (sbi demo_root_big) - free_inodes (sbi demo_root_big)"
    using demo_root_big_pools by (simp add: inode_univ_def demo_root_big_facts)
  ultimately show ?thesis
    using T demo_root_big_pools
    by (auto simp: demo_root_big_facts dir_a_entries demo_big_inode div_round_up_def)
qed

section \<open>Renaming\<close>

lemma rename_same_dir_correct:
  assumes "dir_node E dir s" and "flags AND 6 = 0" and "good_name old" and "good_name new"
    and "(old, ino) \<in> set (entries_of dir s)" and "new \<notin> fst ` set (entries_of dir s)"
  shows "\<exists>s'. ouichefs_rename E dir old ino dir new flags s = Inr (0, s') \<and> dir_node E dir s' \<and>
    entries_of dir s' = map (\<lambda>e. if fst e = old then (new, snd e) else e) (entries_of dir s) \<and>
    (\<forall>m. good_name m \<longrightarrow> map_of (entries_of dir s') m =
       (if m = new then Some ino else if m = old then None else map_of (entries_of dir s) m)) \<and>
    (\<forall>b. b \<noteq> index_block (inodes s dir) \<longrightarrow> cache s' b = cache s b) \<and>
    sbi s' = sbi s \<and> inodes s' = inodes s \<and> refs s' = refs s"
proof -
  let ?ib = "index_block (inodes s dir)"
  let ?s = "mark_buffer_dirty ?ib (buf_upd ?ib (dir_ren old new) s)"
  have D: "bread_ok E ?ib" "dir_inv (cache s ?ib)" using assms(1) by (auto simp: dir_node_def Let_def)
  have mem: "old \<in> fst ` set (entries_of dir s)" using assms(5) by force
  note A = dirb.ren [OF D(2) assms(4,3) mem assms(6)]
  have "map_of (entries_of dir s) old = Some ino" using assms(5) dir_invD(3) [OF D(2)] by simp
  then have F: "map_of (dir_entries (dir_ren old new (cache s ?ib))) m =
      (if m = new then Some ino else if m = old then None else map_of (entries_of dir s) m)" if "good_name m" for m
    using dirb.find_ren [OF D(2) assms(4,3) mem assms(6) that] A that D(2) assms(3) by (simp add: dirb.find)
  have "map snd (dir_entries (dir_ren old new (cache s ?ib))) = map snd (entries_of dir s)"
    using A by (auto intro!: map_cong)
  then have "snd ` set (dir_entries (dir_ren old new (cache s ?ib))) = snd ` set (entries_of dir s)"
    by (metis list.set_map)
  then have "dir_node E dir ?s" using assms(1) A by (auto simp: dir_node_def Let_def)
  then show ?thesis
    using rename_same_dir [OF assms(2) D assms(4,3) mem assms(6)] A F by (intro exI [of _ ?s]) simp
qed

text \<open>C16.  Renaming a file within its directory changes its name and nothing else: the new name is found
  where the old one was, the old one is not found any more, every other name as before.\<close>

theorem rename_within_directory:
  assumes "dir_node E dir s" and "flags AND 6 = 0" and "good_name old" and "good_name new"
    and "(old, ino) \<in> set (entries_of dir s)" and "new \<notin> fst ` set (entries_of dir s)"
  shows "\<exists>s'. ouichefs_rename E dir old ino dir new flags s = Inr (0, s') \<and> dir_node E dir s' \<and>
    entries_of dir s' = map (\<lambda>e. if fst e = old then (new, snd e) else e) (entries_of dir s) \<and>
    (\<forall>m. good_name m \<longrightarrow> map_of (entries_of dir s') m =
       (if m = new then Some ino else if m = old then None else map_of (entries_of dir s) m)) \<and>
    (\<forall>b. b \<noteq> index_block (inodes s dir) \<longrightarrow> cache s' b = cache s b) \<and>
    sbi s' = sbi s \<and> inodes s' = inodes s \<and> refs s' = refs s"
  using assms by (rule rename_same_dir_correct)

theorem rename_within_directory_witness:
  "\<exists>s'. ouichefs_rename demo_env 1 name_a 2 1 name_b 0 demo_root_small = Inr (0, s') \<and> entries_of 1 s' = [(name_b, 2)]"
  using rename_within_directory [OF demo_root_small_node(1) _ names_good(1,2), of 0 2] names_good(4)
  unfolding demo_root_small_node(2) by auto

text \<open>C17.  Moving a file to another directory inserts it there under its new name and takes it out of the
  old directory, as long as neither directory is full.  Nothing outside the two directory blocks and
  the two directory inodes changes.\<close>

theorem rename_between_directories:
  assumes "dir_node E new_dir s" and "dir_node E old_dir s" and "flags AND 6 = 0" and "old_dir \<noteq> new_dir"
    and "index_block (inodes s new_dir) \<noteq> index_block (inodes s old_dir)"
    and "good_name new" and "good_name old" and "new \<notin> fst ` set (entries_of new_dir s)"
    and "length (entries_of new_dir s) < 128" and "length (entries_of old_dir s) < 128"
    and "src \<in> snd ` set (entries_of old_dir s)" and "src \<notin> snd ` set (entries_of new_dir s)"
  shows "\<exists>s'. ouichefs_rename E old_dir old src new_dir new flags s = Inr (0, s') \<and>
    entries_of new_dir s' = entries_of new_dir s @ [(new, src)] \<and>
    entries_of old_dir s' = filter (\<lambda>e. snd e \<noteq> src) (entries_of old_dir s) \<and>
    dir_node E new_dir s' \<and> dir_node E old_dir s' \<and>
    (\<forall>b. b \<noteq> index_block (inodes s new_dir) \<and> b \<noteq> index_block (inodes s old_dir) \<longrightarrow> cache s' b = cache s b) \<and>
    (\<forall>j. j \<noteq> old_dir \<and> j \<noteq> new_dir \<longrightarrow> inodes s' j = inodes s j) \<and> sbi s' = sbi s \<and> refs s' = refs s"
  using assms by (rule rename_moves)

text \<open>A root directory in block 4 with the entry \<^verbatim>\<open>a\<close>, and an empty directory, inode 3, in block 5.\<close>

definition demo_two :: fs where
  "demo_two = demo_fs\<lparr>
     sbi := demo_sb\<lparr>nr_free_blocks := 2, bfree_bitmap := (\<lambda>_. 0)(0 := 0xC0),
       nr_free_inodes := 4, ifree_bitmap := (\<lambda>_. 0)(0 := 0xF0)\<rparr>,
     cache := (\<lambda>_ _. 0)(4 := dir_a),
     inodes := (\<lambda>_. demo_inode)(1 := dir_inode\<lparr>index_block := 4\<rparr>, 3 := dir_inode\<lparr>index_block := 5\<rparr>)\<rparr>"

lemma demo_two_facts:
  "free_blocks (sbi demo_two) = {6, 7}" "free_inodes (sbi demo_two) = {4, 5, 6, 7}"
  "index_block (inodes demo_two 1) = 4" "index_block (inodes demo_two 3) = 5"
  "cache demo_two 4 = dir_a" "cache demo_two 5 = (\<lambda>_. 0)"
proof -
  show "free_blocks (sbi demo_two) = {6, 7}" "free_inodes (sbi demo_two) = {4, 5, 6, 7}"
    by (simp_all add: demo_two_def demo_sb_def free_blocks_def free_inodes_def demo_free_bits unat_in_eq
        del: insert_iff fun_upd_apply)
qed (simp_all add: demo_two_def)

lemma demo_two_nodes:
  "dir_node demo_env 1 demo_two" "dir_node demo_env 3 demo_two"
  "entries_of 1 demo_two = [(name_a, 2)]" "entries_of 3 demo_two = []"
  by (simp_all add: dir_node_def Let_def demo_two_facts dir_a_entries zero_dir demo_env_ok)

theorem rename_between_directories_witness:
  "\<exists>s'. ouichefs_rename demo_env 1 name_a 2 3 name_b 0 demo_two = Inr (0, s') \<and>
    entries_of 1 s' = [] \<and> entries_of 3 s' = [(name_b, 2)]"
  using rename_between_directories [OF demo_two_nodes(2,1), of 0 name_b name_a 2] names_good
  by (auto simp: demo_two_facts dir_a_entries zero_dir)

section \<open>Listing\<close>

text \<open>C18.  Listing a directory from a position behind the two dots emits, in order, every entry from that
  position on with its name and inode number, and ends at the position after the last one.\<close>

theorem iterate_lists_entries:
  assumes "dir_node E dir s" and "S_ISDIR (i_mode (inodes s dir))"
    and "ctx_pos c = p + 2" and "p \<le> length (entries_of dir s)"
    and "length (entries_of dir s) \<le> p + ctx_room c"
  shows "\<exists>c' out. ouichefs_iterate E dir parent c s = (0, c', s) \<and>
    ctx_pos c' = length (entries_of dir s) + 2 \<and> ctx_out c' = ctx_out c @ out \<and>
    map (\<lambda>(nm, ino). (takeWhile (\<lambda>c. c \<noteq> 0) nm, ino)) out = drop p (entries_of dir s)"
  using iterate_lists [of E s dir c p parent] assms by (auto simp: dir_node_def Let_def)

theorem iterate_lists_entries_witness:
  "\<exists>c' out. ouichefs_iterate demo_env 1 1 \<lparr>ctx_pos = 2, ctx_out = [], ctx_room = 5\<rparr> demo_root_small = (0, c', demo_root_small) \<and>
    ctx_pos c' = 3 \<and> ctx_out c' = out \<and>
    map (\<lambda>(nm, ino). (takeWhile (\<lambda>c. c \<noteq> 0) nm, ino)) out = [(name_a, 2)]"
proof -
  have "S_ISDIR (i_mode (inodes demo_root_small 1))"
    by (simp add: demo_root_small_def dir_inode_def S_ISDIR_def)
  then show ?thesis
    using iterate_lists_entries [OF demo_root_small_node(1), of "\<lparr>ctx_pos = 2, ctx_out = [], ctx_room = 5\<rparr>" 0 1]
    by (simp add: demo_root_small_facts dir_a_entries numeral_3_eq_3)
qed

section \<open>Failures\<close>

lemma dir_add_take: "dir_add (take 27 nm) ino d = dir_add nm ino d"
  by (simp add: dir_add_def dir_set_name_def strscpy_def)

text \<open>C39.  A name of exactly 28 bytes passes the length check of creation but is stored without its last
  byte: the creation succeeds and a lookup of the name just created finds nothing.\<close>

theorem long_name_lost:
  assumes "dir_node E dir s" and "length nm = 28" and "0 \<notin> set nm" and "take 27 nm \<notin> fst ` set (entries_of dir s)"
    and "length (entries_of dir s) < 128"
    and "inode_pool k (sbi s)" and "free_inodes (sbi s) \<noteq> {}" and "block_pool (sbi s)" and "free_blocks (sbi s) \<noteq> {}"
    and "S_ISDIR mode \<or> S_ISREG mode" and "owner_ok init"
    and "\<And>i. iget_ok E i" and "\<And>b. bread_ok E b"
  shows "\<exists>s' ino. ouichefs_create E init dir nm mode s = Inr (0, s') \<and>
    entries_of dir s' = entries_of dir s @ [(take 27 nm, ino)] \<and>
    ouichefs_lookup E dir nm s' = Inr (Inr None, s')"
proof -
  let ?ino = "fst (get_free_inode (sbi s))"
  obtain s' where s': "ouichefs_create E init dir nm mode s = Inr (0, s')" and cr: "created dir nm mode ?ino s s'"
    using create_done [OF assms(1) _ assms(5-11) refl assms(12,13,13), of nm] assms(2) by auto
  have "created dir (take 27 nm) mode ?ino s s'" using cr by (simp add: created_def dir_add_take)
  moreover have g: "good_name (take 27 nm)" using assms(2,3) by (auto simp: good_name_def dest: in_set_takeD)
  moreover have "?ino \<noteq> 0" using inos.grab_zero_iff [OF assms(6)] assms(7) by auto
  ultimately have N: "entries_of dir s' = entries_of dir s @ [(take 27 nm, ?ino)]" "dir_node E dir s'"
    using created_entries [OF assms(1) _ assms(4,5)] by blast+
  have D: "dir_inv (cache s' (index_block (inodes s' dir)))" using N(2) by (simp add: dir_node_def Let_def)
  have "nm \<notin> fst ` set (entries_of dir s')"
    using dir_invD(2) [OF D] assms(2) by (fastforce simp: good_name_def)
  then have "ouichefs_lookup E dir nm s' = Inr (Inr None, s')"
    using lookup_absent [OF assms(13) D assms(3)] assms(2) by simp
  then show ?thesis using s' N(1) by blast
qed

theorem long_name_lost_witness:
  "\<exists>s' ino. ouichefs_create demo_env demo_owner 1 (replicate 28 97) 0x81A4 demo_root = Inr (0, s') \<and>
    entries_of 1 s' = [(replicate 27 97, ino)] \<and> ouichefs_lookup demo_env 1 (replicate 28 97) s' = Inr (Inr None, s')"
proof -
  have "S_ISDIR 0x81A4 \<or> S_ISREG 0x81A4" by (simp add: S_ISREG_def)
  from long_name_lost [OF demo_root_node(1) _ _ _ _ demo_root_pools(4) _ demo_root_pools(2) _
      this demo_owner_ok demo_env_ok(2,1), of "replicate 28 97"]
  show ?thesis unfolding demo_root_node(2) demo_root_pools(1,3) by (simp add: take_replicate)
qed

text \<open>C40.  Moving a file out of a full directory runs past the end of the directory block: the search for
  the entry in the old directory has no bound.\<close>

theorem rename_out_of_full_directory:
  assumes "dir_node E new_dir s" and "dir_node E old_dir s" and "flags AND 6 = 0" and "old_dir \<noteq> new_dir"
    and "index_block (inodes s new_dir) \<noteq> index_block (inodes s old_dir)"
    and "good_name new" and "good_name old" and "new \<notin> fst ` set (entries_of new_dir s)"
    and "length (entries_of new_dir s) < 128" and "length (entries_of old_dir s) = 128"
    and "src \<in> snd ` set (entries_of old_dir s)"
  shows "ouichefs_rename E old_dir old src new_dir new flags s = Inl OutOfBounds"
  using assms by (rule rename_full_old)

text \<open>A directory of \<open>n\<close> entries with one-byte names.\<close>

primrec dir_of_size :: "nat \<Rightarrow> block" where
  "dir_of_size 0 = (\<lambda>_. 0)"
| "dir_of_size (Suc n) = dir_add [of_nat (n + 1)] (of_nat (n + 10)) (dir_of_size n)"

lemma dir_of_size_entries:
  "n \<le> 128 \<Longrightarrow> dir_entries (dir_of_size n) = map (\<lambda>k. ([of_nat (k + 1)], of_nat (k + 10))) [0..<n] \<and>
     dir_inv (dir_of_size n)"
proof (induction n)
  case 0
  then show ?case by (simp add: zero_dir)
next
  case (Suc n)
  have u8: "(of_nat a :: u8) = of_nat b \<longleftrightarrow> a = b" if "a < 256" "b < 256" for a b
    using that by (simp add: word_unat_eq_iff unat_of_nat)
  have u32: "(of_nat a :: u32) = of_nat b \<longleftrightarrow> a = b" if "a < 256" "b < 256" for a b
    using that by (simp add: word_unat_eq_iff unat_of_nat)
  have IH: "dir_entries (dir_of_size n) = map (\<lambda>k. ([of_nat (k + 1)], of_nat (k + 10))) [0..<n]"
    "dir_inv (dir_of_size n)" using Suc by auto
  have "(of_nat (n + 1) :: u8) \<noteq> of_nat 0" "(of_nat (n + 10) :: u32) \<noteq> of_nat 0"
    using Suc.prems u8 [of "n + 1" 0] u32 [of "n + 10" 0] by auto
  moreover have "[of_nat (n + 1)] \<notin> fst ` set (dir_entries (dir_of_size n))"
  proof
    assume "[of_nat (n + 1)] \<in> fst ` set (dir_entries (dir_of_size n))"
    then obtain k where "k < n" "(of_nat (n + 1) :: u8) = of_nat (k + 1)" unfolding IH(1) by auto
    then show False using u8 [of "n + 1" "k + 1"] Suc.prems by simp
  qed
  moreover have "of_nat (n + 10) \<notin> snd ` set (dir_entries (dir_of_size n))"
  proof
    assume "of_nat (n + 10) \<in> snd ` set (dir_entries (dir_of_size n))"
    then obtain k where "k < n" "(of_nat (n + 10) :: u32) = of_nat (k + 10)" unfolding IH(1) by auto
    then show False using u32 [of "n + 10" "k + 10"] Suc.prems by simp
  qed
  ultimately show ?case
    using dir_add_spec [OF IH(2), of "[of_nat (n + 1)]" "of_nat (n + 10)"] Suc.prems IH(1)
    by (simp add: good_name_def)
qed

definition demo_full_dir :: fs where
  "demo_full_dir = demo_two\<lparr>cache := (\<lambda>_ _. 0)(4 := dir_of_size 128)\<rparr>"

lemma demo_full_dir_nodes:
  "dir_node demo_env 1 demo_full_dir" "dir_node demo_env 3 demo_full_dir"
  "length (entries_of 1 demo_full_dir) = 128" "entries_of 3 demo_full_dir = []"
  "10 \<in> snd ` set (entries_of 1 demo_full_dir)"
proof -
  have f: "sbi demo_full_dir = sbi demo_two" "inodes demo_full_dir = inodes demo_two"
    "cache demo_full_dir 4 = dir_of_size 128" "cache demo_full_dir 5 = (\<lambda>_. 0)" by (simp_all add: demo_full_dir_def)
  note es = dir_of_size_entries [of 128, simplified]
  have big: "unat (of_nat (k + 10) :: u32) = k + 10" if "k < 128" for k
    using that by (intro unat_of_nat_u32) simp
  have "snd e \<notin> free_inodes (sbi demo_two)" if "e \<in> set (dir_entries (dir_of_size 128))" for e
    using that big unfolding conjunct1 [OF es] by (auto simp: free_inodes_def free_bits_def demo_two_def demo_sb_def)
  then show "dir_node demo_env 1 demo_full_dir"
    using es by (auto simp: dir_node_def Let_def f demo_two_facts demo_env_ok)
  show "dir_node demo_env 3 demo_full_dir" "entries_of 3 demo_full_dir = []"
    by (simp_all add: dir_node_def Let_def f demo_two_facts zero_dir demo_env_ok)
  show "length (entries_of 1 demo_full_dir) = 128" "10 \<in> snd ` set (entries_of 1 demo_full_dir)"
    using es by (simp_all add: f demo_two_facts image_iff) (force intro: bexI [of _ 0])
qed

theorem rename_out_of_full_directory_witness:
  "ouichefs_rename demo_env 1 name_a 10 3 name_b 0 demo_full_dir = Inl OutOfBounds"
proof -
  have "index_block (inodes demo_full_dir 3) \<noteq> index_block (inodes demo_full_dir 1)"
    using demo_two_facts by (simp add: demo_full_dir_def)
  from rename_out_of_full_directory [OF demo_full_dir_nodes(2,1) _ _ this names_good(2,1) _ _ demo_full_dir_nodes(3,5), of 0]
  show ?thesis unfolding demo_full_dir_nodes(4) by simp
qed

end
