(* ===== verification/Ouiche_Persist.thy ===== *)
theory Ouiche_Persist
  imports Ouiche_Super Ouiche_Volumes
begin

text \<open>
  Persistence: what \<^verbatim>\<open>src/super.c\<close> writes is what a later mount reads.  An inode survives its
  write-back and reload, and the superblock, the counters and both pools survive a sync followed by a
  mount of the disk.
\<close>

lemma remounted_inode_pool:
  assumes "remounted sb sb'" and "unat (nr_inodes sb) \<le> 32768 * unat (nr_ifree_blocks sb)"
  shows "free_inodes sb' = free_inodes sb" and "0 < nr_ifree_blocks sb \<Longrightarrow> inode_pool k sb' = inode_pool k sb"
proof -
  have nb: "nr_inodes sb' = nr_inodes sb" "nr_free_inodes sb' = nr_free_inodes sb" using assms(1) by (auto simp: remounted_def)
  have tb: "test_bit (ifree_bitmap sb') k = test_bit (ifree_bitmap sb) k" if "k < 32768 * unat (nr_ifree_blocks sb)" for k
  proof -
    have "k div 64 < 512 * unat (nr_ifree_blocks sb)" using that by (simp add: div_less_iff_less_mult)
    then show ?thesis using assms(1) by (simp add: remounted_def test_bit_def)
  qed
  have fb: "free_bits (ifree_bitmap sb') (unat (nr_inodes sb)) = free_bits (ifree_bitmap sb) (unat (nr_inodes sb))"
    using tb assms(2) by (auto simp: free_bits_def)
  then show "free_inodes sb' = free_inodes sb" by (simp add: free_inodes_def nb)
  show "inode_pool k sb' = inode_pool k sb" if "0 < nr_ifree_blocks sb"
    using tb [of 0] that fb by (simp add: inode_pool_def bitmap_pool_def nb word_less_nat_alt)
qed

text \<open>C14.  Writing back an inode that fits the on-disk format stores it in its slot on disk and in no
  other slot; whoever later reads the block from disk and loads the inode gets the same inode.\<close>

theorem inode_writeback_roundtrip:
  assumes "ino < nr_inodes (sbi s)" and "bread_ok E (inode_block_of ino)" and "disk_fits (inodes s ino)" and "iget_ok E ino"
    and "sbi r = sbi s" and "ino \<notin> icached r"
    and "\<And>s'. ouichefs_write_inode E ino s = (0, s') \<Longrightarrow> cache r (inode_block_of ino) = disk s' (inode_block_of ino)"
  shows "\<exists>s' r'. ouichefs_write_inode E ino s = (0, s') \<and> ouichefs_iget E ino r = (Inr ino, r') \<and>
    inodes r' ino = inodes s ino \<and> ino \<in> icached r' \<and>
    (\<forall>j. j \<noteq> ino \<longrightarrow> get_disk_inode (cache s' (inode_block_of j)) (inode_off j) =
       get_disk_inode (cache s (inode_block_of j)) (inode_off j)) \<and>
    sbi s' = sbi s \<and> inodes s' = inodes s \<and> refs s' = refs s \<and> refs r' = refs r"
proof -
  obtain s' where s': "ouichefs_write_inode E ino s = (0, s')" "sbi s' = sbi s" "inodes s' = inodes s" "refs s' = refs s"
    using write_inode_state [OF assms(1,2)] by simp
  note W = write_inode_slots [OF assms(1,2) s'(1) assms(3)]
  have "ouichefs_iget E ino r = (Inr ino, r\<lparr>inodes := (inodes r)(ino := inodes s ino), icached := insert ino (icached r)\<rparr>)"
    using iget_loads [of ino r E] assms(1,2,4-6) assms(7) [OF s'(1)] W(1) by simp
  then show ?thesis using s' W(3) by auto
qed

theorem inode_writeback_roundtrip_witness:
  "\<exists>s' r'. ouichefs_write_inode demo_env 2 demo_small = (0, s') \<and>
    ouichefs_iget demo_env 2 (demo_small\<lparr>cache := disk s'\<rparr>) = (Inr 2, r') \<and> inodes r' 2 = inodes demo_small 2"
proof -
  let ?s = "snd (ouichefs_write_inode demo_env 2 demo_small)"
  have f: "2 < nr_inodes (sbi demo_small)" "bread_ok demo_env b" "iget_ok demo_env i" "2 \<notin> icached demo_small"
    "disk_fits (inodes demo_small 2)" for b i
    by (simp_all add: demo_small_def demo_sb_def demo_fs_def demo_env_def demo_inode_def disk_fits_def)
  show ?thesis
    using inode_writeback_roundtrip [OF f(1,2,5,3), of "demo_small\<lparr>cache := disk ?s\<rparr>"] f(4) by auto
qed

text \<open>C15.  After a sync that waits for the disk, mounting the disk succeeds and gives back the superblock:
  the counters, the head of the sliced-block chain, and both bitmaps, so that the same blocks and
  inodes are free, both pools are consistent again and \<^verbatim>\<open>statfs\<close> reports the same.\<close>

theorem sync_mount_roundtrip:
  assumes "layout_ok E (sbi s)" and "get32 (cache s 0) 0 = OUICHEFS_MAGIC" and "kmalloc_ok E = (\<lambda>_. True)"
    and "1 < nr_inodes (sbi s)" and "iget_ok E 1" and "bread_ok E (inode_block_of 1)"
    and "0 < nr_bfree_blocks (sbi s)" and "unat (nr_blocks (sbi s)) \<le> 32768 * unat (nr_bfree_blocks (sbi s))"
    and "0 < nr_ifree_blocks (sbi s)" and "unat (nr_inodes (sbi s)) \<le> 32768 * unat (nr_ifree_blocks (sbi s))"
    and "\<And>s'. ouichefs_sync_fs E True s = (0, s') \<Longrightarrow> cache r = disk s'"
  shows "\<exists>s' t. ouichefs_sync_fs E True s = (0, s') \<and> ouichefs_fill_super E n init True 0 r = Inr (0, t) \<and>
    remounted (sbi s) (sbi t) \<and> free_blocks (sbi t) = free_blocks (sbi s) \<and> free_inodes (sbi t) = free_inodes (sbi s) \<and>
    (block_pool (sbi s) \<longrightarrow> block_pool (sbi t)) \<and> (\<forall>k. inode_pool k (sbi s) \<longrightarrow> inode_pool k (sbi t)) \<and>
    ouichefs_statfs (sbi t) = ouichefs_statfs (sbi s) \<and>
    sbi s' = sbi s \<and> inodes s' = inodes s \<and> refs s' = refs s \<and> refs t = refs r"
proof -
  obtain s' where s': "ouichefs_sync_fs E True s = (0, s')" "synced s (disk s')" "sbi s' = sbi s" "inodes s' = inodes s"
      "refs s' = refs s"
    using sync_fs_synced [OF assms(1), of True] by auto
  then have "synced s (cache r)" using assms(11) by simp
  then obtain t where t: "ouichefs_fill_super E n init True 0 r = Inr (0, t)" "remounted (sbi s) (sbi t)" "refs t = refs r"
    using fill_super_remounted [of s r E n init] assms(1-6) by blast
  have "ouichefs_statfs (sbi t) = ouichefs_statfs (sbi s)" using t(2) by (simp add: ouichefs_statfs_def remounted_def)
  then show ?thesis
    using s' t remounted_pool [OF t(2) assms(8)] remounted_inode_pool [OF t(2) assms(10)] assms(7,9) by auto
qed

definition demo_disk :: fs where
  "demo_disk = demo_small\<lparr>cache := (cache demo_small)(0 := put32 OUICHEFS_MAGIC 0 (\<lambda>_. 0))\<rparr>"

theorem sync_mount_roundtrip_witness:
  "\<exists>s' t. ouichefs_sync_fs demo_env True demo_disk = (0, s') \<and>
    ouichefs_fill_super demo_env 100 (\<lambda>nd. nd) True 0 (demo_disk\<lparr>cache := disk s'\<rparr>) = Inr (0, t) \<and>
    free_blocks (sbi t) = {5, 6, 7} \<and> s_free_sliced_blocks (sbi t) = 4"
proof -
  let ?s = "snd (ouichefs_sync_fs demo_env True demo_disk)"
  have e: "bread_ok demo_env b" "iget_ok demo_env i" "kmalloc_ok demo_env = (\<lambda>_. True)" for b i
    by (simp_all add: demo_env_def)
  have f: "layout_ok demo_env (sbi demo_disk)" "get32 (cache demo_disk 0) 0 = OUICHEFS_MAGIC"
    "1 < nr_inodes (sbi demo_disk)" "0 < nr_bfree_blocks (sbi demo_disk)"
    "unat (nr_blocks (sbi demo_disk)) \<le> 32768 * unat (nr_bfree_blocks (sbi demo_disk))"
    "0 < nr_ifree_blocks (sbi demo_disk)"
    "unat (nr_inodes (sbi demo_disk)) \<le> 32768 * unat (nr_ifree_blocks (sbi demo_disk))"
    by (simp_all add: demo_disk_def demo_small_def demo_sb_def layout_ok_def e block_simps)
  have "free_blocks (sbi demo_disk) = {5, 6, 7}" "s_free_sliced_blocks (sbi demo_disk) = 4"
    using demo_free_blocks(2) by (simp_all add: demo_disk_def) (simp add: demo_small_def)
  then show ?thesis
    using sync_mount_roundtrip [OF f(1,2) e(3) f(3) e(2,1) f(4-7), of "demo_disk\<lparr>cache := disk ?s\<rparr>" 100 "\<lambda>nd. nd"]
    by (auto simp: remounted_def)
qed

end
