(* ===== verification/Ouiche_Mkfs.thy ===== *)
theory Ouiche_Mkfs
  imports Ouiche_DirOps Ouiche_Persist
begin

text \<open>
  The formatter, \<^verbatim>\<open>src/mkfs/mkfs-ouichefs.c\<close>, and what a mount finds on a fresh image: the block pool
  is consistent, the inode counter is one ahead of the bitmap, the root directory is empty, there is
  no sliced block.

  The file descriptor is a sequence of blocks: every \<^verbatim>\<open>write\<close> of the program writes one block at the
  position the previous one left, so the image is the list of blocks written so far.  Which
  allocations and which writes succeed is a parameter; a short write counts as a failure, as in the
  code.
\<close>

section \<open>The program\<close>

record mkfs_env =
  malloc_ok :: "nat \<Rightarrow> bool"
  write_ok :: "nat \<Rightarrow> bool"

type_synonym image = "block list"

definition fd_write :: "mkfs_env \<Rightarrow> block \<Rightarrow> image \<Rightarrow> image option" where
  "fd_write M d im = (if write_ok M (length im) then Some (im @ [d]) else None)"

definition idiv_ceil :: "u32 \<Rightarrow> u32 \<Rightarrow> u32" where
  "idiv_ceil a b = (let ret = a div b in if a mod b \<noteq> 0 then ret + 1 else ret)"

text \<open>The numbers \<^verbatim>\<open>write_superblock\<close> computes; the bitmaps are not part of the superblock.\<close>

definition mkfs_sb :: "u64 \<Rightarrow> sb_info" where
  "mkfs_sb partition_size =
     (let nr_blocks = ucast (partition_size div 4096) :: u32;
          nr_inodes = nr_blocks;
          r = nr_inodes mod 51;
          nr_inodes = (if r \<noteq> 0 then nr_inodes + r else nr_inodes);
          nr_istore_blocks = idiv_ceil nr_inodes 51;
          nr_ifree_blocks = idiv_ceil nr_inodes 32768;
          nr_bfree_blocks = idiv_ceil nr_blocks 32768;
          nr_data_blocks = nr_blocks - 1 - nr_istore_blocks - nr_ifree_blocks - nr_bfree_blocks
      in \<lparr>magic = OUICHEFS_MAGIC, nr_blocks = nr_blocks, nr_inodes = nr_inodes, nr_istore_blocks = nr_istore_blocks,
          nr_ifree_blocks = nr_ifree_blocks, nr_bfree_blocks = nr_bfree_blocks, nr_sliced_blocks = 0,
          nr_free_inodes = nr_inodes - 1, nr_free_blocks = nr_data_blocks - 1, nr_used_slices = 0,
          s_free_sliced_blocks = 0, ifree_bitmap = \<lambda>_. 0, bfree_bitmap = \<lambda>_. 0\<rparr>)"

text \<open>The stores into the zeroed superblock, of the size of a block.\<close>

definition sb_image :: "sb_info \<Rightarrow> block" where
  "sb_image sb =
     (let d = put32 (magic sb) 0 (\<lambda>_. 0);
          d = put32 (nr_blocks sb) 4 d;
          d = put32 (nr_inodes sb) 8 d;
          d = put32 (nr_istore_blocks sb) 12 d;
          d = put32 (nr_ifree_blocks sb) 16 d;
          d = put32 (nr_bfree_blocks sb) 20 d;
          d = put32 (nr_sliced_blocks sb) 24 d;
          d = put32 (nr_free_inodes sb) 28 d;
          d = put32 (nr_free_blocks sb) 32 d;
          d = put32 (nr_used_slices sb) 36 d
      in put32 (s_free_sliced_blocks sb) 40 d)"

definition write_superblock :: "mkfs_env \<Rightarrow> u64 \<Rightarrow> image \<Rightarrow> sb_info option \<times> image" where
  "write_superblock M partition_size im =
     (if \<not> malloc_ok M 0 then (None, im)
      else
        let sb = mkfs_sb partition_size in
        case fd_write M (sb_image sb) im of
          None \<Rightarrow> (None, im)
        | Some im \<Rightarrow> (Some sb, im))"

text \<open>The loops that write one block again and again.\<close>

primrec write_many :: "mkfs_env \<Rightarrow> block \<Rightarrow> nat \<Rightarrow> image \<Rightarrow> int \<times> image" where
  "write_many M d 0 im = (0, im)"
| "write_many M d (Suc n) im =
     (case fd_write M d im of
        None \<Rightarrow> (-1, im)
      | Some im \<Rightarrow> write_many M d n im)"

text \<open>The root inode, number 1, in the second slot of the first block of the inode store.\<close>

definition root_inode_image :: "sb_info \<Rightarrow> block" where
  "root_inode_image sb =
     (let first_data_block = 1 + nr_bfree_blocks sb + nr_ifree_blocks sb + nr_istore_blocks sb;
          off = OUICHEFS_INODE_SIZE;
          d = put32 0x41FD off (\<lambda>_. 0);
          d = put32 0 (off + 4) d;
          d = put32 0 (off + 8) d;
          d = put32 4096 (off + 12) d;
          d = put32 0 (off + 48) d;
          d = put32 0 (off + 32) d;
          d = put32 0 (off + 16) d;
          d = put64 0 (off + 56) d;
          d = put64 0 (off + 40) d;
          d = put64 0 (off + 24) d;
          d = put32 1 (off + 64) d;
          d = put32 2 (off + 68) d;
          d = put32 first_data_block (off + 72) d
      in put16 0 (off + 76) d)"

definition write_inode_store :: "mkfs_env \<Rightarrow> sb_info \<Rightarrow> image \<Rightarrow> int \<times> image" where
  "write_inode_store M sb im =
     (if \<not> malloc_ok M 1 then (-1, im)
      else case fd_write M (root_inode_image sb) im of
        None \<Rightarrow> (-1, im)
      | Some im \<Rightarrow> write_many M (\<lambda>_. 0) (unat (nr_istore_blocks sb) - 1) im)"

definition ones_block :: block where
  "ones_block = memset (\<lambda>_. 0) 0 0xFF OUICHEFS_BLOCK_SIZE"

definition write_ifree_blocks :: "mkfs_env \<Rightarrow> sb_info \<Rightarrow> image \<Rightarrow> int \<times> image" where
  "write_ifree_blocks M sb im =
     (if \<not> malloc_ok M 2 then (-1, im)
      else case fd_write M (put64 0xFFFFFFFFFFFFFFFC 0 ones_block) im of
        None \<Rightarrow> (-1, im)
      | Some im \<Rightarrow> write_many M ones_block (unat (nr_ifree_blocks sb) - 1) im)"

text \<open>The inner loop of \<^verbatim>\<open>write_bfree_blocks\<close> over the 64 masks of a long.\<close>

primrec used_line :: "nat \<Rightarrow> u64 \<Rightarrow> u64 \<Rightarrow> nat \<Rightarrow> u64 \<times> nat" where
  "used_line 0 mk line nr_used = (line, nr_used)"
| "used_line (Suc k) mk line nr_used =
     (let line = line AND NOT mk; nr_used = nr_used - 1 in
      if nr_used = 0 then (line, nr_used) else used_line k (push_bit 1 mk) line nr_used)"

lemma used_line_less: "0 < n \<Longrightarrow> snd (used_line (Suc k) mk line n) < n"
proof (induction k arbitrary: mk line n)
  case (Suc k)
  show ?case
  proof (cases "n - 1 = 0")
    case False
    then have "snd (used_line (Suc k) (push_bit 1 mk) (line AND NOT mk) (n - 1)) < n - 1" by (intro Suc.IH) simp
    then show ?thesis using False by (subst used_line.simps) (simp add: Let_def del: used_line.simps)
  qed (use Suc.prems in simp)
qed (simp add: Let_def)

text \<open>The outer loop has no bound: past the 512th long it leaves the block.\<close>

function fill_used :: "nat \<Rightarrow> nat \<Rightarrow> block \<Rightarrow> block res" where
  "fill_used nr_used i d =
     (if nr_used = 0 then Inr d
      else if i \<ge> 512 then Inl OutOfBounds
      else
        let r = used_line 64 1 0xFFFFFFFFFFFFFFFF nr_used
        in fill_used (snd r) (i + 1) (put64 (fst r) (8 * i) d))"
  by pat_completeness auto
termination
proof (relation "measure fst", goal_cases)
  case (2 nr_used i d r)
  then show ?case using used_line_less [of nr_used 63] by simp
qed simp

declare fill_used.simps [simp del]

definition write_bfree_blocks :: "mkfs_env \<Rightarrow> sb_info \<Rightarrow> image \<Rightarrow> (int \<times> image) res" where
  "write_bfree_blocks M sb im =
     (let nr_used = nr_istore_blocks sb + nr_ifree_blocks sb + nr_bfree_blocks sb + 2 in
      if \<not> malloc_ok M 3 then Inr (-1, im)
      else case fill_used (unat nr_used) 0 ones_block of
        Inl f \<Rightarrow> Inl f
      | Inr d \<Rightarrow>
          (case fd_write M d im of
             None \<Rightarrow> Inr (-1, im)
           | Some im \<Rightarrow> Inr (write_many M ones_block (unat (nr_bfree_blocks sb) - 1) im)))"

definition write_root_index_block :: "mkfs_env \<Rightarrow> sb_info \<Rightarrow> image \<Rightarrow> int \<times> image" where
  "write_root_index_block M sb im =
     (if \<not> malloc_ok M 4 then (-1, im)
      else case fd_write M (\<lambda>_. 0) im of
        None \<Rightarrow> (-1, im)
      | Some im \<Rightarrow> (0, im))"

definition write_data_blocks :: "mkfs_env \<Rightarrow> sb_info \<Rightarrow> image \<Rightarrow> int \<times> image" where
  "write_data_blocks M sb im = (0, im)"

text \<open>How \<^verbatim>\<open>main\<close> finds the size of the disk: the arguments are right, the file can be opened and
  \<^verbatim>\<open>fstat\<close>ed, a block device answers the size ioctl, a regular file has a size.\<close>

record mkfs_args =
  args_ok :: bool
  open_ok :: bool
  fstat_ok :: bool
  is_blk :: bool
  blkdev_size :: "u64 option"
  st_size :: u64

definition get_blockdev_size :: "mkfs_args \<Rightarrow> int \<times> u64" where
  "get_blockdev_size A = (case blkdev_size A of None \<Rightarrow> (-1, 0) | Some n \<Rightarrow> (0, n))"

definition mkfs_format :: "mkfs_env \<Rightarrow> u64 \<Rightarrow> (int \<times> image) res" where
  "mkfs_format M partition_size =
     (if partition_size < 409600 then Inr (1, [])
      else case write_superblock M partition_size [] of
        (None, im) \<Rightarrow> Inr (1, im)
      | (Some sb, im) \<Rightarrow>
          (case write_inode_store M sb im of (ret, im) \<Rightarrow>
             if ret \<noteq> 0 then Inr (1, im)
             else case write_ifree_blocks M sb im of (ret, im) \<Rightarrow>
               if ret \<noteq> 0 then Inr (1, im)
               else case write_bfree_blocks M sb im of
                 Inl f \<Rightarrow> Inl f
               | Inr (ret, im) \<Rightarrow>
                   if ret \<noteq> 0 then Inr (1, im)
                   else case write_root_index_block M sb im of (ret, im) \<Rightarrow>
                     if ret \<noteq> 0 then Inr (1, im)
                     else case write_data_blocks M sb im of (ret, im) \<Rightarrow>
                       if ret \<noteq> 0 then Inr (1, im) else Inr (0, im)))"

definition mkfs_main :: "mkfs_env \<Rightarrow> mkfs_args \<Rightarrow> (int \<times> image) res" where
  "mkfs_main M A =
     (if \<not> args_ok A then Inr (1, [])
      else if \<not> open_ok A then Inr (1, [])
      else if \<not> fstat_ok A then Inr (1, [])
      else if is_blk A then
        (case get_blockdev_size A of (ret, n) \<Rightarrow> if ret \<noteq> 0 then Inr (1, []) else mkfs_format M n)
      else mkfs_format M (st_size A))"

section \<open>The bitmap of used blocks\<close>

text \<open>The bitmap in which exactly the objects from \<open>n\<close> on are free.\<close>

definition fresh_bitmap :: "nat \<Rightarrow> bitmap" where
  "fresh_bitmap n j = NOT (Bit_Operations.mask (n - 64 * j))"

lemma test_bit_fresh: "test_bit (fresh_bitmap n) k \<longleftrightarrow> n \<le> k"
proof -
  have "k mod 64 < n - 64 * (k div 64) \<longleftrightarrow> k < n"
    using div_mult_mod_eq [of k 64] by linarith
  then show ?thesis
    by (auto simp: test_bit_def fresh_bitmap_def bit_not_iff bit_mask_iff)
qed

lemma free_bits_fresh: "free_bits (fresh_bitmap n) sz = {n..<sz}"
  by (auto simp: free_bits_def test_bit_fresh)

lemma used_line_spec:
  assumes "0 < n" "j + k \<le> 64" "0 < k"
  shows "used_line k (push_bit j 1) (NOT (Bit_Operations.mask j)) n =
    (NOT (Bit_Operations.mask (j + min k n)), n - k)"
  using assms
proof (induction k arbitrary: j n)
  case (Suc k)
  have step: "NOT (Bit_Operations.mask j) AND NOT (push_bit j 1) = (NOT (Bit_Operations.mask (Suc j)) :: u64)"
    by (rule bit_eqI) (auto simp: bit_and_iff bit_not_iff bit_mask_iff bit_exp_iff less_Suc_eq)
  show ?case
  proof (cases "n = 1 \<or> k = 0")
    case True
    then show ?thesis using Suc.prems step by (cases "n = 1") (auto simp: Let_def)
  next
    case False
    have eq: "j + min (Suc k) n = Suc j + min k (n - 1)" "n - Suc k = n - 1 - k" using False Suc.prems by auto
    have pb: "push_bit 1 (push_bit j 1) = (push_bit (Suc j) 1 :: u64)" by simp
    have "used_line (Suc k) (push_bit j 1) (NOT (Bit_Operations.mask j)) n =
        used_line k (push_bit (Suc j) 1) (NOT (Bit_Operations.mask (Suc j))) (n - 1)"
      using False Suc.prems by (simp only: used_line.simps Let_def step pb) simp
    also have "\<dots> = (NOT (Bit_Operations.mask (Suc j + min k (n - 1))), n - 1 - k)"
      using False Suc.prems by (intro Suc.IH) auto
    finally show ?thesis by (simp only: eq)
  qed
qed simp

lemma used_line_64:
  assumes "0 < n"
  shows "used_line 64 1 0xFFFFFFFFFFFFFFFF n = (fresh_bitmap n 0, n - 64)"
proof -
  have m: "(Bit_Operations.mask (min 64 n) :: u64) = Bit_Operations.mask n"
    by (rule bit_eqI) (auto simp: bit_mask_iff)
  have ones: "(0xFFFFFFFFFFFFFFFF :: u64) = NOT (Bit_Operations.mask 0)" by simp
  show ?thesis
    unfolding ones using used_line_spec [of n 0 64] assms m by (simp add: fresh_bitmap_def)
qed

lemma fill_used_spec:
  assumes "n \<le> 64 * (512 - i)" "i \<le> 512"
  shows "\<exists>d'. fill_used n i d = Inr d' \<and>
    (\<forall>l. get64 d' (8 * l) = (if i \<le> l \<and> 64 * (l - i) < n then fresh_bitmap n (l - i) else get64 d (8 * l)))"
  using assms
proof (induction n i d rule: fill_used.induct)
  case (1 n i d)
  show ?case
  proof (cases "n = 0")
    case True
    then show ?thesis by (simp add: fill_used.simps)
  next
    case False
    let ?d = "put64 (fresh_bitmap n 0) (8 * i) d"
    have i: "\<not> 512 \<le> i" and n0: "0 < n" using "1.prems" False by auto
    have le: "n - 64 \<le> 64 * (512 - (i + 1))" "i + 1 \<le> 512" using "1.prems" i by linarith+
    have st: "fill_used n i d = fill_used (n - 64) (i + 1) ?d"
      using False i by (subst fill_used.simps) (simp add: Let_def used_line_64)
    obtain d' where d': "fill_used (n - 64) (i + 1) ?d = Inr d'"
        "\<And>l. get64 d' (8 * l) = (if i + 1 \<le> l \<and> 64 * (l - (i + 1)) < n - 64
           then fresh_bitmap (n - 64) (l - (i + 1)) else get64 ?d (8 * l))"
      using "1.IH" [OF False i refl, unfolded used_line_64 [OF n0] fst_conv snd_conv, OF le] by auto
    have "get64 d' (8 * l) = (if i \<le> l \<and> 64 * (l - i) < n then fresh_bitmap n (l - i) else get64 d (8 * l))" for l
    proof (cases "l = i")
      case True
      then show ?thesis using False by (simp add: d'(2) block_simps)
    next
      case ne: False
      have o: "get64 ?d (8 * l) = get64 d (8 * l)"
        using ne by (intro get_put_le_disjoint) (cases "l < i"; simp)
      show ?thesis
      proof (cases "i < l")
        case True
        have "n - 64 - 64 * (l - (i + 1)) = n - 64 * (l - i)" using True by (simp add: algebra_simps diff_mult_distrib2)
        then have "fresh_bitmap (n - 64) (l - (i + 1)) = fresh_bitmap n (l - i)" by (simp only: fresh_bitmap_def)
        moreover have "64 * (l - (i + 1)) < n - 64 \<longleftrightarrow> 64 * (l - i) < n" "i + 1 \<le> l" "i \<le> l" using True by linarith+
        ultimately show ?thesis by (simp only: d'(2) o simp_thms)
      qed (use ne o in \<open>simp add: d'(2)\<close>)
    qed
    then show ?thesis using st d'(1) by auto
  qed
qed

lemma fill_used_overflow: "64 * (512 - i) < n \<Longrightarrow> fill_used n i d = Inl OutOfBounds"
proof (induction n i d rule: fill_used.induct)
  case (1 n i d)
  show ?case
  proof (cases "512 \<le> i")
    case True
    then show ?thesis using "1.prems" by (subst fill_used.simps) simp
  next
    case False
    then have n0: "n \<noteq> 0" "0 < n" using "1.prems" by auto
    show ?thesis
      using "1.IH" [OF n0(1) False refl, unfolded used_line_64 [OF n0(2)] fst_conv snd_conv] "1.prems" False n0
      by (subst fill_used.simps) (simp add: Let_def used_line_64)
  qed
qed

section \<open>The numbers of a fresh image\<close>

lemma unat_idiv_ceil:
  assumes "unat a + unat b < 2 ^ 32" "2 \<le> unat b"
  shows "unat (idiv_ceil a b) = div_round_up (unat a) (unat b)"
proof -
  let ?a = "unat a" and ?b = "unat b"
  have d: "div_round_up ?a ?b = (if ?a mod ?b = 0 then ?a div ?b else ?a div ?b + 1)"
  proof -
    have "?a + ?b - 1 = (?a div ?b) * ?b + (?a mod ?b + ?b - 1)"
      using div_mult_mod_eq [of ?a ?b] assms(2) by linarith
    then have "div_round_up ?a ?b = ((?a div ?b) * ?b + (?a mod ?b + ?b - 1)) div ?b"
      by (simp only: div_round_up_def)
    also have "\<dots> = ?a div ?b + (?a mod ?b + ?b - 1) div ?b"
      by (rule div_mult_self3) (use assms(2) in simp)
    finally have "div_round_up ?a ?b = ?a div ?b + (?a mod ?b + ?b - 1) div ?b" .
    moreover have "(?a mod ?b + ?b - 1) div ?b = (if ?a mod ?b = 0 then 0 else 1)"
    proof -
      have "(q + ?b - 1) div ?b = (if q = 0 then 0 else 1)" if "q < ?b" for q
        using that assms(2) by (auto intro!: div_nat_eqI)
      then show ?thesis using assms(2) by simp
    qed
    ultimately show ?thesis by auto
  qed
  have z: "a mod b = 0 \<longleftrightarrow> ?a mod ?b = 0" by (simp add: word_unat_eq_iff unat_mod_distrib)
  have "?a div ?b + 1 < 2 ^ 32" using assms div_le_dividend [of ?a ?b] by linarith
  then have "unat (a div b + 1) = ?a div ?b + 1"
    using assms by (simp add: unat_word_ariths unat_div_distrib)
  then show ?thesis unfolding d idiv_ceil_def Let_def using z by (simp add: unat_div_distrib)
qed

text \<open>The number of blocks of the disk, of inodes, and of blocks in use on a fresh image.\<close>

abbreviation (input) disk_blocks :: "u64 \<Rightarrow> nat" where "disk_blocks n \<equiv> unat n div 4096"

definition disk_inodes :: "u64 \<Rightarrow> nat" where
  "disk_inodes n = disk_blocks n + disk_blocks n mod 51"

definition used_blocks :: "u64 \<Rightarrow> nat" where
  "used_blocks n = div_round_up (disk_inodes n) 51 + div_round_up (disk_inodes n) 32768 +
     div_round_up (disk_blocks n) 32768 + 2"

lemma mkfs_sb_numbers:
  assumes "disk_blocks n < 2 ^ 31"
  shows "unat (nr_blocks (mkfs_sb n)) = disk_blocks n"
    and "unat (nr_inodes (mkfs_sb n)) = disk_inodes n"
    and "unat (nr_istore_blocks (mkfs_sb n)) = div_round_up (disk_inodes n) 51"
    and "unat (nr_ifree_blocks (mkfs_sb n)) = div_round_up (disk_inodes n) 32768"
    and "unat (nr_bfree_blocks (mkfs_sb n)) = div_round_up (disk_blocks n) 32768"
    and "magic (mkfs_sb n) = OUICHEFS_MAGIC" and "nr_sliced_blocks (mkfs_sb n) = 0"
    and "nr_used_slices (mkfs_sb n) = 0" and "s_free_sliced_blocks (mkfs_sb n) = 0"
    and "nr_free_inodes (mkfs_sb n) = nr_inodes (mkfs_sb n) - 1"
    and "nr_free_blocks (mkfs_sb n) = nr_blocks (mkfs_sb n) - (nr_istore_blocks (mkfs_sb n) + nr_ifree_blocks (mkfs_sb n) +
      nr_bfree_blocks (mkfs_sb n) + 2)"
proof -
  let ?nb = "ucast (n div 4096) :: u32"
  have nb: "unat ?nb = disk_blocks n"
    using assms by (simp add: unsigned_ucast_eq unat_div_distrib take_bit_nat_eq_self_iff)
  let ?ni = "if ?nb mod 51 \<noteq> 0 then ?nb + ?nb mod 51 else ?nb"
  have "disk_blocks n mod 51 < 51" by simp
  then have "unat (?nb + ?nb mod 51) = disk_inodes n"
    using assms nb by (simp add: unat_word_ariths unat_mod_distrib disk_inodes_def)
  moreover have "?nb mod 51 = 0 \<longleftrightarrow> disk_blocks n mod 51 = 0"
    using nb by (simp add: word_unat_eq_iff unat_mod_distrib)
  ultimately have ni: "unat ?ni = disk_inodes n" using nb by (simp add: disk_inodes_def)
  have lt: "disk_inodes n < 2 ^ 31 + 51" using assms \<open>disk_blocks n mod 51 < 51\<close> by (simp add: disk_inodes_def)
  have ce: "unat (idiv_ceil ?ni 51) = div_round_up (disk_inodes n) 51"
    "unat (idiv_ceil ?ni 32768) = div_round_up (disk_inodes n) 32768"
    "unat (idiv_ceil ?nb 32768) = div_round_up (disk_blocks n) 32768"
    using unat_idiv_ceil [of ?ni 51] unat_idiv_ceil [of ?ni 32768] unat_idiv_ceil [of ?nb 32768] nb ni lt assms
    by (simp_all del: if_split)
  show "unat (nr_blocks (mkfs_sb n)) = disk_blocks n" "unat (nr_inodes (mkfs_sb n)) = disk_inodes n"
    "unat (nr_istore_blocks (mkfs_sb n)) = div_round_up (disk_inodes n) 51"
    "unat (nr_ifree_blocks (mkfs_sb n)) = div_round_up (disk_inodes n) 32768"
    "unat (nr_bfree_blocks (mkfs_sb n)) = div_round_up (disk_blocks n) 32768"
    using nb ni ce by (simp_all add: mkfs_sb_def Let_def del: if_split)
qed (simp_all add: mkfs_sb_def Let_def algebra_simps)

lemma used_blocks_bounds:
  assumes "100 \<le> disk_blocks n" "disk_blocks n \<le> 1600000"
  shows "0 < div_round_up (disk_inodes n) 51" "0 < div_round_up (disk_inodes n) 32768"
    "0 < div_round_up (disk_blocks n) 32768" "div_round_up (disk_inodes n) 32768 \<le> 49"
    "div_round_up (disk_blocks n) 32768 \<le> 49" "used_blocks n \<le> 32768" "used_blocks n < disk_blocks n"
    "2 \<le> disk_inodes n" "disk_inodes n \<le> 1600050"
proof -
  let ?N = "disk_blocks n"
  have i: "?N \<le> disk_inodes n" "disk_inodes n \<le> ?N + 50"
    using mod_less_divisor [of 51 ?N] by (simp_all add: disk_inodes_def)
  show "2 \<le> disk_inodes n" "disk_inodes n \<le> 1600050" using i assms by linarith+
  then show "0 < div_round_up (disk_inodes n) 51" "0 < div_round_up (disk_inodes n) 32768"
    "0 < div_round_up ?N 32768" using assms(1) by (simp_all add: div_round_up_pos)
  show c: "div_round_up (disk_inodes n) 32768 \<le> 49" "div_round_up ?N 32768 \<le> 49"
    using i assms(2) by (simp_all add: div_round_up_le_iff)
  define q p where "q = ?N div 51" and "p = ?N div 32768"
  have q: "51 * q \<le> ?N" "?N < 51 * q + 51" "32768 * p \<le> ?N" "?N < 32768 * p + 32768"
    by (simp_all add: q_def p_def)
  have "div_round_up (disk_inodes n) 51 \<le> q + 2" "div_round_up (disk_inodes n) 32768 \<le> p + 2"
    "div_round_up ?N 32768 \<le> p + 1"
    using i q by (simp_all add: div_round_up_le_iff)
  then show "used_blocks n < ?N" "used_blocks n \<le> 32768"
    using q c assms unfolding used_blocks_def by linarith+
qed

section \<open>The image\<close>

lemma get_ones_block: "l < 512 \<Longrightarrow> get64 ones_block (8 * l) = - 1"
proof (rule bit_eqI)
  fix k assume l: "l < 512" and k: "possible_bit TYPE(u64) k"
  have m: "(0xFF :: u8) = - 1" by simp
  have "8 * l + k div 8 < 4096" using l k by (simp add: div_less_iff_less_mult)
  then show "bit (get64 ones_block (8 * l)) k \<longleftrightarrow> bit (- 1 :: u64) k"
    using k unfolding bit_get_le ones_block_def memset_def m by simp
qed

definition good_env :: "mkfs_env \<Rightarrow> bool" where
  "good_env M \<longleftrightarrow> malloc_ok M = (\<lambda>_. True) \<and> write_ok M = (\<lambda>_. True)"

lemma fd_write_good: "good_env M \<Longrightarrow> fd_write M d im = Some (im @ [d])"
  by (simp add: good_env_def fd_write_def)

lemma write_many_good: "good_env M \<Longrightarrow> write_many M d n im = (0, im @ replicate n d)"
  by (induction n arbitrary: im) (simp_all add: fd_write_good)

text \<open>The image with the first bitmap block \<open>d\<close>, region by region.\<close>

definition store_image :: "sb_info \<Rightarrow> image" where
  "store_image sb = root_inode_image sb # replicate (unat (nr_istore_blocks sb) - 1) (\<lambda>_. 0)"

definition ifree_image :: "sb_info \<Rightarrow> image" where
  "ifree_image sb = put64 0xFFFFFFFFFFFFFFFC 0 ones_block # replicate (unat (nr_ifree_blocks sb) - 1) ones_block"

definition bfree_image :: "sb_info \<Rightarrow> block \<Rightarrow> image" where
  "bfree_image sb d = d # replicate (unat (nr_bfree_blocks sb) - 1) ones_block"

lemma mkfs_format_image:
  assumes "good_env M" "100 \<le> disk_blocks n" "disk_blocks n \<le> 1600000"
  shows "\<exists>d. mkfs_format M n =
      Inr (0, [sb_image (mkfs_sb n)] @ store_image (mkfs_sb n) @ ifree_image (mkfs_sb n) @ bfree_image (mkfs_sb n) d @ [\<lambda>_. 0]) \<and>
    (\<forall>l < 512. get64 d (8 * l) = fresh_bitmap (used_blocks n) l)"
proof -
  let ?sb = "mkfs_sb n"
  have lt: "disk_blocks n < 2 ^ 31" using assms(3) by simp
  note U = used_blocks_bounds [OF assms(2,3)] and S = mkfs_sb_numbers [OF lt]
  have big: "\<not> n < 409600" using assms(2) by (simp add: word_less_nat_alt less_eq_div_iff_mult_less_eq)
  have u: "unat (nr_istore_blocks ?sb + nr_ifree_blocks ?sb + nr_bfree_blocks ?sb + 2) = used_blocks n"
    using U(6) by (simp add: unat_word_ariths S used_blocks_def)
  obtain d where d: "fill_used (used_blocks n) 0 ones_block = Inr d"
      "\<And>l. get64 d (8 * l) = (if 64 * l < used_blocks n then fresh_bitmap (used_blocks n) l else get64 ones_block (8 * l))"
    using fill_used_spec [of "used_blocks n" 0 ones_block] U(6) by auto
  have "get64 ones_block (8 * l) = fresh_bitmap (used_blocks n) l" if "l < 512" "\<not> 64 * l < used_blocks n" for l
  proof -
    have "fresh_bitmap (used_blocks n) l = - 1" using that(2) by (simp add: fresh_bitmap_def)
    then show ?thesis using get_ones_block [OF that(1)] by simp
  qed
  then have "\<forall>l < 512. get64 d (8 * l) = fresh_bitmap (used_blocks n) l" using d(2) by auto
  moreover have "mkfs_format M n =
      Inr (0, [sb_image ?sb] @ store_image ?sb @ ifree_image ?sb @ bfree_image ?sb d @ [\<lambda>_. 0])"
    using assms(1) big d(1)
    by (simp add: mkfs_format_def write_superblock_def write_inode_store_def write_ifree_blocks_def write_bfree_blocks_def
        write_root_index_block_def write_data_blocks_def fd_write_good write_many_good u store_image_def ifree_image_def
        bfree_image_def good_env_def Let_def)
  ultimately show ?thesis by blast
qed

text \<open>On a disk of more than about 6.4 GiB the used blocks do not fit the first bitmap block, and the
  formatter writes past its buffer.\<close>

lemma mkfs_format_overflow:
  assumes "good_env M" "1700000 \<le> disk_blocks n" "disk_blocks n < 2 ^ 31"
  shows "mkfs_format M n = Inl OutOfBounds"
proof -
  let ?sb = "mkfs_sb n"
  note S = mkfs_sb_numbers [OF assms(3)]
  have i: "disk_blocks n \<le> disk_inodes n" "disk_inodes n \<le> disk_blocks n + 50"
    using mod_less_divisor [of 51 "disk_blocks n"] by (simp_all add: disk_inodes_def)
  have "\<not> div_round_up (disk_inodes n) 51 \<le> 33000" using i assms(2) by (simp add: div_round_up_le_iff)
  moreover have "div_round_up (disk_inodes n) 51 \<le> 2 ^ 27" "div_round_up (disk_inodes n) 32768 \<le> 2 ^ 27"
    "div_round_up (disk_blocks n) 32768 \<le> 2 ^ 27"
    using i assms(3) by (simp_all add: div_round_up_le_iff)
  ultimately have "32768 < unat (nr_istore_blocks ?sb + nr_ifree_blocks ?sb + nr_bfree_blocks ?sb + 2)"
    by (simp add: unat_word_ariths S)
  then have f: "fill_used (unat (nr_istore_blocks ?sb + nr_ifree_blocks ?sb + nr_bfree_blocks ?sb + 2)) 0 ones_block = Inl OutOfBounds"
    by (intro fill_used_overflow) simp
  have big: "\<not> n < 409600" using assms(2) by (simp add: word_less_nat_alt less_eq_div_iff_mult_less_eq)
  show ?thesis
    using assms(1) big f
    by (simp add: mkfs_format_def write_superblock_def write_inode_store_def write_ifree_blocks_def write_bfree_blocks_def
        fd_write_good write_many_good good_env_def Let_def)
qed

section \<open>Mounting a fresh image\<close>

text \<open>The disk after formatting: the blocks written, and behind them what was there before.\<close>

definition image_disk :: "image \<Rightarrow> (u32 \<Rightarrow> block) \<Rightarrow> u32 \<Rightarrow> block" where
  "image_disk im old b = (if unat b < length im then im ! unat b else old b)"

lemma unat_bitmap_block: "unat base + k + 1 < 2 ^ 32 \<Longrightarrow> unat (bitmap_block base k) = unat base + k + 1"
proof -
  assume a: "unat base + k + 1 < 2 ^ 32"
  have "bitmap_block base k = of_nat (unat base + k + 1)" by (simp add: bitmap_block_def)
  then show ?thesis using a by (simp only: unat_of_nat_u32)
qed

lemma fresh_bitmap_later: "n \<le> 64 * j \<Longrightarrow> fresh_bitmap n j = - 1"
  by (simp add: fresh_bitmap_def)

lemma ifree_image_get:
  assumes "k < unat (nr_ifree_blocks sb)" "l < 512"
  shows "get64 (ifree_image sb ! k) (8 * l) = fresh_bitmap 2 (512 * k + l)"
proof (cases "k = 0 \<and> l = 0")
  case True
  have "(0xFFFFFFFFFFFFFFFC :: u64) = NOT (Bit_Operations.mask 2)" by (simp add: mask_eq_exp_minus_1)
  then show ?thesis using True by (simp add: ifree_image_def fresh_bitmap_def block_simps)
next
  case False
  then have "get64 (ifree_image sb ! k) (8 * l) = get64 ones_block (8 * l)"
    using assms by (auto simp: ifree_image_def nth_Cons' block_simps)
  moreover have "2 \<le> 64 * (512 * k + l)" using False by (cases k; cases l) auto
  ultimately show ?thesis using get_ones_block [OF assms(2)] by (simp only: fresh_bitmap_later)
qed

lemma bfree_image_get:
  assumes "k < unat (nr_bfree_blocks sb)" "l < 512" "\<forall>l < 512. get64 d (8 * l) = fresh_bitmap u l" "u \<le> 32768"
  shows "get64 (bfree_image sb d ! k) (8 * l) = fresh_bitmap u (512 * k + l)"
proof (cases "k = 0")
  case False
  then have "u \<le> 64 * (512 * k + l)" using assms(4) by (cases k) auto
  then show ?thesis
    using False assms(1) get_ones_block [OF assms(2)] by (simp add: bfree_image_def nth_Cons' fresh_bitmap_later)
qed (use assms in \<open>simp add: bfree_image_def\<close>)

text \<open>The superblock a mount will have in memory.\<close>

definition fresh_sb :: "u64 \<Rightarrow> sb_info" where
  "fresh_sb n = (mkfs_sb n)\<lparr>ifree_bitmap := fresh_bitmap 2, bfree_bitmap := fresh_bitmap (used_blocks n)\<rparr>"

lemma fresh_image_blocks:
  fixes old :: "u32 \<Rightarrow> block"
  assumes "100 \<le> disk_blocks n" "disk_blocks n \<le> 1600000"
    and im: "im = [sb_image (mkfs_sb n)] @ store_image (mkfs_sb n) @ ifree_image (mkfs_sb n) @ bfree_image (mkfs_sb n) d @ [\<lambda>_. 0]"
  shows "image_disk im old 0 = sb_image (mkfs_sb n)" "image_disk im old 1 = root_inode_image (mkfs_sb n)"
    "\<And>k. k < unat (nr_ifree_blocks (mkfs_sb n)) \<Longrightarrow>
      image_disk im old (bitmap_block (nr_istore_blocks (mkfs_sb n)) k) = ifree_image (mkfs_sb n) ! k"
    "\<And>k. k < unat (nr_bfree_blocks (mkfs_sb n)) \<Longrightarrow>
      image_disk im old (bitmap_block (nr_istore_blocks (mkfs_sb n) + nr_ifree_blocks (mkfs_sb n)) k) = bfree_image (mkfs_sb n) d ! k"
    "\<And>b. unat b = used_blocks n - 1 \<Longrightarrow> image_disk im old b = (\<lambda>_. 0)"
    "\<And>b. used_blocks n \<le> unat b \<Longrightarrow> image_disk im old b = old b"
proof -
  let ?sb = "mkfs_sb n" and ?A = "[sb_image (mkfs_sb n)]" and ?Z = "[\<lambda>_. 0 :: u8]"
  let ?B = "store_image ?sb" and ?C = "ifree_image ?sb" and ?D = "bfree_image ?sb d"
  have lt: "disk_blocks n < 2 ^ 31" using assms(2) by simp
  note U = used_blocks_bounds [OF assms(1,2)] and S = mkfs_sb_numbers [OF lt]
  have len: "length ?B = unat (nr_istore_blocks ?sb)" "length ?C = unat (nr_ifree_blocks ?sb)"
    "length ?D = unat (nr_bfree_blocks ?sb)"
    using U(1-3) by (simp_all add: store_image_def ifree_image_def bfree_image_def S)
  have tot: "length im = used_blocks n" "unat (nr_istore_blocks ?sb + nr_ifree_blocks ?sb) = length ?B + length ?C"
    using len U(6) by (simp_all add: im S used_blocks_def unat_word_ariths)
  have sm: "length ?B + length ?C + length ?D + 2 \<le> 32768" using U(6) len by (simp add: S used_blocks_def)
  show "image_disk im old 0 = sb_image ?sb" using tot(1) by (simp add: image_disk_def im used_blocks_def)
  show "image_disk im old 1 = root_inode_image ?sb"
    using tot(1) by (simp add: image_disk_def im used_blocks_def store_image_def)
  show "image_disk im old (bitmap_block (nr_istore_blocks ?sb) k) = ?C ! k" if "k < unat (nr_ifree_blocks ?sb)" for k
  proof -
    have u: "unat (bitmap_block (nr_istore_blocks ?sb) k) = length ?A + length ?B + k"
      using unat_bitmap_block [of "nr_istore_blocks ?sb" k] that len sm by simp
    have "(?A @ ?B @ ?C @ ?D @ ?Z) ! (length ?A + length ?B + k) = ?C ! k" using that len by (simp add: nth_append)
    moreover have "length ?A + length ?B + k < length im" using that len by (simp add: im)
    ultimately show ?thesis by (simp only: image_disk_def u im if_True)
  qed
  show "image_disk im old (bitmap_block (nr_istore_blocks ?sb + nr_ifree_blocks ?sb) k) = ?D ! k"
    if "k < unat (nr_bfree_blocks ?sb)" for k
  proof -
    have u: "unat (bitmap_block (nr_istore_blocks ?sb + nr_ifree_blocks ?sb) k) = length ?A + length ?B + length ?C + k"
      using unat_bitmap_block [of "nr_istore_blocks ?sb + nr_ifree_blocks ?sb" k] that len sm tot(2) by simp
    have "(?A @ ?B @ ?C @ ?D @ ?Z) ! (length ?A + length ?B + length ?C + k) = ?D ! k"
      using that len by (simp add: nth_append)
    moreover have "length ?A + length ?B + length ?C + k < length im" using that len by (simp add: im)
    ultimately show ?thesis by (simp only: image_disk_def u im if_True)
  qed
  show "image_disk im old b = (\<lambda>_. 0)" if "unat b = used_blocks n - 1" for b
  proof -
    have "unat b = length ?A + length ?B + length ?C + length ?D" using that tot(1) by (simp add: im)
    moreover have "unat b < length im" using that tot(1) by (simp add: used_blocks_def)
    ultimately show ?thesis by (simp add: image_disk_def im nth_append)
  qed
  show "image_disk im old b = old b" if "used_blocks n \<le> unat b" for b
    using that tot(1) by (simp add: image_disk_def)
qed

lemma sb_image_get:
  "get_disk_sb (sb_image sb) = sb\<lparr>magic := 0, ifree_bitmap := \<lambda>_. 0, bfree_bitmap := \<lambda>_. 0\<rparr>"
  "get32 (sb_image sb) 0 = magic sb"
  by (simp_all add: get_disk_sb_def sb_image_def Let_def block_simps)

lemma fresh_synced:
  assumes "100 \<le> disk_blocks n" "disk_blocks n \<le> 1600000"
    and im: "im = [sb_image (mkfs_sb n)] @ store_image (mkfs_sb n) @ ifree_image (mkfs_sb n) @ bfree_image (mkfs_sb n) d @ [\<lambda>_. 0]"
    and d: "\<forall>l < 512. get64 d (8 * l) = fresh_bitmap (used_blocks n) l"
    and r: "cache r = image_disk im old"
  shows "synced (r\<lparr>sbi := fresh_sb n\<rparr>) (cache r)" and "get32 (cache r 0) 0 = OUICHEFS_MAGIC"
proof -
  have lt: "disk_blocks n < 2 ^ 31" using assms(2) by simp
  note B = fresh_image_blocks [OF assms(1-3), where old = old]
  show "get32 (cache r 0) 0 = OUICHEFS_MAGIC"
    using mkfs_sb_numbers(6) [OF lt] by (simp add: r B(1) sb_image_get)
  have "get_disk_sb (cache r 0) = (fresh_sb n)\<lparr>magic := 0, ifree_bitmap := \<lambda>_. 0, bfree_bitmap := \<lambda>_. 0\<rparr>"
    by (simp add: r B(1) sb_image_get fresh_sb_def)
  then show "synced (r\<lparr>sbi := fresh_sb n\<rparr>) (cache r)"
    using ifree_image_get [of _ "mkfs_sb n"] bfree_image_get [of _ "mkfs_sb n", OF _ _ d] used_blocks_bounds(6) [OF assms(1,2)]
    by (simp add: synced_def Let_def) (simp add: fresh_sb_def r B(3,4))
qed

lemma fresh_pools:
  assumes "100 \<le> disk_blocks n" "disk_blocks n \<le> 1600000"
  shows "block_pool (fresh_sb n)" "free_blocks (fresh_sb n) = {b. used_blocks n \<le> unat b \<and> b < nr_blocks (mkfs_sb n)}"
    "inode_pool 1 (fresh_sb n)" "free_inodes (fresh_sb n) = {i. 2 \<le> i \<and> i < nr_inodes (mkfs_sb n)}"
proof -
  have lt: "disk_blocks n < 2 ^ 31" using assms(2) by simp
  note U = used_blocks_bounds [OF assms] and S = mkfs_sb_numbers [OF lt]
  have "unat (nr_istore_blocks (mkfs_sb n) + nr_ifree_blocks (mkfs_sb n) + nr_bfree_blocks (mkfs_sb n) + 2) = used_blocks n"
    using U(6) by (simp add: unat_word_ariths S used_blocks_def)
  then have "unat (nr_free_blocks (mkfs_sb n)) = disk_blocks n - used_blocks n"
    unfolding S(11) using U(7) by (simp add: unat_sub_if' S(1))
  then show "block_pool (fresh_sb n)"
    using U(7) assms(2) by (simp add: block_pool_def bitmap_pool_def fresh_sb_def free_bits_fresh test_bit_fresh S(1) used_blocks_def)
  have "unat (nr_free_inodes (mkfs_sb n)) = disk_inodes n - 1"
    unfolding S(10) using U(8) by (simp add: unat_sub_if' S(2))
  then show "inode_pool 1 (fresh_sb n)"
    using U(8,9) by (simp add: inode_pool_def bitmap_pool_def fresh_sb_def free_bits_fresh test_bit_fresh S(2))
  show "free_blocks (fresh_sb n) = {b. used_blocks n \<le> unat b \<and> b < nr_blocks (mkfs_sb n)}"
    "free_inodes (fresh_sb n) = {i. 2 \<le> i \<and> i < nr_inodes (mkfs_sb n)}"
    by (auto simp: free_blocks_def free_inodes_def fresh_sb_def free_bits_fresh word_less_nat_alt word_le_nat_alt)
qed

lemma fresh_layout:
  assumes "100 \<le> disk_blocks n" "disk_blocks n \<le> 1600000" "\<And>b. bread_ok E b"
  shows "layout_ok E (fresh_sb n)" "1 < nr_inodes (fresh_sb n)" "0 < nr_bfree_blocks (fresh_sb n)"
    "unat (nr_blocks (fresh_sb n)) \<le> 32768 * unat (nr_bfree_blocks (fresh_sb n))" "0 < nr_ifree_blocks (fresh_sb n)"
    "unat (nr_inodes (fresh_sb n)) \<le> 32768 * unat (nr_ifree_blocks (fresh_sb n))"
proof -
  have lt: "disk_blocks n < 2 ^ 31" using assms(2) by simp
  note U = used_blocks_bounds [OF assms(1,2)] and S = mkfs_sb_numbers [OF lt]
  show "layout_ok E (fresh_sb n)"
    using U(4-6) assms(3) by (simp add: layout_ok_def fresh_sb_def S used_blocks_def)
  show "1 < nr_inodes (fresh_sb n)" "0 < nr_bfree_blocks (fresh_sb n)" "0 < nr_ifree_blocks (fresh_sb n)"
    using U(2,3,8) by (simp_all add: fresh_sb_def word_less_nat_alt S)
  show "unat (nr_blocks (fresh_sb n)) \<le> 32768 * unat (nr_bfree_blocks (fresh_sb n))"
    "unat (nr_inodes (fresh_sb n)) \<le> 32768 * unat (nr_ifree_blocks (fresh_sb n))"
    using le_div_round_up_mult [of 32768 "disk_blocks n"] le_div_round_up_mult [of 32768 "disk_inodes n"]
    by (simp_all add: fresh_sb_def S mult.commute)
qed

lemma root_inode_get:
  "index_block (get_disk_inode (root_inode_image sb) 80) =
     1 + nr_bfree_blocks sb + nr_ifree_blocks sb + nr_istore_blocks sb"
  "i_mode (get_disk_inode (root_inode_image sb) 80) = 0x41FD"
  by (simp_all add: get_disk_inode_def root_inode_image_def Let_def block_simps)

lemma root_inode_place: "inode_block_of 1 = 1" "inode_off 1 = 80"
  by (simp_all add: inode_block_of_def inode_off_def)

lemma fresh_mount:
  assumes "good_env M" and "args_ok A" and "open_ok A" and "fstat_ok A" and "\<not> is_blk A"
    and "100 \<le> disk_blocks (st_size A)" and "disk_blocks (st_size A) \<le> 1600000"
    and "\<And>b. bread_ok E b" and "\<And>i. iget_ok E i" and "kmalloc_ok E = (\<lambda>_. True)"
    and "\<And>nd. index_block (init nd) = index_block nd" and "\<And>nd. i_mode (init nd) = i_mode nd"
    and "icached r = {}" and "\<And>im. mkfs_main M A = Inr (0, im) \<Longrightarrow> cache r = image_disk im old"
  shows "\<exists>im t. mkfs_main M A = Inr (0, im) \<and> length im = used_blocks (st_size A) \<and>
    ouichefs_fill_super E sz init True 0 r = Inr (0, t) \<and>
    block_pool (sbi t) \<and>
    free_blocks (sbi t) = {b. used_blocks (st_size A) \<le> unat b \<and> unat b < disk_blocks (st_size A)} \<and>
    inode_pool 1 (sbi t) \<and> free_inodes (sbi t) = {i. 2 \<le> unat i \<and> unat i < disk_inodes (st_size A)} \<and>
    dir_node E 1 t \<and> entries_of 1 t = [] \<and> S_ISDIR (i_mode (inodes t 1)) \<and>
    ((\<forall>b. used_blocks (st_size A) \<le> unat b \<longrightarrow> zeroed (old b)) \<longrightarrow> small_vol E t [] {}) \<and> refs t = refs r"
proof -
  let ?n = "st_size A" and ?sb = "mkfs_sb (st_size A)"
  obtain d where d: "mkfs_format M ?n =
      Inr (0, [sb_image ?sb] @ store_image ?sb @ ifree_image ?sb @ bfree_image ?sb d @ [\<lambda>_. 0])"
      "\<forall>l < 512. get64 d (8 * l) = fresh_bitmap (used_blocks ?n) l"
    using mkfs_format_image [OF assms(1,6,7)] by blast
  define im where "im = [sb_image ?sb] @ store_image ?sb @ ifree_image ?sb @ bfree_image ?sb d @ [\<lambda>_. 0]"
  have m: "mkfs_main M A = Inr (0, im)" using assms(2-5) d(1) by (simp add: mkfs_main_def im_def)
  note r = assms(14) [OF m]
  have lt: "disk_blocks ?n < 2 ^ 31" using assms(7) by simp
  note U = used_blocks_bounds [OF assms(6,7)] and S = mkfs_sb_numbers [OF lt]
    and L = fresh_layout [OF assms(6,7,8)] and P = fresh_pools [OF assms(6,7)]
    and B = fresh_image_blocks [OF assms(6,7) im_def, where old = old]
  note Y = fresh_synced [OF assms(6,7) im_def d(2) r]
  obtain t where t: "ouichefs_fill_super E sz init True 0 r = Inr (0, t)" "remounted (fresh_sb ?n) (sbi t)"
      "cache t = cache r" "refs t = refs r" "inodes t 1 = init (get_disk_inode (cache r 1) 80)"
    using fill_super_remounted [OF Y(1), of E sz init] L(1,2) Y(2) assms(8-10,13) by (auto simp: root_inode_place)
  note R = t(2) [unfolded remounted_def]
  let ?root = "1 + nr_bfree_blocks ?sb + nr_ifree_blocks ?sb + nr_istore_blocks ?sb"
  have ix: "index_block (inodes t 1) = ?root" and md: "i_mode (inodes t 1) = 0x41FD"
    using t(5) assms(11,12) by (simp_all add: r B(2) root_inode_get)
  have ur: "unat ?root = used_blocks ?n - 1" using U(6) by (simp add: unat_word_ariths S used_blocks_def)
  have fb: "free_blocks (sbi t) = {b. used_blocks ?n \<le> unat b \<and> unat b < disk_blocks ?n}"
    and fi: "free_inodes (sbi t) = {i. 2 \<le> unat i \<and> unat i < disk_inodes ?n}"
    using remounted_pool(1) [OF t(2) L(4)] remounted_inode_pool(1) [OF t(2) L(6)] P(2,4)
    by (auto simp: word_less_nat_alt word_le_nat_alt S)
  have bp: "block_pool (sbi t)" and ip: "inode_pool 1 (sbi t)"
    using remounted_pool(2) [OF t(2) L(4,3)] remounted_inode_pool(2) [OF t(2) L(6,5)] P(1,3) by auto
  have cz: "cache t ?root = (\<lambda>_. 0)" using t(3) r B(5) [OF ur] by simp
  have z: "dir_rep (\<lambda>_. 0) []" by (simp add: dir_rep_def)
  have node: "dir_node E 1 t" "entries_of 1 t = []"
    using dir_rep_entries [OF z] dir_invI [OF z] assms(8) ur U(8) fb fi
    by (auto simp: dir_node_def Let_def ix cz used_blocks_def)
  have vol: "small_vol E t [] {}" if old: "\<forall>b. used_blocks ?n \<le> unat b \<longrightarrow> zeroed (old b)"
  proof -
    have "free_zeroed t" using old B(6) by (simp add: free_zeroed_def fb t(3) r)
    moreover have "unat (nr_blocks (sbi t)) \<le> 2 ^ 27" using R assms(7) by (simp add: fresh_sb_def S)
    moreover have "s_free_sliced_blocks (sbi t) = 0" "nr_sliced_blocks (sbi t) = 0" "nr_used_slices (sbi t) = 0"
      using R by (simp_all add: fresh_sb_def S)
    ultimately show ?thesis
      using bp assms(8) by (simp add: small_vol_def slice_inv_def sliced_chain_def mounted_def io_ok_def)
  qed
  have len: "length im = used_blocks ?n"
    using U(1-3) by (simp add: im_def store_image_def ifree_image_def bfree_image_def S used_blocks_def)
  show ?thesis
    using m len t(1,4) bp fb ip fi node md vol by (intro exI [of _ im] exI [of _ t]) (simp add: S_ISDIR_def)
qed

text \<open>C9.  Formatting a disk of 100 to 1.6 million blocks and mounting it succeeds and establishes every
  invariant the handlers rely on: the block pool is consistent and holds exactly the blocks behind
  the metadata and the root directory, all inodes from 2 on are free with the counter one ahead, the
  root is an empty directory, and, if the disk behind the metadata was zero, the volume has no sliced
  block and its free blocks are clear.\<close>

theorem mkfs_then_mount:
  assumes "good_env M" and "args_ok A" and "open_ok A" and "fstat_ok A" and "\<not> is_blk A"
    and "100 \<le> disk_blocks (st_size A)" and "disk_blocks (st_size A) \<le> 1600000"
    and "\<And>b. bread_ok E b" and "\<And>i. iget_ok E i" and "kmalloc_ok E = (\<lambda>_. True)"
    and "\<And>nd. index_block (init nd) = index_block nd" and "\<And>nd. i_mode (init nd) = i_mode nd"
    and "icached r = {}" and "\<And>im. mkfs_main M A = Inr (0, im) \<Longrightarrow> cache r = image_disk im old"
  shows "\<exists>im t. mkfs_main M A = Inr (0, im) \<and> length im = used_blocks (st_size A) \<and>
    ouichefs_fill_super E sz init True 0 r = Inr (0, t) \<and>
    block_pool (sbi t) \<and>
    free_blocks (sbi t) = {b. used_blocks (st_size A) \<le> unat b \<and> unat b < disk_blocks (st_size A)} \<and>
    inode_pool 1 (sbi t) \<and> free_inodes (sbi t) = {i. 2 \<le> unat i \<and> unat i < disk_inodes (st_size A)} \<and>
    dir_node E 1 t \<and> entries_of 1 t = [] \<and> S_ISDIR (i_mode (inodes t 1)) \<and>
    ((\<forall>b. used_blocks (st_size A) \<le> unat b \<longrightarrow> zeroed (old b)) \<longrightarrow> small_vol E t [] {}) \<and> refs t = refs r"
  using assms by (rule fresh_mount)

definition demo_mkfs :: mkfs_env where
  "demo_mkfs = \<lparr>malloc_ok = \<lambda>_. True, write_ok = \<lambda>_. True\<rparr>"

definition demo_args :: mkfs_args where
  "demo_args = \<lparr>args_ok = True, open_ok = True, fstat_ok = True, is_blk = False, blkdev_size = None, st_size = 409600\<rparr>"

theorem mkfs_then_mount_witness:
  "\<exists>im t. mkfs_main demo_mkfs demo_args = Inr (0, im) \<and>
    ouichefs_fill_super demo_env 100 (\<lambda>nd. nd) True 0 (demo_fs\<lparr>cache := image_disk im (\<lambda>_ _. 0)\<rparr>) = Inr (0, t) \<and>
    small_vol demo_env t [] {} \<and> free_blocks (sbi t) = {b. 7 \<le> unat b \<and> unat b < 100}"
proof -
  let ?im = "case mkfs_main demo_mkfs demo_args of Inr (r, im) \<Rightarrow> im | Inl _ \<Rightarrow> []"
  have sz: "st_size demo_args = 409600" "unat (409600 :: u64) div 4096 = 100" by (simp_all add: demo_args_def)
  have u: "used_blocks 409600 = 7" by (simp add: used_blocks_def disk_inodes_def div_round_up_def)
  have hyps: "good_env demo_mkfs" "args_ok demo_args" "open_ok demo_args" "fstat_ok demo_args" "\<not> is_blk demo_args"
    "100 \<le> disk_blocks (st_size demo_args)" "disk_blocks (st_size demo_args) \<le> 1600000"
    "\<And>b. bread_ok demo_env b" "\<And>i. iget_ok demo_env i" "kmalloc_ok demo_env = (\<lambda>_. True)"
    by (simp_all add: good_env_def demo_mkfs_def demo_args_def demo_env_def)
  show ?thesis
    using mkfs_then_mount [OF hyps, of "\<lambda>nd. nd" "demo_fs\<lparr>cache := image_disk ?im (\<lambda>_ _. 0)\<rparr>" "\<lambda>_ _. 0" 100]
    by (auto simp: sz u demo_fs_def zeroed_def)
qed

text \<open>C32.  On a disk of 1.7 million blocks or more (about 6.5 GiB) the formatter writes the bitmap of the
  used blocks past the end of its 4096-byte buffer.\<close>

theorem mkfs_large_disk_overflows:
  assumes "good_env M" and "args_ok A" and "open_ok A" and "fstat_ok A" and "\<not> is_blk A"
    and "1700000 \<le> disk_blocks (st_size A)" and "disk_blocks (st_size A) < 2 ^ 31"
  shows "mkfs_main M A = Inl OutOfBounds"
  using assms mkfs_format_overflow [OF assms(1,6,7)] by (simp add: mkfs_main_def)

theorem mkfs_large_disk_overflows_witness:
  "mkfs_main demo_mkfs (demo_args\<lparr>st_size := 8589934592\<rparr>) = Inl OutOfBounds"
  by (rule mkfs_large_disk_overflows) (simp_all add: good_env_def demo_mkfs_def demo_args_def)

end
