(* ===== verification/Ouiche_Session.thy ===== *)
theory Ouiche_Session
  imports Ouiche_Namespace Ouiche_Mkfs
begin

text \<open>
  The components together, as a state machine: the states are mounted volumes with one directory of
  small files, the steps are the calls the VFS makes on them.  Creating, writing, removing and
  renaming files run the handlers of \<^verbatim>\<open>src/inode.c\<close> and \<^verbatim>\<open>src/file.c\<close>; the abstract state is a map
  from names to contents.

  A call names its file as a path does; the VFS finds the inode in its cache of directory entries,
  which \<open>resolve\<close> reads off the directory (\<open>lookup_cached\<close> relates it to \<^verbatim>\<open>ouichefs_lookup\<close>).  The guard
  \<open>call_ok\<close> is what the VFS checks before it calls a handler (the name is free or taken, as the call
  needs it) and that the volume has room.  A file is written once, by its first write: a later write
  to the same slices counts them again (\<open>small_file_rewrite\<close>), so the counter of used slices would
  leave the invariant.
\<close>

section \<open>Calls\<close>

datatype call =
    Create "u8 list" u32
  | Write "u8 list" nat "u8 list"
  | Unlink "u8 list"
  | Rename "u8 list" "u8 list"

abbreviation resolve :: "u32 \<Rightarrow> fs \<Rightarrow> u8 list \<Rightarrow> u32 option" where
  "resolve dir s \<equiv> map_of (entries_of dir s)"

definition with_inode :: "u32 option \<Rightarrow> (u32 \<Rightarrow> (int \<times> fs) res) \<Rightarrow> fs \<Rightarrow> (int \<times> fs) res" where
  "with_inode i f s = (case i of None \<Rightarrow> Inr (- ENOENT, s) | Some i \<Rightarrow> f i)"

fun run_call :: "env \<Rightarrow> nat \<Rightarrow> (inode \<Rightarrow> u32 \<Rightarrow> inode \<Rightarrow> inode) \<Rightarrow> u32 \<Rightarrow> call \<Rightarrow> fs \<Rightarrow> (int \<times> fs) res" where
  "run_call E fuel init dir (Create nm mode) s = ouichefs_create E init dir nm mode s"
| "run_call E fuel init dir (Write nm pos bs) s =
     with_inode (resolve dir s nm)
       (\<lambda>i. map_sum id (\<lambda>(r, iocb, it, s). (r, s))
         (custom_write_iter E fuel i \<lparr>ki_pos = pos, ki_append = False\<rparr> \<lparr>it_bytes = bs, it_count = length bs\<rparr> s)) s"
| "run_call E fuel init dir (Unlink nm) s =
     with_inode (resolve dir s nm) (\<lambda>i. ouichefs_unlink E fuel dir i s) s"
| "run_call E fuel init dir (Rename old new) s =
     with_inode (resolve dir s old) (\<lambda>i. ouichefs_rename E dir old i dir new 0 s) s"

fun call_ok :: "u32 \<Rightarrow> fs \<Rightarrow> call \<Rightarrow> bool" where
  "call_ok dir s (Create nm mode) \<longleftrightarrow>
     good_name nm \<and> resolve dir s nm = None \<and> length (entries_of dir s) < 128 \<and> S_ISREG mode \<and>
     free_inodes (sbi s) \<noteq> {} \<and> free_blocks (sbi s) \<noteq> {}"
| "call_ok dir s (Write nm pos bs) \<longleftrightarrow>
     (\<exists>i. resolve dir s nm = Some i \<and> i_size (inodes s i) = 0) \<and> bs \<noteq> [] \<and> pos + length bs \<le> 3968 \<and>
     free_blocks (sbi s) \<noteq> {}"
| "call_ok dir s (Unlink nm) \<longleftrightarrow> resolve dir s nm \<noteq> None"
| "call_ok dir s (Rename old new) \<longleftrightarrow>
     good_name old \<and> good_name new \<and> resolve dir s old \<noteq> None \<and> resolve dir s new = None"

inductive session :: "env \<Rightarrow> nat \<Rightarrow> (inode \<Rightarrow> u32 \<Rightarrow> inode \<Rightarrow> inode) \<Rightarrow> u32 \<Rightarrow> fs \<Rightarrow> call list \<Rightarrow> fs \<Rightarrow> bool"
  for E fuel init dir where
  session_start: "session E fuel init dir s [] s"
| session_call: "session E fuel init dir s cs t \<Longrightarrow> call_ok dir t c \<Longrightarrow>
    run_call E fuel init dir c t = Inr (r, u) \<Longrightarrow> session E fuel init dir s (cs @ [c]) u"

section \<open>The abstract file system\<close>

type_synonym afs = "u8 list \<rightharpoonup> u8 list"

fun abs_call :: "call \<Rightarrow> afs \<Rightarrow> afs" where
  "abs_call (Create nm mode) m = m(nm \<mapsto> [])"
| "abs_call (Write nm pos bs) m = m(nm \<mapsto> replicate pos 0 @ bs)"
| "abs_call (Unlink nm) m = m(nm := None)"
| "abs_call (Rename old new) m = m(old := None, new := m old)"

definition file_content :: "fs \<Rightarrow> u32 \<Rightarrow> u8 list" where
  "file_content s i = map (small_byte s i) [0..<i_size (inodes s i)]"

definition abs_fs :: "u32 \<Rightarrow> fs \<Rightarrow> afs" where
  "abs_fs dir s = (\<lambda>nm. map_option (file_content s) (resolve dir s nm))"

section \<open>The invariant\<close>

abbreviation inos_of :: "u32 \<Rightarrow> fs \<Rightarrow> u32 set" where
  "inos_of dir s \<equiv> snd ` set (entries_of dir s)"

definition empty_node :: "inode \<Rightarrow> bool" where
  "empty_node nd \<longleftrightarrow> index_block nd = 0 \<and> i_blocks nd = 0 \<and> i_size nd = 0"

definition vol_ok :: "env \<Rightarrow> nat \<Rightarrow> u32 \<Rightarrow> fs \<Rightarrow> u32 list \<Rightarrow> u32 set \<Rightarrow> bool" where
  "vol_ok E k dir s xs F \<longleftrightarrow>
     small_vol E s xs F \<and> dir_node E dir s \<and> inode_pool k (sbi s) \<and>
     index_block (inodes s dir) \<notin> set xs \<and> F \<subseteq> inos_of dir s \<and> dir \<notin> inos_of dir s \<and>
     (\<forall>i \<in> inos_of dir s. i \<in> inode_univ (sbi s) \<and> \<not> S_ISDIR (i_mode (inodes s i)) \<and>
        (i \<notin> F \<longrightarrow> empty_node (inodes s i)))"

lemma vol_okD:
  assumes "vol_ok E k dir s xs F"
  shows "small_vol E s xs F" "dir_node E dir s" "inode_pool k (sbi s)" "index_block (inodes s dir) \<notin> set xs"
    "F \<subseteq> inos_of dir s" "dir \<notin> inos_of dir s" "dir \<notin> F"
    "\<And>i. i \<in> inos_of dir s \<Longrightarrow> i \<in> inode_univ (sbi s) \<and> \<not> S_ISDIR (i_mode (inodes s i))"
    "\<And>i. i \<in> inos_of dir s \<Longrightarrow> i \<notin> F \<Longrightarrow> empty_node (inodes s i)"
    "\<And>i. i \<in> inos_of dir s \<Longrightarrow> i \<notin> free_inodes (sbi s)"
    "bread_ok E (index_block (inodes s dir))" "dir_inv (cache s (index_block (inodes s dir)))"
    "index_block (inodes s dir) \<notin> free_blocks (sbi s)" "dir \<notin> free_inodes (sbi s)" "block_pool (sbi s)"
  using assms by (auto simp: vol_ok_def dir_node_def Let_def small_vol_def slice_inv_def sliced_chain_def)

lemma vol_okI:
  assumes "small_vol E s xs F" "dir_node E dir s" "inode_pool k (sbi s)" "inos_of dir s = I"
    "index_block (inodes s dir) \<notin> set xs" "F \<subseteq> I" "dir \<notin> I"
    "\<And>i. i \<in> I \<Longrightarrow> i \<in> inode_univ (sbi s)" "\<And>i. i \<in> I \<Longrightarrow> \<not> S_ISDIR (i_mode (inodes s i))"
    "\<And>i. i \<in> I \<Longrightarrow> i \<notin> F \<Longrightarrow> empty_node (inodes s i)"
  shows "vol_ok E k dir s xs F"
  using assms by (simp add: vol_ok_def)

text \<open>The chain of sliced blocks is shorter than the device, so \<open>2 ^ 27\<close> steps are enough fuel.\<close>

lemma chain_length:
  assumes "small_vol E s xs F"
  shows "Suc (length xs) \<le> 2 ^ 27"
proof -
  have "distinct xs" "\<forall>b \<in> set xs. b \<in> block_univ (sbi s)" "unat (nr_blocks (sbi s)) \<le> 2 ^ 27"
    using assms by (auto simp: small_vol_def slice_inv_def sliced_chain_def mounted_def)
  then have "1 \<le> unat b \<and> unat b < 2 ^ 27" if "b \<in> set xs" for b
    using that unat_gt_0 [of b] by (force simp: block_univ_def word_less_nat_alt Suc_le_eq)
  then have "unat ` set xs \<subseteq> {1..<2 ^ 27}" by auto
  then have "card (unat ` set xs) \<le> card {1..<2 ^ 27 :: nat}" by (intro card_mono) auto
  moreover have "card (unat ` set xs) = length xs"
    using \<open>distinct xs\<close> by (subst card_image) (auto simp: inj_on_def distinct_card word_unat_eq_iff)
  ultimately show ?thesis by simp
qed

lemma content_empty: "i_size (inodes s i) = 0 \<Longrightarrow> file_content s i = []"
  by (simp add: file_content_def)

lemma content_cong:
  assumes "vol_ok E k dir s xs F" and "i \<in> inos_of dir s" and "inodes t i = inodes s i"
    and "i \<in> F \<Longrightarrow> \<forall>p < i_size (inodes s i). small_byte t i p = small_byte s i p"
  shows "file_content t i = file_content s i"
proof (cases "i \<in> F")
  case False
  then show ?thesis using vol_okD(9) [OF assms(1,2)] assms(3) by (simp add: content_empty empty_node_def)
qed (use assms(3,4) in \<open>simp add: file_content_def\<close>)

lemma resolve_mem: "resolve dir s nm = Some i \<Longrightarrow> (nm, i) \<in> set (entries_of dir s)"
  by (rule map_of_SomeD)

lemma resolve_ino: "resolve dir s nm = Some i \<Longrightarrow> i \<in> inos_of dir s"
  by (force dest: resolve_mem)

lemma map_of_inj:
  assumes "distinct (map snd es)" and "map_of es m = Some j" and "map_of es n = Some i"
  shows "j = i \<longleftrightarrow> m = n"
proof
  assume "j = i"
  then show "m = n"
    using assms(1) map_of_SomeD [OF assms(2)] map_of_SomeD [OF assms(3)]
    unfolding distinct_map inj_on_def by (metis prod.inject snd_conv)
qed (use assms(2,3) in simp)

lemma map_of_delete_snd:
  fixes es :: "(u8 list \<times> u32) list"
  assumes "distinct (map fst es)" and "distinct (map snd es)" and "map_of es n = Some i"
  shows "map_of (filter (\<lambda>e. snd e \<noteq> i) es) = (map_of es)(n := None)"
proof
  fix m
  have "map_of es m = Some i \<longleftrightarrow> m = n" using map_of_inj [OF assms(2) _ assms(3), of m i] assms(3) by auto
  then show "map_of (filter (\<lambda>e. snd e \<noteq> i) es) m = ((map_of es)(n := None)) m"
    by (simp add: dirb.map_of_filter_snd [OF assms(1)] del: map_of_eq_Some_iff)
qed

lemma map_of_rename:
  assumes "distinct (map fst es)" and "new \<notin> fst ` set es"
  shows "map_of (map (\<lambda>e. if fst e = old then (new, snd e) else e) es) =
    (map_of es)(old := None, new := map_of es old)"
  using assms
proof (induction es)
  case (Cons e es)
  have "map_of es new = None" using Cons.prems by (auto simp: map_of_eq_None_iff)
  moreover have "map_of es old = None" if "fst e = old" using Cons.prems that by (auto simp: map_of_eq_None_iff)
  ultimately show ?case using Cons by (cases e) (auto simp: fun_eq_iff)
qed simp

section \<open>The steps keep the invariant and refine the abstract calls\<close>

text \<open>What one call does to a volume: it succeeds, the invariant is kept, the abstract call is performed,
  no buffer reference is leaked.\<close>

definition call_done ::
  "env \<Rightarrow> nat \<Rightarrow> nat \<Rightarrow> (inode \<Rightarrow> u32 \<Rightarrow> inode \<Rightarrow> inode) \<Rightarrow> u32 \<Rightarrow> call \<Rightarrow> fs \<Rightarrow> bool" where
  "call_done E k fuel init dir c s \<longleftrightarrow>
     (\<exists>r t xs F. run_call E fuel init dir c s = Inr (r, t) \<and> 0 \<le> r \<and> vol_ok E k dir t xs F \<and>
        abs_fs dir t = abs_call c (abs_fs dir s) \<and> refs t = refs s)"

lemma get_free_inode_part: "\<exists>m n. snd (get_free_inode sb) = sb\<lparr>ifree_bitmap := m, nr_free_inodes := n\<rparr>"
  by (intro exI [of _ "ifree_bitmap (snd (get_free_inode sb))"] exI [of _ "nr_free_inodes (snd (get_free_inode sb))"])
    (simp add: get_free_inode_def Let_def split: prod.splits)

lemma S_ISREG_not_dir: "S_ISREG m \<Longrightarrow> \<not> S_ISDIR m"
  by (auto simp: S_ISREG_def S_ISDIR_def)

lemma S_ISDIR_type: "m AND 0xF000 = m' AND 0xF000 \<Longrightarrow> S_ISDIR m = S_ISDIR m'"
  by (simp add: S_ISDIR_def)

lemma create_call:
  assumes vol: "vol_ok E k dir s xs F" and ok: "call_ok dir s (Create nm mode)" and own: "owner_ok init"
    and io: "\<And>i. iget_ok E i" "\<And>b. bread_ok E b"
  shows "call_done E k fuel init dir (Create nm mode) s"
proof -
  note V = vol_okD [OF vol]
  let ?i = "fst (get_free_inode (sbi s))" and ?ib = "index_block (inodes s dir)"
  have G: "good_name nm" "nm \<notin> fst ` set (entries_of dir s)" "length (entries_of dir s) < 128" "S_ISREG mode"
    "free_inodes (sbi s) \<noteq> {}" "free_blocks (sbi s) \<noteq> {}"
    using ok by (auto simp: map_of_eq_None_iff)
  have nd: "\<not> S_ISDIR mode" using S_ISREG_not_dir [OF G(4)] .
  obtain t where t: "ouichefs_create E init dir nm mode s = Inr (0, t)" and cr: "created dir nm mode ?i s t"
    using create_done [OF V(2) good_name_len [OF G(1)] G(3) V(3) G(5) V(15) G(6) _ own refl io(1,2,2)] G(4) by blast
  have C: "\<forall>b. b \<noteq> ?ib \<longrightarrow> cache t b = cache s b" "\<forall>j. j \<noteq> ?i \<and> j \<noteq> dir \<longrightarrow> inodes t j = inodes s j"
    "index_block (inodes t dir) = ?ib" "inode_pool k (sbi t)" "nr_inodes (sbi t) = nr_inodes (sbi s)" "refs t = refs s"
    "sbi t = snd (get_free_inode (sbi s))" "empty_node (inodes t ?i)" "i_mode (inodes t ?i) AND 0xF000 = mode AND 0xF000"
    using cr nd inos.grab_pool [OF V(3)] unfolding created_def Let_def empty_node_def by simp_all
  have i: "?i \<in> free_inodes (sbi s)" "?i \<in> inode_univ (sbi s)" "?i \<noteq> 0"
    using inos.grab_free [OF V(3) G(5)] inos.free_univ [OF V(3)] inos.univ_nonzero [OF V(3)] by auto
  note N = created_entries [OF V(2) G(1-3) cr i(3)]
  have ne: "?i \<notin> inos_of dir s" "?i \<noteq> dir" using i(1) V(10,14) by auto
  obtain m n where sb: "sbi t = (sbi s)\<lparr>ifree_bitmap := m, nr_free_inodes := n\<rparr>"
    using C(7) get_free_inode_part [of "sbi s"] by auto
  have same: "inodes t j = inodes s j" if "j \<in> inos_of dir s" for j
  proof -
    have "j \<noteq> ?i" "j \<noteq> dir" using that ne(1) V(6) by blast+
    then show ?thesis using C(2) by blast
  qed
  have ca: "cache t b = cache s b" if "b \<noteq> ?ib" for b using C(1) that by blast
  have v: "small_vol E t xs F"
  proof (rule small_vol_cong [OF V(1) sb])
    show "cache t b = cache s b" if "b \<in> set xs \<or> b \<in> free_blocks (sbi s)" for b using that V(4,13) ca by metis
    show "inodes t j = inodes s j" if "j \<in> F" for j using that V(5) same by blast
  qed
  have nx: "SMALL_FILE_GET_BNO (inodes s j) \<noteq> ?ib" if "j \<in> F" for j
    using V(1,4) that by (auto simp: small_vol_def slice_inv_def small_node_def)
  have co: "file_content t j = file_content s j" if j: "j \<in> inos_of dir s" for j
    by (rule content_cong [OF vol j same [OF j]]) (use nx same [OF j] in \<open>simp add: small_byte_def ca\<close>)
  have new: "\<not> S_ISDIR (i_mode (inodes t ?i))" using S_ISDIR_type [OF C(9)] nd by simp
  have io: "inos_of dir t = insert ?i (inos_of dir s)" unfolding N(1) by auto
  have "vol_ok E k dir t xs F"
  proof (rule vol_okI [OF v N(2) C(4) io])
    show "index_block (inodes t dir) \<notin> set xs" using C(3) V(4) by simp
    show "F \<subseteq> insert ?i (inos_of dir s)" "dir \<notin> insert ?i (inos_of dir s)" using V(5,6) ne by auto
    fix j assume j: "j \<in> insert ?i (inos_of dir s)"
    show "j \<in> inode_univ (sbi t)" using j i(2) V(8) C(5) by (auto simp: inode_univ_def)
    show "\<not> S_ISDIR (i_mode (inodes t j))" using j new V(8) same by (cases "j = ?i") auto
    show "empty_node (inodes t j)" if "j \<notin> F" using j that C(8) V(9) same by (cases "j = ?i") auto
  qed
  moreover have "abs_fs dir t = abs_call (Create nm mode) (abs_fs dir s)"
  proof
    fix m
    have "resolve dir t m = (if m = nm then Some ?i else resolve dir s m)"
      using ok unfolding N(1) by (auto simp: map_add_def split: option.split)
    moreover have "file_content t j = file_content s j" if "resolve dir s m = Some j" for j
      using co that by (force dest: map_of_SomeD)
    ultimately show "abs_fs dir t m = abs_call (Create nm mode) (abs_fs dir s) m"
      using C(8) by (cases "resolve dir s m") (auto simp: abs_fs_def content_empty empty_node_def)
  qed
  ultimately show ?thesis using t C(6) by (auto simp: call_done_def)
qed

lemma write_call:
  assumes vol: "vol_ok E k dir s xs F" and ok: "call_ok dir s (Write nm pos bs)" and fuel: "2 ^ 27 \<le> fuel"
  shows "call_done E k fuel init dir (Write nm pos bs) s"
proof -
  note V = vol_okD [OF vol]
  let ?ib = "index_block (inodes s dir)"
  let ?io = "\<lparr>ki_pos = pos, ki_append = False\<rparr>" and ?it = "\<lparr>it_bytes = bs, it_count = length bs\<rparr>"
  obtain i where i: "resolve dir s nm = Some i" "i_size (inodes s i) = 0" using ok by auto
  have mem: "i \<in> inos_of dir s" using resolve_ino [OF i(1)] .
  have nF: "i \<notin> F" using V(1) i(2) by (auto simp: small_vol_def slice_inv_def small_node_def)
  have "Suc (length xs) \<le> fuel" using chain_length [OF V(1)] fuel by simp
  then obtain it' t where t: "custom_write_iter E fuel i ?io ?it s = Inr (int (length bs), ?io, it', t)"
      "small_created E i pos bs s xs F t"
    using custom_write_iter_small_new [OF V(1) nF, of ?it ?io fuel] V(9) [OF mem nF] ok
    by (auto simp: empty_node_def)
  note C = t(2) [unfolded small_created_def]
  obtain xs' where xs': "xs' = xs \<or> (\<exists>nb \<in> free_blocks (sbi s). xs' = xs @ [nb])" "small_vol E t xs' (insert i F)"
      "free_blocks (sbi t) = free_blocks (sbi s) - set xs'" using C by blast
  have ne: "dir \<noteq> i" using mem V(6) by auto
  have "inode_part (sbi t) = inode_part (sbi s)" using C by blast
  note P = inode_part_cong [OF this]
  have nd: "inodes t dir = inodes s dir" "cache t ?ib = cache s ?ib" using C ne V(4,13) by auto
  have es: "entries_of dir t = entries_of dir s" unfolding nd ..
  have same: "inodes t j = inodes s j" if "j \<noteq> i" for j using C that by blast
  have "dir_node E dir t" using V(2) xs'(3) by (auto simp: dir_node_def Let_def nd P)
  moreover have "?ib \<notin> set xs'" using xs'(1) V(4,13) by auto
  moreover have "inode_pool k (sbi t)" using V(3) P by simp
  ultimately have "vol_ok E k dir t xs' (insert i F)"
  proof (intro vol_okI [OF xs'(2)])
    show "inos_of dir t = inos_of dir s" unfolding es ..
    show "index_block (inodes t dir) \<notin> set xs'" using \<open>?ib \<notin> set xs'\<close> nd(1) by simp
    show "insert i F \<subseteq> inos_of dir s" "dir \<notin> inos_of dir s" using V(5,6) mem by auto
    fix j assume j: "j \<in> inos_of dir s"
    show "j \<in> inode_univ (sbi t)" using V(8) [OF j] P by simp
    show "\<not> S_ISDIR (i_mode (inodes t j))" using V(8) [OF j] C same [of j] by (cases "j = i") auto
    show "empty_node (inodes t j)" if "j \<notin> insert i F" using V(9) [OF j] same [of j] that by auto
  qed
  moreover have "abs_fs dir t = abs_call (Write nm pos bs) (abs_fs dir s)"
  proof
    fix m
    show "abs_fs dir t m = abs_call (Write nm pos bs) (abs_fs dir s) m"
    proof (cases "resolve dir s m")
      case (Some j)
      have jm: "j \<in> inos_of dir s" using resolve_ino [OF Some] .
      have "j = i \<longleftrightarrow> m = nm" using map_of_inj [OF dir_invD(4) [OF V(12)] Some i(1)] .
      moreover have "file_content t i = replicate pos 0 @ bs"
        using C by (intro nth_equalityI) (auto simp: file_content_def nth_append)
      moreover have "file_content t j = file_content s j" if "j \<noteq> i"
        using C by (intro content_cong [OF vol jm same [OF that]]) blast
      ultimately show ?thesis using Some by (auto simp: abs_fs_def es)
    qed (use i(1) in \<open>auto simp: abs_fs_def es\<close>)
  qed
  ultimately show ?thesis
    using t(1) i(1) C by (auto simp: call_done_def with_inode_def)
qed

lemma unlink_finish:
  assumes vol: "vol_ok E k dir s xs F" and i: "resolve dir s nm = Some i"
    and u: "ouichefs_unlink E fuel dir i s = Inr (0, t)"
    and d: "dir_node E dir t" "entries_of dir t = filter (\<lambda>e. snd e \<noteq> i) (entries_of dir s)"
      "index_block (inodes t dir) = index_block (inodes s dir)"
    and v: "small_vol E t xs' (F - {i})" "set xs' \<subseteq> set xs"
    and p: "inode_pool k (sbi t)" "nr_inodes (sbi t) = nr_inodes (sbi s)"
    and b: "\<forall>l \<in> F - {i}. \<forall>p < i_size (inodes s l). small_byte t l p = small_byte s l p"
    and n: "\<And>j. j \<noteq> i \<Longrightarrow> j \<noteq> dir \<Longrightarrow> inodes t j = inodes s j" and rf: "refs t = refs s"
  shows "call_done E k fuel init dir (Unlink nm) s"
proof -
  note V = vol_okD [OF vol]
  have io: "inos_of dir t = inos_of dir s - {i}" unfolding d(2) by auto
  have same: "inodes t j = inodes s j" if "j \<in> inos_of dir s - {i}" for j
  proof -
    have "j \<noteq> i" "j \<noteq> dir" using that V(6) by blast+
    then show ?thesis by (rule n)
  qed
  have "vol_ok E k dir t xs' (F - {i})"
  proof (rule vol_okI [OF v(1) d(1) p(1) io])
    show "index_block (inodes t dir) \<notin> set xs'" using d(3) v(2) V(4) by auto
    show "F - {i} \<subseteq> inos_of dir s - {i}" "dir \<notin> inos_of dir s - {i}" using V(5,6) by auto
    fix j assume j: "j \<in> inos_of dir s - {i}"
    then show "j \<in> inode_univ (sbi t)" "\<not> S_ISDIR (i_mode (inodes t j))"
      using V(8) [of j] same [OF j] p(2) by (auto simp: inode_univ_def)
    show "empty_node (inodes t j)" if "j \<notin> F - {i}" using V(9) [of j] same [OF j] j that by auto
  qed
  moreover have "abs_fs dir t = abs_call (Unlink nm) (abs_fs dir s)"
  proof
    fix m
    note M = map_of_delete_snd [OF dir_invD(3,4) [OF V(12)] i]
    have "file_content t j = file_content s j" if m: "resolve dir s m = Some j" "m \<noteq> nm" for j
    proof -
      have jm: "j \<in> inos_of dir s" using resolve_ino [OF m(1)] .
      have "j \<noteq> i" using map_of_inj [OF dir_invD(4) [OF V(12)] m(1) i] m(2) by blast
      then show ?thesis using b by (intro content_cong [OF vol jm same]) (use jm in auto)
    qed
    then show "abs_fs dir t m = abs_call (Unlink nm) (abs_fs dir s) m"
      unfolding abs_fs_def d(2) M by (cases "resolve dir s m") auto
  qed
  ultimately show ?thesis
    using u i rf by (auto simp: call_done_def with_inode_def)
qed

lemma unlink_written:
  assumes vol: "vol_ok E k dir s xs F" and i: "resolve dir s nm = Some i" "i \<in> F" and fuel: "2 ^ 27 \<le> fuel"
  shows "call_done E k fuel init dir (Unlink nm) s"
proof -
  note V = vol_okD [OF vol]
  let ?ib = "index_block (inodes s dir)" and ?t = "unlinked E dir i s"
  have mem: "i \<in> inos_of dir s" using i(2) V(5) by auto
  have ne: "i \<noteq> dir" using mem V(6) by auto
  have live: "inode_pool k (sbi s) \<and> i \<in> inode_univ (sbi s) - free_inodes (sbi s)" using V(3,8,10) mem by auto
  have len: "length xs \<le> fuel" using chain_length [OF V(1)] fuel by simp
  obtain t where t: "ouichefs_unlink E fuel dir i s = Inr (0, t)" "unlinked_small E i xs F ?t t"
      "entries_of dir t = filter (\<lambda>e. snd e \<noteq> i) (entries_of dir s)" "dir_node E dir t"
    using unlink_small_file [OF V(2) mem ne V(1) i(2) len _ live V(4,7)] V(8) [OF mem] by blast
  note U = t(2) [unfolded unlinked_small_def]
  have kept: "small_byte ?t l p = small_byte s l p" "i_size (inodes ?t l) = i_size (inodes s l)" if "l \<in> F" for l p
  proof -
    have "l \<noteq> dir" "SMALL_FILE_GET_BNO (inodes s l) \<noteq> ?ib"
      using that V(1,4,7) by (auto simp: small_vol_def slice_inv_def small_node_def)
    then show "small_byte ?t l p = small_byte s l p" "i_size (inodes ?t l) = i_size (inodes s l)"
      by (simp_all add: small_byte_def)
  qed
  obtain xs' where xs': "set xs' \<subseteq> set xs" "small_vol E t xs' (F - {i})" using U by blast
  show ?thesis
  proof (rule unlink_finish [OF vol i(1) t(1,4,3) _ xs'(2,1)])
    show "index_block (inodes t dir) = ?ib" using U ne by simp
    show "inode_pool k (sbi t)" "nr_inodes (sbi t) = nr_inodes (sbi s)" "refs t = refs s" using U V(3) by simp_all
    show "\<forall>l \<in> F - {i}. \<forall>p < i_size (inodes s l). small_byte t l p = small_byte s l p" using U kept by auto
    show "inodes t j = inodes s j" if "j \<noteq> i" "j \<noteq> dir" for j using U that by simp
  qed
qed

lemma unlink_unwritten:
  assumes vol: "vol_ok E k dir s xs F" and i: "resolve dir s nm = Some i" "i \<notin> F"
  shows "call_done E k fuel init dir (Unlink nm) s"
proof -
  note V = vol_okD [OF vol]
  let ?ib = "index_block (inodes s dir)" and ?t = "unlinked E dir i s"
  have mem: "i \<in> inos_of dir s" using resolve_ino [OF i(1)] .
  have ne: "i \<noteq> dir" using mem V(6) by auto
  note e = V(9) [OF mem i(2), unfolded empty_node_def]
  obtain t where t: "release_inode E fuel i 0 ?t = Inr (0, t)" "released i {} ?t t" "sbi t = put_inode (sbi s) i"
    using release_empty [of ?t i k E fuel] V(3,8,10,15) mem ne e by auto
  note R = t(2) [unfolded released_def]
  have u: "ouichefs_unlink E fuel dir i s = Inr (0, t)" using unlink_entry [OF V(11,12) mem, of fuel] t(1) e by simp
  have ix: "index_block (inodes t dir) = ?ib" using R ne by simp
  have d: "entries_of dir t = filter (\<lambda>e. snd e \<noteq> i) (entries_of dir s)" "dir_node E dir t"
    using unlinked_node [OF V(2) mem, of t "{}"] R ne by simp_all
  obtain m n where sb: "sbi t = (sbi s)\<lparr>ifree_bitmap := m, nr_free_inodes := n\<rparr>"
    using t(3) put_inode_part [of "sbi s" i] by auto
  have same: "inodes t j = inodes s j" if "j \<noteq> i" "j \<noteq> dir" for j using R that by simp
  have ca: "cache t b = cache s b" if "b \<noteq> ?ib" for b using R that by simp
  have nx: "SMALL_FILE_GET_BNO (inodes s l) \<noteq> ?ib" "l \<noteq> i" "l \<noteq> dir" if "l \<in> F" for l
    using that V(1,4,7) i(2) by (auto simp: small_vol_def slice_inv_def small_node_def)
  have v: "small_vol E t xs (F - {i})"
  proof -
    have "small_vol E t xs F"
    proof (rule small_vol_cong [OF V(1) sb])
      show "cache t b = cache s b" if "b \<in> set xs \<or> b \<in> free_blocks (sbi s)" for b using that V(4,13) ca by metis
    qed (use nx same in blast)
    then show "small_vol E t xs (F - {i})" using i(2) by simp
  qed
  show ?thesis
  proof (rule unlink_finish [OF vol i(1) u d(2,1) ix v order_refl])
    show "inode_pool k (sbi t)" "nr_inodes (sbi t) = nr_inodes (sbi s)" "refs t = refs s" using R V(3) t(3) by simp_all
    show "\<forall>l \<in> F - {i}. \<forall>p < i_size (inodes s l). small_byte t l p = small_byte s l p"
      using nx by (simp add: small_byte_def same ca)
  qed (rule same)
qed

lemma rename_call:
  assumes vol: "vol_ok E k dir s xs F" and ok: "call_ok dir s (Rename old new)"
  shows "call_done E k fuel init dir (Rename old new) s"
proof -
  note V = vol_okD [OF vol]
  let ?ib = "index_block (inodes s dir)"
  obtain i where i: "resolve dir s old = Some i" using ok by auto
  have new: "new \<notin> fst ` set (entries_of dir s)" using ok by (auto simp: map_of_eq_None_iff)
  obtain t where t: "ouichefs_rename E dir old i dir new 0 s = Inr (0, t)" "dir_node E dir t"
      "entries_of dir t = map (\<lambda>e. if fst e = old then (new, snd e) else e) (entries_of dir s)"
      "\<And>b. b \<noteq> ?ib \<Longrightarrow> cache t b = cache s b" "sbi t = sbi s" "inodes t = inodes s" "refs t = refs s"
    using rename_same_dir_correct [OF V(2), of 0 old new i] ok resolve_mem [OF i] new by auto
  have sn: "snd \<circ> (\<lambda>e. if fst e = old then (new, snd e) else e) = snd" by (auto simp: fun_eq_iff)
  have io: "inos_of dir t = inos_of dir s" unfolding t(3) set_map image_comp sn ..
  have v: "small_vol E t xs F"
    using V(4,13) t(4,5,6)
    by (intro small_vol_cong [OF V(1), where m = "ifree_bitmap (sbi s)" and n = "nr_free_inodes (sbi s)"]) (simp, metis, simp)
  have "vol_ok E k dir t xs F"
    using V(3-9) unfolding t(6) by (intro vol_okI [OF v t(2) _ io]) (simp_all add: t(5,6))
  moreover have "abs_fs dir t = abs_call (Rename old new) (abs_fs dir s)"
  proof
    fix m
    have "SMALL_FILE_GET_BNO (inodes s l) \<noteq> ?ib" if "l \<in> F" for l
      using that V(1,4) by (auto simp: small_vol_def slice_inv_def small_node_def)
    then have "file_content t j = file_content s j" if "j \<in> inos_of dir s" for j
      by (intro content_cong [OF vol that]) (simp_all add: t(4,6) small_byte_def)
    then have "map_option (file_content t) (resolve dir s n) = map_option (file_content s) (resolve dir s n)" for n
      by (cases "resolve dir s n") (auto dest!: resolve_ino)
    then show "abs_fs dir t m = abs_call (Rename old new) (abs_fs dir s) m"
      unfolding abs_fs_def t(3) map_of_rename [OF dir_invD(3) [OF V(12)] new] by simp
  qed
  ultimately show ?thesis using t(1,7) i by (auto simp: call_done_def with_inode_def)
qed

lemma call_step:
  assumes "vol_ok E k dir s xs F" and "call_ok dir s c" and "owner_ok init"
    and "\<And>i. iget_ok E i" and "\<And>b. bread_ok E b" and "2 ^ 27 \<le> fuel"
  shows "call_done E k fuel init dir c s"
proof (cases c)
  case (Create nm mode)
  show ?thesis unfolding Create by (rule create_call [OF assms(1) assms(2) [unfolded Create] assms(3-5)])
next
  case (Write nm pos bs)
  show ?thesis unfolding Write by (rule write_call [OF assms(1) assms(2) [unfolded Write] assms(6)])
next
  case (Rename old new)
  show ?thesis unfolding Rename by (rule rename_call [OF assms(1) assms(2) [unfolded Rename]])
next
  case (Unlink nm)
  then obtain i where "resolve dir s nm = Some i" using assms(2) by auto
  then show ?thesis
    unfolding Unlink using unlink_written [OF assms(1) _ _ assms(6)] unlink_unwritten [OF assms(1)] by blast
qed

lemma session_done:
  assumes "session E fuel init dir s cs t" and "vol_ok E k dir s xs F" and "owner_ok init"
    and "\<And>i. iget_ok E i" and "\<And>b. bread_ok E b" and "2 ^ 27 \<le> fuel"
  shows "(\<exists>xs F. vol_ok E k dir t xs F) \<and> abs_fs dir t = fold abs_call cs (abs_fs dir s) \<and> refs t = refs s"
  using assms(1,2)
proof (induction rule: session.induct)
  case (session_call s cs t c r u)
  obtain xs F where "vol_ok E k dir t xs F" using session_call by blast
  then have "call_done E k fuel init dir c t" using call_step session_call.hyps(2) assms(3-6) by blast
  then show ?case using session_call by (auto simp: call_done_def)
qed auto

lemma vol_content_bound:
  assumes "vol_ok E k dir s xs F" and "i \<in> inos_of dir s"
  shows "length (file_content s i) \<le> 4096"
proof (cases "i \<in> F")
  case True
  then have "small_node xs (inodes s i)" using vol_okD(1) [OF assms(1)] by (auto simp: small_vol_def slice_inv_def)
  then show ?thesis
    using le_div_round_up_mult [of 128 "i_size (inodes s i)"] by (simp add: small_node_def file_content_def)
qed (use vol_okD(9) [OF assms] in \<open>simp add: content_empty empty_node_def\<close>)

text \<open>Reading a file from its start returns its abstract content.\<close>

lemma read_content:
  assumes vol: "vol_ok E k dir s xs F" and nm: "abs_fs dir s nm = Some bs" and n: "0 < n" "length bs \<le> n"
  shows "\<exists>i. resolve dir s nm = Some i \<and>
    custom_read_iter E i \<lparr>ki_pos = 0, ki_append = False\<rparr> \<lparr>out_bytes = [], out_room = n, out_count = n\<rparr> s =
      Inr (int (length bs), \<lparr>ki_pos = length bs, ki_append = False\<rparr>,
        \<lparr>out_bytes = bs, out_room = n - length bs, out_count = n - length bs\<rparr>, s)"
proof -
  note V = vol_okD [OF vol]
  obtain i where i: "resolve dir s nm = Some i" "bs = file_content s i" using nm by (auto simp: abs_fs_def)
  have mem: "i \<in> inos_of dir s" using resolve_ino [OF i(1)] .
  show ?thesis
  proof (cases "i \<in> F")
    case True
    have inv: "slice_inv E s xs F" using V(1) by (simp add: small_vol_def)
    have "0 < i_size (inodes s i)" using inv True by (simp add: slice_inv_def small_node_def)
    then show ?thesis
      using i n custom_read_iter_small [OF inv True, of "\<lparr>ki_pos = 0, ki_append = False\<rparr>"
          "\<lparr>out_bytes = [], out_room = n, out_count = n\<rparr>" "length bs"]
      by (simp add: file_content_def)
  next
    case False
    then show ?thesis
      using i V(9) [OF mem] n by (simp add: content_empty empty_node_def custom_read_iter_def)
  qed
qed

section \<open>Sessions\<close>

text \<open>C1.  After any sequence of enabled calls on a volume that satisfies the invariant, the invariant
  holds, the directory and its files are exactly what the abstract file system holds after the same
  calls, every file reads back as its abstract content, and no buffer reference is leaked: the handlers
  together implement a map from names to contents.\<close>

theorem session_refines:
  assumes "vol_ok E k dir s xs F" and "session E fuel init dir s cs t" and "owner_ok init"
    and "\<And>i. iget_ok E i" and "\<And>b. bread_ok E b" and "2 ^ 27 \<le> fuel"
  shows "(\<exists>xs F. vol_ok E k dir t xs F) \<and> abs_fs dir t = fold abs_call cs (abs_fs dir s) \<and> refs t = refs s \<and>
    (\<forall>nm bs. abs_fs dir t nm = Some bs \<longrightarrow> (\<exists>i iocb it. resolve dir t nm = Some i \<and>
       custom_read_iter E i \<lparr>ki_pos = 0, ki_append = False\<rparr> \<lparr>out_bytes = [], out_room = 4096, out_count = 4096\<rparr> t =
         Inr (int (length bs), iocb, it, t) \<and> out_bytes it = bs))"
proof -
  note S = session_done [OF assms(2,1,3-6)]
  then obtain xs' F' where v: "vol_ok E k dir t xs' F'" by blast
  have len: "length bs \<le> 4096" if "abs_fs dir t nm = Some bs" for nm bs
  proof -
    obtain i where i: "resolve dir t nm = Some i" "bs = file_content t i"
      using \<open>abs_fs dir t nm = Some bs\<close> by (auto simp: abs_fs_def)
    then show ?thesis using vol_content_bound [OF v resolve_ino [OF i(1)]] by simp
  qed
  show ?thesis using S read_content [OF v _ _ len] by fastforce
qed

lemma one_call_session:
  assumes "call_done E k fuel init dir c s" and "call_ok dir s c"
  shows "\<exists>t. session E fuel init dir s [c] t"
  using assms session_call [OF session_start, of dir s c E fuel init] by (auto simp: call_done_def)

lemma demo_vol_ok: "vol_ok demo_env 0 1 demo_root_small [4] {2}"
proof (rule vol_okI [OF demo_root_small_vol demo_root_small_node(1) demo_root_small_pools(4)])
  show "inos_of 1 demo_root_small = {2}" unfolding demo_root_small_node(2) by simp
  show "index_block (inodes demo_root_small 1) \<notin> set [4]" by (simp add: demo_root_small_facts)
  show "\<not> S_ISDIR (i_mode (inodes demo_root_small i))" if "i \<in> {2}" for i
    using that by (simp add: demo_root_small_facts) (simp add: demo_small_def demo_inode_def S_ISDIR_def)
qed (simp_all add: inode_univ_def demo_root_small_facts)

lemma demo_content: "abs_fs 1 demo_root_small name_a = Some hello"
proof -
  have "file_content demo_root_small 2 = hello"
    by (simp add: file_content_def small_byte_def demo_root_small_facts demo_small_inode upt_rec hello_def)
      (simp add: demo_small_def memcpy_def hello_def)
  then show ?thesis unfolding abs_fs_def demo_root_small_node(2) by simp
qed

theorem session_refines_witness:
  "\<exists>t. session demo_env (2 ^ 27) demo_owner 1 demo_root_small [Rename name_a name_b] t \<and>
    abs_fs 1 t name_b = Some hello \<and> abs_fs 1 t name_a = None"
proof -
  have ok: "call_ok 1 demo_root_small (Rename name_a name_b)"
    unfolding call_ok.simps demo_root_small_node(2) using names_good by simp
  obtain t where t: "session demo_env (2 ^ 27) demo_owner 1 demo_root_small [Rename name_a name_b] t"
    using one_call_session [OF rename_call [OF demo_vol_ok ok] ok] by blast
  have "abs_fs 1 t = abs_call (Rename name_a name_b) (abs_fs 1 demo_root_small)"
    using session_refines [OF demo_vol_ok t demo_owner_ok] by (simp add: demo_env_ok)
  then show ?thesis using t demo_content names_good(3,4) by auto
qed

text \<open>C3.  In every state a session reaches, every enabled call runs its handlers to the end and succeeds:
  no error is returned, no pointer or buffer is misused, no loop over the chain of sliced blocks goes on.\<close>

theorem session_progress:
  assumes "vol_ok E k dir s xs F" and "session E fuel init dir s cs t" and "owner_ok init"
    and "\<And>i. iget_ok E i" and "\<And>b. bread_ok E b" and "2 ^ 27 \<le> fuel" and "call_ok dir t c"
  shows "\<exists>r u. run_call E fuel init dir c t = Inr (r, u) \<and> 0 \<le> r \<and> session E fuel init dir s (cs @ [c]) u"
proof -
  obtain xs' F' where v: "vol_ok E k dir t xs' F'" using session_done [OF assms(2,1,3-6)] by blast
  show ?thesis
    using call_step [OF v assms(7,3-6)] session_call [OF assms(2,7)] by (auto simp: call_done_def)
qed

theorem session_progress_witness:
  "\<exists>r u. run_call demo_env (2 ^ 27) demo_owner 1 (Unlink name_a) demo_root_small = Inr (r, u) \<and> 0 \<le> r"
proof -
  have "call_ok 1 demo_root_small (Unlink name_a)" unfolding call_ok.simps demo_root_small_node(2) by simp
  from session_progress [OF demo_vol_ok session_start demo_owner_ok _ _ _ this, of "2 ^ 27"]
  show ?thesis by (auto simp: demo_env_ok simp del: run_call.simps)
qed

text \<open>C2.  The whole program: a disk formatted by \<^verbatim>\<open>mkfs.ouichefs\<close>, zero behind the metadata, and mounted
  starts as the empty file system, and every session on it is the abstract one.\<close>

theorem fresh_session:
  assumes "good_env M" and "args_ok A" and "open_ok A" and "fstat_ok A" and "\<not> is_blk A"
    and "100 \<le> disk_blocks (st_size A)" and "disk_blocks (st_size A) \<le> 1600000"
    and "\<And>b. bread_ok E b" and "\<And>i. iget_ok E i" and "kmalloc_ok E = (\<lambda>_. True)"
    and "\<And>nd. index_block (init nd) = index_block nd" and "\<And>nd. i_mode (init nd) = i_mode nd"
    and "icached r = {}" and "\<And>im. mkfs_main M A = Inr (0, im) \<Longrightarrow> cache r = image_disk im old"
    and "\<forall>b. used_blocks (st_size A) \<le> unat b \<longrightarrow> zeroed (old b)"
    and "ouichefs_fill_super E sz init True 0 r = Inr (0, s)"
    and "owner_ok own" and "2 ^ 27 \<le> fuel" and "session E fuel own 1 s cs t"
  shows "abs_fs 1 t = fold abs_call cs (\<lambda>_. None) \<and> refs t = refs r \<and> (\<exists>xs F. vol_ok E 1 1 t xs F)"
proof -
  have F: "dir_node E 1 s" "entries_of 1 s = []" "small_vol E s [] {}" "inode_pool 1 (sbi s)" "refs s = refs r"
    using fresh_mount [OF assms(1-14), of sz] assms(15,16) by auto
  have "vol_ok E 1 1 s [] {}" using F by (intro vol_okI [where I = "{}"]) simp_all
  from session_done [OF assms(19) this assms(17,9,8,18)] show ?thesis
    using F(2,5) by (auto simp: abs_fs_def fun_eq_iff)
qed

theorem fresh_session_witness:
  "\<exists>im s t. mkfs_main demo_mkfs demo_args = Inr (0, im) \<and>
    ouichefs_fill_super demo_env 100 (\<lambda>nd. nd) True 0 (demo_fs\<lparr>cache := image_disk im (\<lambda>_ _. 0)\<rparr>) = Inr (0, s) \<and>
    session demo_env (2 ^ 27) demo_owner 1 s [Create name_a 0x81A4] t \<and> abs_fs 1 t = [name_a \<mapsto> []]"
proof -
  let ?im = "case mkfs_main demo_mkfs demo_args of Inr (r, im) \<Rightarrow> im | Inl _ \<Rightarrow> []"
  let ?r = "demo_fs\<lparr>cache := image_disk ?im (\<lambda>_ _. 0)\<rparr>"
  have u: "st_size demo_args = 409600" "used_blocks 409600 = 7" "disk_inodes 409600 = 149"
    by (simp_all add: demo_args_def used_blocks_def disk_inodes_def div_round_up_def)
  have hyps: "good_env demo_mkfs" "args_ok demo_args" "open_ok demo_args" "fstat_ok demo_args" "\<not> is_blk demo_args"
    "100 \<le> disk_blocks (st_size demo_args)" "disk_blocks (st_size demo_args) \<le> 1600000"
    "\<And>b. bread_ok demo_env b" "\<And>i. iget_ok demo_env i" "kmalloc_ok demo_env = (\<lambda>_. True)"
    by (simp_all add: good_env_def demo_mkfs_def demo_args_def demo_env_def)
  have c: "cache ?r = image_disk im (\<lambda>_ _. 0)" if "mkfs_main demo_mkfs demo_args = Inr (0, im)" for im using that by simp
  have ic: "icached ?r = {}" by (simp add: demo_fs_def)
  note M = fresh_mount [OF hyps, where init = "\<lambda>nd. nd", OF refl refl ic c, of 100]
  obtain s where s: "ouichefs_fill_super demo_env 100 (\<lambda>nd. nd) True 0 ?r = Inr (0, s)"
      "free_blocks (sbi s) = {b. 7 \<le> unat b \<and> unat b < 100}" "free_inodes (sbi s) = {i. 2 \<le> unat i \<and> unat i < 149}"
      "dir_node demo_env 1 s" "entries_of 1 s = []" "small_vol demo_env s [] {}" "inode_pool 1 (sbi s)"
    and im: "\<exists>im. mkfs_main demo_mkfs demo_args = Inr (0, im)"
    using M by (auto simp: u zeroed_def)
  have "7 \<in> free_blocks (sbi s)" "2 \<in> free_inodes (sbi s)" unfolding s(2,3) by simp_all
  then have ok: "call_ok 1 s (Create name_a 0x81A4)" using names_good(1) s(5) by (auto simp: S_ISREG_def)
  have v: "vol_ok demo_env 1 1 s [] {}" using s(4-7) by (intro vol_okI [where I = "{}"]) simp_all
  obtain t where t: "session demo_env (2 ^ 27) demo_owner 1 s [Create name_a 0x81A4] t"
    using one_call_session [OF create_call [OF v ok demo_owner_ok hyps(9,8)] ok] by blast
  have a: "abs_fs 1 t = fold abs_call [Create name_a 0x81A4] (\<lambda>_. None)"
    using fresh_session [OF hyps, where init = "\<lambda>nd. nd", OF refl refl ic c _ s(1) demo_owner_ok _ t] by (simp add: zeroed_def)
  obtain im where im: "mkfs_main demo_mkfs demo_args = Inr (0, im)" using im by blast
  show ?thesis using s(1) t a im by (intro exI [of _ im] exI [of _ s] exI [of _ t]) simp
qed

end
