(* ===== verification/Ouiche_Stats.thy ===== *)
theory Ouiche_Stats
  imports Ouiche_Namespace
begin

text \<open>
  The statistics of \<^verbatim>\<open>src/sysfs.c\<close>: the three totals that walk the inodes and the nine attributes.
  An attribute is the pair of what its \<^verbatim>\<open>show\<close> function returns and the text it puts into the page.

  \<^verbatim>\<open>iput\<close> drops the reference the walk took and leaves the cached inode as it is.  The loops test
  the result of \<^verbatim>\<open>ouichefs_iget\<close> against null, which an error pointer is not: a failing load is a
  fault, and the branch of the test is dead.  \<^verbatim>\<open>BLOCK_SIZE\<close> is a macro of the kernel
  (\<^verbatim>\<open>linux/fs.h\<close>), a parameter here.
\<close>

section \<open>Formatted output\<close>

fun decimal :: "nat \<Rightarrow> string" where
  "decimal n = (if n < 10 then [char_of (48 + n)] else decimal (n div 10) @ [char_of (48 + n mod 10)])"

declare decimal.simps [simp del]

definition snprintf_u :: "nat \<Rightarrow> int \<times> string" where
  "snprintf_u n = (int (length (decimal n)), decimal n)"

definition snprintf_percent :: "nat \<Rightarrow> int \<times> string" where
  "snprintf_percent n = (int (length (decimal n) + 1), decimal n @ ''%'')"

section \<open>Totals\<close>

primrec total_data_size_loop :: "env \<Rightarrow> nat list \<Rightarrow> nat \<Rightarrow> fs \<Rightarrow> (nat \<times> fs) res" where
  "total_data_size_loop E [] sz s = Inr (sz, s)"
| "total_data_size_loop E (i # is) sz s =
     (case ouichefs_iget E (of_nat i) s of
        (Inl err, s) \<Rightarrow> Inl NullDeref
      | (Inr ino, s) \<Rightarrow> total_data_size_loop E is (sz + i_size (inodes s ino)) s)"

definition total_data_size :: "env \<Rightarrow> fs \<Rightarrow> (nat \<times> fs) res" where
  "total_data_size E s =
     (let inos = nr_inodes (sbi s) - nr_free_inodes (sbi s) in total_data_size_loop E [1..<unat inos] 0 s)"

primrec total_file_count_loop :: "env \<Rightarrow> nat list \<Rightarrow> u32 \<Rightarrow> fs \<Rightarrow> (u32 \<times> fs) res" where
  "total_file_count_loop E [] count s = Inr (count, s)"
| "total_file_count_loop E (i # is) count s =
     (case ouichefs_iget E (of_nat i) s of
        (Inl err, s) \<Rightarrow> Inl NullDeref
      | (Inr ino, s) \<Rightarrow>
          if S_ISDIR (i_mode (inodes s ino)) then total_file_count_loop E is count s
          else total_file_count_loop E is (count + 1) s)"

definition total_file_count :: "env \<Rightarrow> fs \<Rightarrow> (u32 \<times> fs) res" where
  "total_file_count E s =
     (let inos = nr_inodes (sbi s) - nr_free_inodes (sbi s) in total_file_count_loop E [1..<unat inos] 0 s)"

primrec total_small_file_count_loop :: "env \<Rightarrow> nat list \<Rightarrow> u32 \<Rightarrow> fs \<Rightarrow> (u32 \<times> fs) res" where
  "total_small_file_count_loop E [] count s = Inr (count, s)"
| "total_small_file_count_loop E (i # is) count s =
     (case ouichefs_iget E (of_nat i) s of
        (Inl err, s) \<Rightarrow> Inl NullDeref
      | (Inr ino, s) \<Rightarrow>
          if S_ISDIR (i_mode (inodes s ino)) then total_small_file_count_loop E is count s
          else if i_blocks (inodes s ino) = 0 then total_small_file_count_loop E is (count + 1) s
          else total_small_file_count_loop E is count s)"

definition total_small_file_count :: "env \<Rightarrow> fs \<Rightarrow> (u32 \<times> fs) res" where
  "total_small_file_count E s =
     (let inos = nr_inodes (sbi s) - nr_free_inodes (sbi s)
      in total_small_file_count_loop E [1..<unat (inos + 1)] 0 s)"

definition total_used_size :: "u32 \<Rightarrow> fs \<Rightarrow> u32" where
  "total_used_size BLOCK_SIZE s = (nr_blocks (sbi s) - nr_free_blocks (sbi s)) * BLOCK_SIZE"

section \<open>Attributes\<close>

definition free_blocks_show :: "fs \<Rightarrow> int \<times> string" where
  "free_blocks_show s = snprintf_u (unat (nr_free_blocks (sbi s)))"

definition used_blocks_show :: "fs \<Rightarrow> int \<times> string" where
  "used_blocks_show s = snprintf_u (unat (nr_blocks (sbi s) - nr_free_blocks (sbi s)))"

definition sliced_blocks_show :: "fs \<Rightarrow> int \<times> string" where
  "sliced_blocks_show s = snprintf_u (unat (nr_sliced_blocks (sbi s)))"

definition total_free_slices_show :: "fs \<Rightarrow> int \<times> string" where
  "total_free_slices_show s =
     (if s_free_sliced_blocks (sbi s) = 0 then (1, ''0'')
      else snprintf_u (unat (nr_sliced_blocks (sbi s) * 31 - nr_used_slices (sbi s))))"

definition files_show :: "env \<Rightarrow> fs \<Rightarrow> ((int \<times> string) \<times> fs) res" where
  "files_show E s =
     (case total_file_count E s of Inl f \<Rightarrow> Inl f | Inr (n, s) \<Rightarrow> Inr (snprintf_u (unat n), s))"

definition small_files_show :: "env \<Rightarrow> fs \<Rightarrow> ((int \<times> string) \<times> fs) res" where
  "small_files_show E s =
     (case total_small_file_count E s of Inl f \<Rightarrow> Inl f | Inr (n, s) \<Rightarrow> Inr (snprintf_u (unat n), s))"

definition total_data_size_show :: "env \<Rightarrow> fs \<Rightarrow> ((int \<times> string) \<times> fs) res" where
  "total_data_size_show E s =
     (case total_data_size E s of Inl f \<Rightarrow> Inl f | Inr (n, s) \<Rightarrow> Inr (snprintf_u n, s))"

definition total_used_size_show :: "u32 \<Rightarrow> fs \<Rightarrow> int \<times> string" where
  "total_used_size_show BLOCK_SIZE s = snprintf_u (unat (total_used_size BLOCK_SIZE s))"

text \<open>The division traps when the used size is zero.\<close>

definition efficiency_show :: "env \<Rightarrow> u32 \<Rightarrow> fs \<Rightarrow> ((int \<times> string) \<times> fs) res" where
  "efficiency_show E BLOCK_SIZE s =
     (case total_data_size E s of
        Inl f \<Rightarrow> Inl f
      | Inr (n, s) \<Rightarrow>
          let u = unat (total_used_size BLOCK_SIZE s) in
          if u = 0 then Inl KernelPanic else Inr (snprintf_percent (n * 100 div u), s))"

section \<open>Decimal numbers\<close>

definition parse_decimal :: "string \<Rightarrow> nat" where
  "parse_decimal ds = foldl (\<lambda>n c. 10 * n + (of_char c - 48)) 0 ds"

lemma parse_decimal: "parse_decimal (decimal n) = n"
proof (induction n rule: decimal.induct)
  case (1 n)
  show ?case
  proof (cases "n < 10")
    case False
    have "parse_decimal (decimal (n div 10) @ [char_of (48 + n mod 10)]) =
        10 * parse_decimal (decimal (n div 10)) + n mod 10"
      by (simp add: parse_decimal_def)
    then show ?thesis using 1 [OF False] False by (subst decimal.simps) simp
  qed (subst decimal.simps, simp add: parse_decimal_def)
qed

section \<open>Walking the inodes\<close>

text \<open>What a walk sees of an inode: the cached one, or the one of the inode store.\<close>

definition walked_inode :: "fs \<Rightarrow> u32 \<Rightarrow> inode" where
  "walked_inode s i =
     (if i \<in> icached s then inodes s i else get_disk_inode (cache s (inode_block_of i)) (inode_off i))"

definition walk_ok :: "env \<Rightarrow> fs \<Rightarrow> nat \<Rightarrow> bool" where
  "walk_ok E s n \<longleftrightarrow>
     n \<le> unat (nr_inodes (sbi s)) \<and> (\<forall>i. unat i < n \<longrightarrow> iget_ok E i \<and> bread_ok E (inode_block_of i))"

definition walked :: "fs \<Rightarrow> fs \<Rightarrow> bool" where
  "walked s t \<longleftrightarrow> sbi t = sbi s \<and> cache t = cache s \<and> refs t = refs s \<and> walked_inode t = walked_inode s"

primrec walk :: "env \<Rightarrow> ('a \<Rightarrow> inode \<Rightarrow> 'a) \<Rightarrow> nat list \<Rightarrow> 'a \<Rightarrow> fs \<Rightarrow> ('a \<times> fs) res" where
  "walk E f [] a s = Inr (a, s)"
| "walk E f (i # is) a s =
     (case ouichefs_iget E (of_nat i) s of
        (Inl err, s) \<Rightarrow> Inl NullDeref
      | (Inr ino, s) \<Rightarrow> walk E f is (f a (inodes s ino)) s)"

lemma total_loops_walk:
  "total_data_size_loop E is n s = walk E (\<lambda>n nd. n + i_size nd) is n s"
  "total_file_count_loop E is c s = walk E (\<lambda>c nd. if S_ISDIR (i_mode nd) then c else c + 1) is c s"
  "total_small_file_count_loop E is c s =
     walk E (\<lambda>c nd. if S_ISDIR (i_mode nd) then c else if i_blocks nd = 0 then c + 1 else c) is c s"
  by (induction "is" arbitrary: n c s) (auto split: prod.splits sum.splits)

lemma iget_walked:
  assumes "walk_ok E s n" and "unat i < n"
  shows "\<exists>t. ouichefs_iget E i s = (Inr i, t) \<and> inodes t i = walked_inode s i \<and> walked s t"
proof -
  have "\<not> nr_inodes (sbi s) \<le> i" "iget_ok E i" "bread_ok E (inode_block_of i)"
    using assms by (simp_all add: walk_ok_def word_le_nat_alt)
  then show ?thesis
    by (auto simp: ouichefs_iget_def sb_bread_hold walked_def walked_inode_def fun_eq_iff brelse_def hold_def Let_def)
qed

lemma walk_foldl:
  assumes "walk_ok E s n" and "\<forall>i \<in> set is. i < n"
  shows "\<exists>t. walk E f is a s = Inr (foldl (\<lambda>a i. f a (walked_inode s (of_nat i))) a is, t) \<and> walked s t"
  using assms
proof (induction "is" arbitrary: a s)
  case (Cons i "is")
  have "unat (nr_inodes (sbi s)) < 2 ^ 32" using unsigned_less [where 'a = nat, of "nr_inodes (sbi s)"] by simp
  then have "i < 2 ^ 32" using Cons.prems by (simp add: walk_ok_def)
  then have "unat (of_nat i :: u32) = i" by (simp add: unat_of_nat_u32)
  then obtain u where u: "ouichefs_iget E (of_nat i) s = (Inr (of_nat i), u)"
      "inodes u (of_nat i) = walked_inode s (of_nat i)" "walked s u"
    using iget_walked [OF Cons.prems(1), of "of_nat i"] Cons.prems(2) by auto
  then have "walk_ok E u n" using Cons.prems(1) by (simp add: walk_ok_def walked_def)
  from Cons.IH [OF this, of "f a (walked_inode s (of_nat i))"] show ?case
    using Cons.prems(2) u by (auto simp: walked_def)
qed (simp add: walked_def)

lemma foldl_sum: "foldl (\<lambda>a i. a + g i) (a :: nat) xs = a + (\<Sum>i \<leftarrow> xs. g i)"
  by (induction xs arbitrary: a) (simp_all add: add.assoc)

lemma foldl_count:
  "foldl (\<lambda>c i. if P i then c + 1 else c) (c :: u32) xs = c + of_nat (length (filter P xs))"
  by (induction xs arbitrary: c) simp_all

lemma length_filter_upt: "length (filter P [m..<n]) = card {i. m \<le> i \<and> i < n \<and> P i}"
proof -
  have "{i. m \<le> i \<and> i < n \<and> P i} = set (filter P [m..<n])" by auto
  then show ?thesis using distinct_card [of "filter P [m..<n]"] by simp
qed

lemma card_range_bound: "card {i :: nat. 1 \<le> i \<and> i < n \<and> P i} \<le> n"
proof -
  have "card {i :: nat. 1 \<le> i \<and> i < n \<and> P i} \<le> card {..<n}" by (rule card_mono) auto
  then show ?thesis by simp
qed

section \<open>Free slices\<close>

lemma card_run: "card {x. fst x = (b :: u32) \<and> m \<le> snd x \<and> snd x < m + n} = n" for m :: nat
proof -
  have "{x. fst x = b \<and> m \<le> snd x \<and> snd x < m + n} = {b} \<times> {m..<m + n}" by auto
  then show ?thesis by simp
qed

lemma slices_partition:
  assumes "slice_inv E s xs F"
  shows "(\<Sum>i \<in> F. unat (num_slices (inodes s i))) +
    (\<Sum>b \<in> set xs. card {k. k < 32 \<and> bit (bm_of s b) k}) = 31 * length xs"
proof -
  note I = slice_invD [OF assms]
  let ?own = "\<lambda>i. {x. occupies (inodes s i) (fst x) (snd x)}"
  let ?free = "Sigma (set xs) (\<lambda>b. {k. k < 32 \<and> bit (bm_of s b) k})"
  have own: "card (?own i) = unat (num_slices (inodes s i))" for i
    using card_run [of "SMALL_FILE_GET_BNO (inodes s i)" "unat (SMALL_FILE_GET_SLICE (inodes s i))"]
    by (simp add: occupies_def)
  have sub: "?own i \<subseteq> set xs \<times> {1..<32}" if "i \<in> F" for i
    using I(5) [OF that] by (auto simp: occupies_def small_node_def)
  then have fin: "finite (?own i)" if "i \<in> F" for i using that finite_subset [OF sub] by auto
  have "card (\<Union>i \<in> F. ?own i) = (\<Sum>i \<in> F. card (?own i))"
    using I(4,6) fin by (intro card_UN_disjoint) auto
  moreover have "card ?free = (\<Sum>b \<in> set xs. card {k. k < 32 \<and> bit (bm_of s b) k})" by simp
  moreover have "card ((\<Union>i \<in> F. ?own i) \<union> ?free) = card (\<Union>i \<in> F. ?own i) + card ?free"
    using I(4,7) fin by (intro card_Un_disjoint) (auto simp: bits_exact_def)
  moreover have "(\<Union>i \<in> F. ?own i) \<union> ?free = set xs \<times> {1..<32}"
    using sub I(7) by (auto simp: bits_exact_def)
  moreover have "distinct xs" using I(1) by (simp add: sliced_chain_def)
  ultimately show ?thesis by (simp add: own card_cartesian_product distinct_card)
qed

text \<open>C21.  On a volume that satisfies the slice invariant the attribute for free slices, computed from two
  counters, is the number of set bits in the bitmaps of the chain of sliced blocks.  The invariant
  includes the exact count of used slices, which an in-place rewrite does not keep.\<close>

theorem total_free_slices_exact:
  assumes "small_vol E s xs F"
  shows "total_free_slices_show s = snprintf_u (\<Sum>b \<leftarrow> xs. card {k. k < 32 \<and> bit (bm_of s b) k})"
proof -
  have inv: "slice_inv E s xs F" using assms by (simp add: small_vol_def)
  let ?n = "\<Sum>i \<in> F. unat (num_slices (inodes s i))" and ?f = "\<Sum>b \<leftarrow> xs. card {k. k < 32 \<and> bit (bm_of s b) k}"
  have d: "distinct xs" and ch: "chain (cache s) (s_free_sliced_blocks (sbi s)) xs"
    and xs: "set xs \<subseteq> block_univ (sbi s)" and m: "unat (nr_blocks (sbi s)) \<le> 2 ^ 27"
    using slice_invD(1,2) [OF inv] by (auto simp: sliced_chain_def mounted_def)
  have eq: "?n + ?f = 31 * length xs" using slices_partition [OF inv] d by (simp add: sum_list_distinct_conv_sum_set)
  have "unat ` set xs \<subseteq> {..<2 ^ 27}" using xs m by (auto simp: block_univ_def word_less_nat_alt)
  then have "card (unat ` set xs) \<le> 2 ^ 27" using card_mono [of "{..<2 ^ 27 :: nat}"] by fastforce
  moreover have "card (unat ` set xs) = length xs"
    using d by (subst card_image) (auto simp: inj_on_def distinct_card word_unat_eq_iff)
  ultimately have len: "length xs \<le> 2 ^ 27" by simp
  have "nr_sliced_blocks (sbi s) * 31 - nr_used_slices (sbi s) = of_nat (31 * length xs) - of_nat ?n"
    using inv by (simp add: slice_inv_def mult.commute)
  also have "\<dots> = of_nat ?f" unfolding eq [symmetric] by simp
  finally have v: "unat (nr_sliced_blocks (sbi s) * 31 - nr_used_slices (sbi s)) = ?f"
    using eq len by (simp add: unat_of_nat_u32)
  show ?thesis
  proof (cases xs)
    case Nil
    then show ?thesis using ch by (simp add: total_free_slices_show_def snprintf_u_def decimal.simps char_of_def bit_iff_odd)
  next
    case Cons
    then show ?thesis using ch v by (simp add: total_free_slices_show_def)
  qed
qed

theorem total_free_slices_exact_witness: "total_free_slices_show demo_small = (2, ''30'')"
proof -
  have "{k. k < 32 \<and> bit (0xFFFFFFFC :: u32) k} = {2..<32}" unfolding bit_one_used by auto
  then show ?thesis
    using total_free_slices_exact [OF demo_small_vol]
    by (simp add: demo_small_header snprintf_u_def decimal.simps char_of_def bit_iff_odd)
qed

section \<open>Files and sizes\<close>

lemma contiguous_used:
  assumes "inode_pool 1 (sbi s)" and "free_inodes (sbi s) = {i. k < unat i \<and> unat i < unat (nr_inodes (sbi s))}"
    and "k < unat (nr_inodes (sbi s))"
  shows "unat (nr_inodes (sbi s) - nr_free_inodes (sbi s)) = k"
proof -
  have sub: "{k<..<unat (nr_inodes (sbi s))} \<subseteq> {..<2 ^ 32}"
    using unsigned_less [where 'a = nat, of "nr_inodes (sbi s)"] by auto
  have "free_inodes (sbi s) = {i. unat i \<in> {k<..<unat (nr_inodes (sbi s))}}" using assms(2) by auto
  then have "card (free_inodes (sbi s)) = unat (nr_inodes (sbi s)) - (k + 1)"
    using card_unat_vimage [OF sub] by simp
  moreover have "unat (nr_free_inodes (sbi s)) = card (free_inodes (sbi s)) + 1"
    using inos.counter_free [OF assms(1)] by simp
  ultimately have "unat (nr_free_inodes (sbi s)) = unat (nr_inodes (sbi s)) - k" using assms(3) by simp
  then show ?thesis using assms(3) by (simp add: unat_sub word_le_nat_alt)
qed

lemma walk_counts:
  assumes "walk_ok E s n" and "n \<le> 2 ^ 32 - 1"
  shows "\<exists>t. total_file_count_loop E [1..<n] 0 s =
      Inr (of_nat (card {i. 1 \<le> i \<and> i < n \<and> \<not> S_ISDIR (i_mode (walked_inode s (of_nat i)))}), t) \<and> walked s t"
    and "\<exists>t. total_small_file_count_loop E [1..<n] 0 s =
      Inr (of_nat (card {i. 1 \<le> i \<and> i < n \<and> \<not> S_ISDIR (i_mode (walked_inode s (of_nat i))) \<and>
        i_blocks (walked_inode s (of_nat i)) = 0}), t) \<and> walked s t"
    and "\<exists>t. total_data_size_loop E [1..<n] 0 s =
      Inr (\<Sum>i = 1..<n. i_size (walked_inode s (of_nat i)), t) \<and> walked s t"
proof -
  note W = walk_foldl [OF assms(1), where ?is = "[1..<n]"]
  have c: "(\<lambda>c nd. if S_ISDIR (i_mode nd) then c else c + 1) = (\<lambda>(c :: u32) nd. if \<not> S_ISDIR (i_mode nd) then c + 1 else c)"
    "(\<lambda>c nd. if S_ISDIR (i_mode nd) then c else if i_blocks nd = 0 then c + 1 else c) =
      (\<lambda>(c :: u32) nd. if \<not> S_ISDIR (i_mode nd) \<and> i_blocks nd = 0 then c + 1 else c)"
    by (simp_all add: fun_eq_iff)
  show "\<exists>t. total_file_count_loop E [1..<n] 0 s =
      Inr (of_nat (card {i. 1 \<le> i \<and> i < n \<and> \<not> S_ISDIR (i_mode (walked_inode s (of_nat i)))}), t) \<and> walked s t"
    using W [of "\<lambda>(c :: u32) nd. if \<not> S_ISDIR (i_mode nd) then c + 1 else c" 0]
    by (simp only: total_loops_walk c foldl_count length_filter_upt) simp
  show "\<exists>t. total_small_file_count_loop E [1..<n] 0 s =
      Inr (of_nat (card {i. 1 \<le> i \<and> i < n \<and> \<not> S_ISDIR (i_mode (walked_inode s (of_nat i))) \<and>
        i_blocks (walked_inode s (of_nat i)) = 0}), t) \<and> walked s t"
    using W [of "\<lambda>(c :: u32) nd. if \<not> S_ISDIR (i_mode nd) \<and> i_blocks nd = 0 then c + 1 else c" 0]
    by (simp only: total_loops_walk c foldl_count length_filter_upt) simp
  show "\<exists>t. total_data_size_loop E [1..<n] 0 s =
      Inr (\<Sum>i = 1..<n. i_size (walked_inode s (of_nat i)), t) \<and> walked s t"
    using W [of "\<lambda>n nd. n + i_size nd" 0]
    by (simp add: total_loops_walk foldl_sum sum_list_distinct_conv_sum_set)
qed

text \<open>The volume of a root directory with one small file, loaded, its inode counter one ahead.\<close>

definition demo_stats :: fs where
  "demo_stats = demo_root_small\<lparr>sbi := (sbi demo_root_small)\<lparr>nr_free_inodes := 6\<rparr>, icached := {1, 2}\<rparr>"

lemma demo_stats_facts:
  "inode_pool 1 (sbi demo_stats)"
  "free_inodes (sbi demo_stats) = {i. 2 < unat i \<and> unat i < unat (nr_inodes (sbi demo_stats))}"
  "unat (nr_inodes (sbi demo_stats)) = 8" "walk_ok demo_env demo_stats (2 + 1)"
  "walked_inode demo_stats 1 = dir_inode\<lparr>index_block := 5\<rparr>" "walked_inode demo_stats 2 = inodes demo_small 2"
proof -
  have fb: "ifree_bitmap (sbi demo_stats) = (\<lambda>_. 0)(0 := 0xF8)" and n: "nr_inodes (sbi demo_stats) = 8"
    by (simp_all add: demo_stats_def demo_root_small_def demo_small_def demo_sb_def)
  show "inode_pool 1 (sbi demo_stats)"
    unfolding inode_pool_def bitmap_pool_def fb n using free_bits_F8
    by (simp add: demo_stats_def test_bit_def)
  show "free_inodes (sbi demo_stats) = {i. 2 < unat i \<and> unat i < unat (nr_inodes (sbi demo_stats))}"
  proof -
    have "k \<in> {3, 4, 5, 6, 7} \<longleftrightarrow> 2 < k \<and> k < 8" for k :: nat by auto
    then show ?thesis unfolding free_inodes_def fb n by (simp add: free_bits_F8 del: insert_iff)
  qed
  show "unat (nr_inodes (sbi demo_stats)) = 8" "walk_ok demo_env demo_stats (2 + 1)"
    by (simp_all add: n walk_ok_def demo_env_def)
  show "walked_inode demo_stats 1 = dir_inode\<lparr>index_block := 5\<rparr>" "walked_inode demo_stats 2 = inodes demo_small 2"
    by (simp_all add: walked_inode_def demo_stats_def demo_root_small_def)
qed

text \<open>C33.  On a volume whose inodes 0 to \<open>k\<close> are the ones in use, with the inode counter one ahead as the
  formatter leaves it, the attribute for small files counts the inodes from 1 to \<open>k\<close> that are no
  directory and have no data blocks, while the attribute for files counts those before \<open>k\<close> that are no
  directory and never looks at inode \<open>k\<close>, the last one created.  With gaps among the used inodes, as a
  removal leaves them, both loops stop too early.\<close>

theorem sysfs_file_counts:
  assumes "inode_pool 1 (sbi s)" and "free_inodes (sbi s) = {i. k < unat i \<and> unat i < unat (nr_inodes (sbi s))}"
    and "k < unat (nr_inodes (sbi s))" and "walk_ok E s (k + 1)"
  shows "\<exists>t u. walked s t \<and> walked s u \<and>
    files_show E s = Inr (snprintf_u (card {i. 1 \<le> i \<and> i < k \<and>
      \<not> S_ISDIR (i_mode (walked_inode s (of_nat i)))}), t) \<and>
    small_files_show E s = Inr (snprintf_u (card {i. 1 \<le> i \<and> i \<le> k \<and>
      \<not> S_ISDIR (i_mode (walked_inode s (of_nat i))) \<and> i_blocks (walked_inode s (of_nat i)) = 0}), u)"
proof -
  let ?P = "\<lambda>i. \<not> S_ISDIR (i_mode (walked_inode s (of_nat i)))"
  let ?Q = "\<lambda>i. ?P i \<and> i_blocks (walked_inode s (of_nat i)) = 0"
  note u = contiguous_used [OF assms(1-3)]
  have k: "k + 1 \<le> 2 ^ 32 - 1" "walk_ok E s k"
    using assms(1,3,4) by (auto simp: inode_pool_def bitmap_pool_def walk_ok_def)
  have v: "unat (nr_inodes (sbi s) - nr_free_inodes (sbi s) + 1) = k + 1"
    using u k(1) by (simp add: unat_word_ariths)
  obtain t where "total_file_count E s = Inr (of_nat (card {i. 1 \<le> i \<and> i < k \<and> ?P i}), t)" "walked s t"
    using walk_counts(1) [OF k(2)] k(1) by (auto simp: total_file_count_def u)
  moreover obtain w where "total_small_file_count E s = Inr (of_nat (card {i. 1 \<le> i \<and> i < k + 1 \<and> ?Q i}), w)" "walked s w"
    using walk_counts(2) [OF assms(4) k(1)] by (auto simp: total_small_file_count_def v)
  ultimately show ?thesis
    using card_range_bound [of k ?P] card_range_bound [of "k + 1" ?Q] k(1)
    by (auto simp: files_show_def small_files_show_def unat_of_nat_u32 less_Suc_eq_le)
qed

lemma decimal_demo: "decimal 0 = ''0''" "decimal (Suc 0) = ''1''" "decimal 66 = ''66''"
  by (simp_all add: decimal.simps char_of_def bit_iff_odd)

theorem sysfs_file_counts_witness:
  "\<exists>t u. files_show demo_env demo_stats = Inr ((1, ''0''), t) \<and> small_files_show demo_env demo_stats = Inr ((1, ''1''), u)"
proof -
  note D = demo_stats_facts
  have dir: "S_ISDIR (i_mode (walked_inode demo_stats (of_nat 1)))"
    and reg: "\<not> S_ISDIR (i_mode (walked_inode demo_stats (of_nat 2)))" "i_blocks (walked_inode demo_stats (of_nat 2)) = 0"
    using demo_small_inode(5) by (simp_all add: D(5,6) S_ISDIR_def dir_inode_def) (simp add: demo_small_def demo_inode_def)
  have two: "1 \<le> i \<and> i \<le> 2 \<longleftrightarrow> i = 1 \<or> i = (2 :: nat)" for i by auto
  have none: "{i. 1 \<le> i \<and> i < (2 :: nat) \<and> \<not> S_ISDIR (i_mode (walked_inode demo_stats (of_nat i)))} = {}"
    using dir by (auto simp: less_Suc_eq numeral_2_eq_2)
  have one: "{i. 1 \<le> i \<and> i \<le> (2 :: nat) \<and> \<not> S_ISDIR (i_mode (walked_inode demo_stats (of_nat i))) \<and>
      i_blocks (walked_inode demo_stats (of_nat i)) = 0} = {2}"
  proof (rule set_eqI, unfold mem_Collect_eq singleton_iff)
    fix i :: nat
    let ?n = "walked_inode demo_stats (of_nat i)"
    have "1 \<le> i \<and> i \<le> 2 \<and> \<not> S_ISDIR (i_mode ?n) \<and> i_blocks ?n = 0 \<longleftrightarrow>
        (i = 1 \<or> i = 2) \<and> \<not> S_ISDIR (i_mode ?n) \<and> i_blocks ?n = 0"
      using two [of i] by blast
    also have "\<dots> \<longleftrightarrow> i = 2" using dir reg by (cases "i = 1"; cases "i = 2") simp_all
    finally show "1 \<le> i \<and> i \<le> 2 \<and> \<not> S_ISDIR (i_mode ?n) \<and> i_blocks ?n = 0 \<longleftrightarrow> i = 2" .
  qed
  have "2 < unat (nr_inodes (sbi demo_stats))" using D(3) by simp
  from sysfs_file_counts [OF D(1,2) this D(4)] show ?thesis
    unfolding none one by (auto simp: snprintf_u_def decimal_demo)
qed

text \<open>C34.  The kernel's \<^verbatim>\<open>BLOCK_SIZE\<close> is 1024, a quarter of a block of this file system: on the same
  volumes the efficiency is the bytes in the files before the last, in percent of a quarter of the
  space in use, so a full volume can show close to 400 percent.\<close>

theorem efficiency_of_quarter:
  assumes "inode_pool 1 (sbi s)" and "free_inodes (sbi s) = {i. k < unat i \<and> unat i < unat (nr_inodes (sbi s))}"
    and "k < unat (nr_inodes (sbi s))" and "walk_ok E s (k + 1)" and "BLOCK_SIZE = 1024"
    and "unat (nr_blocks (sbi s)) = unat (nr_free_blocks (sbi s)) + n" and "0 < n" and "n < 2 ^ 22"
  shows "\<exists>t. walked s t \<and>
    efficiency_show E BLOCK_SIZE s =
      Inr (snprintf_percent ((\<Sum>i = 1..<k. i_size (walked_inode s (of_nat i))) * 100 div (n * 1024)), t)"
proof -
  have k: "k \<le> 2 ^ 32 - 1" "walk_ok E s k"
    using assms(1,3,4) by (auto simp: inode_pool_def bitmap_pool_def walk_ok_def)
  obtain t where t: "total_data_size E s = Inr (\<Sum>i = 1..<k. i_size (walked_inode s (of_nat i)), t)" "walked s t"
    using walk_counts(3) [OF k(2,1)] by (auto simp: total_data_size_def contiguous_used [OF assms(1-3)])
  have "unat (nr_blocks (sbi s) - nr_free_blocks (sbi s)) = n"
    using assms(6) by (simp add: unat_sub word_le_nat_alt)
  then have "unat (total_used_size BLOCK_SIZE t) = n * 1024"
    using t(2) assms(5,8) by (simp add: total_used_size_def walked_def unat_word_ariths(2) del: left_diff_distrib_numeral)
  then show ?thesis using t assms(7) by (simp add: efficiency_show_def Let_def)
qed

theorem efficiency_of_quarter_witness:
  "\<exists>t. efficiency_show demo_env 1024 demo_stats = Inr ((3, ''66%''), t)"
proof -
  note D = demo_stats_facts
  have sz: "(\<Sum>i = 1..<2. i_size (walked_inode demo_stats (of_nat i))) = 4096"
    by (simp add: numeral_2_eq_2 D(5) dir_inode_def)
  have "unat (nr_blocks (sbi demo_stats)) = unat (nr_free_blocks (sbi demo_stats)) + 6"
    by (simp add: demo_stats_def demo_root_small_def demo_small_def demo_sb_def)
  from efficiency_of_quarter [OF D(1,2) _ D(4) refl this] show ?thesis
    unfolding sz using D(3) by (auto simp: snprintf_percent_def decimal_demo)
qed

end
