(* ===== verification/Ouiche_Module.thy ===== *)
theory Ouiche_Module
  imports Ouiche_Namespace
begin

text \<open>
  The debugging device of \<^verbatim>\<open>src/ioctl.c\<close> and the loading and unloading of the module,
  \<^verbatim>\<open>src/fs.c\<close> with the registration functions of \<^verbatim>\<open>src/sysfs.c\<close> and \<^verbatim>\<open>src/super.c\<close>.

  What user space and the kernel answer is a record of outcomes: whether the argument can be read,
  whether the data pointer is null, which inode the file descriptor stands for, whether the result
  can be written; which registrations succeed.  \<^verbatim>\<open>fget\<close> takes a reference on the file; the model
  returns how many of them are still held.
\<close>

section \<open>The slice dump\<close>

text \<open>\<^verbatim>\<open>_IOR('o', 0, struct ouichefs_debug_ioctl)\<close> with the 16 bytes of the struct on a 64-bit target.\<close>

definition OUICHEFS_DEBUG_IOCTL :: u32 where
  "OUICHEFS_DEBUG_IOCTL = 0x80106F00"

record debug_ioctl =
  arg_readable :: bool
  data_null :: bool
  target_inode :: "u32 option"
  data_writable :: bool

record ioctl_result =
  io_ret :: int
  io_data :: "u8 list"
  io_files :: int

definition ioctl_fail :: "int \<Rightarrow> int \<Rightarrow> ioctl_result" where
  "ioctl_fail err held = \<lparr>io_ret = - err, io_data = [], io_files = held\<rparr>"

definition ouichefs_ioctl :: "env \<Rightarrow> u32 \<Rightarrow> debug_ioctl \<Rightarrow> fs \<Rightarrow> ioctl_result \<times> fs" where
  "ouichefs_ioctl E cmd v s =
     (if cmd = OUICHEFS_DEBUG_IOCTL then
        if \<not> arg_readable v then (ioctl_fail EFAULT 0, s)
        else if data_null v then (ioctl_fail EINVAL 0, s)
        else case target_inode v of
          None \<Rightarrow> (ioctl_fail ENOENT 0, s)
        | Some i \<Rightarrow>
            if i_blocks (inodes s i) \<noteq> 0 then (ioctl_fail EINVAL 1, s)
            else
              let bno = SMALL_FILE_GET_BNO (inodes s i) in
              case sb_bread E bno s of
                None \<Rightarrow> (ioctl_fail EIO 1, s)
              | Some s \<Rightarrow>
                  if \<not> data_writable v then (ioctl_fail EFAULT 1, s)
                  else (\<lparr>io_ret = 0, io_data = bytes_at (cache s bno) 0 (OUICHEFS_SLICE_SIZE * 32), io_files = 1\<rparr>,
                        brelse bno s)
      else (\<lparr>io_ret = 0, io_data = [], io_files = 0\<rparr>, s))"

section \<open>Loading and unloading\<close>

text \<open>What the module has registered with the kernel; \<open>major\<close> is the result of \<^verbatim>\<open>register_chrdev\<close>,
  \<open>chrdev\<close> whether the device exists.\<close>

record kmod =
  sysfs_root :: bool
  inode_cache :: bool
  filesystem :: bool
  chrdev :: bool
  major :: int

record kmod_env =
  kobject_ok :: bool
  cache_ok :: bool
  register_ret :: int
  chrdev_ret :: int
  unregister_ret :: int

definition ouichefs_init_sysfs :: "kmod_env \<Rightarrow> kmod \<Rightarrow> int \<times> kmod" where
  "ouichefs_init_sysfs K m = (if kobject_ok K then (0, m\<lparr>sysfs_root := True\<rparr>) else (- ENOMEM, m))"

definition ouichefs_exit_sysfs :: "kmod \<Rightarrow> kmod" where
  "ouichefs_exit_sysfs m = m\<lparr>sysfs_root := False\<rparr>"

definition ouichefs_init_inode_cache :: "kmod_env \<Rightarrow> kmod \<Rightarrow> int \<times> kmod" where
  "ouichefs_init_inode_cache K m = (if cache_ok K then (0, m\<lparr>inode_cache := True\<rparr>) else (- ENOMEM, m))"

definition ouichefs_destroy_inode_cache :: "kmod \<Rightarrow> kmod" where
  "ouichefs_destroy_inode_cache m = m\<lparr>inode_cache := False\<rparr>"

definition register_filesystem :: "kmod_env \<Rightarrow> kmod \<Rightarrow> int \<times> kmod" where
  "register_filesystem K m = (register_ret K, if register_ret K = 0 then m\<lparr>filesystem := True\<rparr> else m)"

definition unregister_filesystem :: "kmod_env \<Rightarrow> kmod \<Rightarrow> int \<times> kmod" where
  "unregister_filesystem K m = (unregister_ret K, if unregister_ret K = 0 then m\<lparr>filesystem := False\<rparr> else m)"

definition ouichefs_register_device :: "kmod_env \<Rightarrow> kmod \<Rightarrow> kmod" where
  "ouichefs_register_device K m = m\<lparr>major := chrdev_ret K, chrdev := 0 < chrdev_ret K\<rparr>"

definition ouichefs_unregister_device :: "kmod \<Rightarrow> kmod" where
  "ouichefs_unregister_device m = m\<lparr>chrdev := False\<rparr>"

definition ouichefs_init :: "kmod_env \<Rightarrow> kmod \<Rightarrow> int \<times> kmod" where
  "ouichefs_init K m =
     (case ouichefs_init_sysfs K m of (ret, m) \<Rightarrow>
        if ret \<noteq> 0 then (ret, m)
        else case ouichefs_init_inode_cache K m of (ret, m) \<Rightarrow>
          if ret \<noteq> 0 then (ret, ouichefs_exit_sysfs m)
          else case register_filesystem K m of (ret, m) \<Rightarrow>
            if ret \<noteq> 0 then (ret, ouichefs_exit_sysfs (ouichefs_destroy_inode_cache m))
            else (0, ouichefs_register_device K m))"

definition ouichefs_exit :: "kmod_env \<Rightarrow> kmod \<Rightarrow> kmod" where
  "ouichefs_exit K m =
     (let m = ouichefs_unregister_device m in
      case unregister_filesystem K m of (ret, m) \<Rightarrow> ouichefs_exit_sysfs (ouichefs_destroy_inode_cache m))"

lemmas kmod_defs =
  ouichefs_init_sysfs_def ouichefs_exit_sysfs_def ouichefs_init_inode_cache_def ouichefs_destroy_inode_cache_def
  register_filesystem_def unregister_filesystem_def ouichefs_register_device_def ouichefs_unregister_device_def

section \<open>Properties\<close>

lemma small_node_bread:
  assumes "small_vol E s xs F" and "i \<in> F"
  shows "bread_ok E (SMALL_FILE_GET_BNO (inodes s i))" and "small_node xs (inodes s i)"
proof -
  show n: "small_node xs (inodes s i)" using assms by (auto simp: small_vol_def slice_inv_def)
  then show "bread_ok E (SMALL_FILE_GET_BNO (inodes s i))"
    using assms(1) by (auto simp: small_vol_def slice_inv_def sliced_chain_def small_node_def)
qed

text \<open>C22.  The dump of a small file copies its whole sliced block to user space and changes nothing: the
  bytes of the file are those from its first slice on, the free slices read as zeroes.  The reference
  on the file is not given back.\<close>

theorem ioctl_dumps_slices:
  assumes "small_vol E s xs F" and "i \<in> F" and "target_inode v = Some i"
    and "arg_readable v" and "\<not> data_null v" and "data_writable v"
  shows "\<exists>r. ouichefs_ioctl E OUICHEFS_DEBUG_IOCTL v s = (r, s) \<and> io_ret r = 0 \<and> io_files r = 1 \<and>
    length (io_data r) = 4096 \<and>
    take (i_size (inodes s i)) (drop (unat (SMALL_FILE_GET_SLICE (inodes s i)) * 128) (io_data r)) =
      map (small_byte s i) [0..<i_size (inodes s i)] \<and>
    (\<forall>k < 4096. 128 \<le> k \<and> bit (bm_of s (SMALL_FILE_GET_BNO (inodes s i))) (k div 128) \<longrightarrow> io_data r ! k = 0)"
proof -
  let ?nd = "inodes s i" and ?d = "cache s (SMALL_FILE_GET_BNO (inodes s i))"
  note N = small_node_bread [OF assms(1,2)]
  have "free_slices_zero ?d"
    using assms(1) N(2) by (auto simp: small_vol_def slice_inv_def small_node_def)
  moreover have "i_size ?nd \<le> unat (num_slices ?nd) * 128"
    using N(2) le_div_round_up_mult [of 128 "i_size ?nd"] by (simp add: small_node_def)
  then have "unat (SMALL_FILE_GET_SLICE ?nd) * 128 + i_size ?nd \<le> 4096" using N(2) by (simp add: small_node_def)
  then have "take (i_size ?nd) (drop (unat (SMALL_FILE_GET_SLICE ?nd) * 128) (bytes_at ?d 0 4096)) =
      map (small_byte s i) [0..<i_size ?nd]"
    by (intro nth_equalityI) (simp_all add: small_byte_def)
  ultimately show ?thesis
    using assms(3-6) N by (simp add: ouichefs_ioctl_def sb_bread_hold small_node_def free_slices_zero_def Let_def)
qed

theorem ioctl_dumps_slices_witness:
  "\<exists>r. ouichefs_ioctl demo_env OUICHEFS_DEBUG_IOCTL
      \<lparr>arg_readable = True, data_null = False, target_inode = Some 2, data_writable = True\<rparr> demo_small = (r, demo_small) \<and>
    take 5 (drop 128 (io_data r)) = hello"
proof -
  have b: "map (small_byte demo_small 2) [0..<5] = hello"
    by (simp add: small_byte_def demo_small_inode upt_rec hello_def) (simp add: demo_small_def memcpy_def hello_def)
  show ?thesis
    using ioctl_dumps_slices [OF demo_small_vol, of 2
        "\<lparr>arg_readable = True, data_null = False, target_inode = Some 2, data_writable = True\<rparr>"] b
    by (auto simp: demo_small_inode)
qed

text \<open>The dump of an empty file, whose index block is 0, copies the superblock of the file system.\<close>

theorem ioctl_empty_file:
  assumes "index_block (inodes s i) = 0" and "i_blocks (inodes s i) = 0" and "bread_ok E 0"
    and "target_inode v = Some i" and "arg_readable v" and "\<not> data_null v" and "data_writable v"
  shows "ouichefs_ioctl E OUICHEFS_DEBUG_IOCTL v s = (\<lparr>io_ret = 0, io_data = bytes_at (cache s 0) 0 4096, io_files = 1\<rparr>, s)"
  using assms by (simp add: ouichefs_ioctl_def SMALL_FILE_GET_BNO_def sb_bread_hold Let_def)

theorem ioctl_empty_file_witness:
  "ouichefs_ioctl demo_env OUICHEFS_DEBUG_IOCTL
      \<lparr>arg_readable = True, data_null = False, target_inode = Some 3, data_writable = True\<rparr> demo_fs =
    (\<lparr>io_ret = 0, io_data = bytes_at (\<lambda>_. 0) 0 4096, io_files = 1\<rparr>, demo_fs)"
  using ioctl_empty_file [of demo_fs 3 demo_env
      "\<lparr>arg_readable = True, data_null = False, target_inode = Some 3, data_writable = True\<rparr>"]
  by (simp add: demo_fs_def demo_inode_def demo_env_def)

text \<open>C23.  Loading the module either registers everything but possibly the device and returns 0, or returns
  the error of the step that failed and leaves nothing registered; after a successful load,
  unloading leaves nothing registered.  A failure to register the device is not reported.\<close>

theorem module_load_unload:
  fixes m :: kmod
  assumes "\<not> sysfs_root m" and "\<not> inode_cache m" and "\<not> filesystem m" and "\<not> chrdev m"
  shows "case ouichefs_init K m of (ret, m') \<Rightarrow>
    (if ret = 0
     then sysfs_root m' \<and> inode_cache m' \<and> filesystem m' \<and> (chrdev m' \<longleftrightarrow> 0 < chrdev_ret K) \<and>
       (unregister_ret K = 0 \<longrightarrow> ouichefs_exit K m' = m\<lparr>major := chrdev_ret K\<rparr>)
     else m' = m \<and> (ret = - ENOMEM \<or> ret = register_ret K))"
  using assms by (cases m) (simp add: ouichefs_init_def ouichefs_exit_def kmod_defs Let_def split: if_splits)

theorem module_load_unload_witness:
  "case ouichefs_init \<lparr>kobject_ok = True, cache_ok = True, register_ret = - 16, chrdev_ret = 1, unregister_ret = 0\<rparr>
      \<lparr>sysfs_root = False, inode_cache = False, filesystem = False, chrdev = False, major = 0\<rparr> of
    (ret, m') \<Rightarrow> ret = - 16 \<and> \<not> sysfs_root m' \<and> \<not> inode_cache m'"
  using module_load_unload [of "\<lparr>sysfs_root = False, inode_cache = False, filesystem = False, chrdev = False, major = 0\<rparr>"
      "\<lparr>kobject_ok = True, cache_ok = True, register_ret = - 16, chrdev_ret = 1, unregister_ret = 0\<rparr>"]
  by (simp add: ouichefs_init_def kmod_defs)

end
