(* ===== verification/Spec2Isabelle.thy ===== *)
theory Spec2Isabelle
  imports Ouiche_FileOps Ouiche_Grow Ouiche_Session Ouiche_Stats Ouiche_Module
begin

text \<open>
  Verification of ouiche_fs with sliced blocks.

  The program is a Linux file system module.  A file of at most 3968 bytes is \<^emph>\<open>small\<close>: it
  lives in consecutive 128-byte slices of a sliced block, and the field \<^verbatim>\<open>index_block\<close> of its
  inode packs the block number (27 bits) and the first slice (5 bits).  A larger file is \<^emph>\<open>big\<close>:
  \<^verbatim>\<open>index_block\<close> is a block with the numbers of its data blocks.  Sliced blocks form a chain
  that starts in the superblock; slice 0 of each is a header with a bitmap of its free slices and
  the number of the next sliced block.  Blocks and inodes are handed out from in-memory bitmaps.

  \<^bold>\<open>Parts and theories.\<close>
  \<^item> \<open>Ouiche_Prelude\<close>: machine words, little-endian access to blocks, the C library calls on them,
    faults and results, shared lemmas.
  \<^item> \<open>Ouiche_Layout\<close>: \<^verbatim>\<open>src/ouichefs.h\<close>.  \<open>sb_info\<close> and \<open>inode\<close> are the C structs (the latter with
    the used fields of the VFS inode), the header macros and the packed address have one
    definition each.
  \<^item> \<open>Ouiche_Bitmap\<close>: \<^verbatim>\<open>src/bitmap.h\<close>.  One definition per function; the contract of an
    allocator is the locale \<open>free_pool\<close>, interpreted for blocks and inodes.
  \<^item> \<open>Ouiche_Device\<close>: the state of a mounted file system (superblock, buffer cache, disk, dirty
    buffers, buffer references, inodes) and the kernel services the module calls.  What the kernel
    decides is the parameter \<open>env\<close>: does a block read succeed, does an allocation succeed, the time.
  \<^item> \<open>Ouiche_Slices\<close>: the sliced-block part of \<^verbatim>\<open>src/file.c\<close> (\<^verbatim>\<open>init_slice_block\<close>,
    \<^verbatim>\<open>allocate_and_init_slice_block\<close>, \<^verbatim>\<open>get_consequitive_free_slices\<close>, \<^verbatim>\<open>delete_slice\<close>,
    \<^verbatim>\<open>delete_slice_and_clear_inode\<close>) and the effect of a deletion on a chain.
  \<^item> \<open>Ouiche_File\<close>: the handlers of \<^verbatim>\<open>src/file.c\<close> (\<^verbatim>\<open>ouichefs_file_get_block\<close>, the
    address-space hooks, \<^verbatim>\<open>ouichefs_open\<close>, \<^verbatim>\<open>custom_read_iter\<close>, \<^verbatim>\<open>custom_write_iter\<close> with
    \<^verbatim>\<open>write_big_file\<close>, \<^verbatim>\<open>write_small_file\<close> and \<^verbatim>\<open>convert_small_to_big\<close>).
  \<^item> \<open>Ouiche_BigFile\<close>: big files as byte functions; the locale \<open>byte_file\<close> is what a client of a
    file relies on, interpreted on the read and write handlers.
  \<^item> \<open>Ouiche_SmallFile\<close>: who owns which slice (\<open>small_vol\<close>), the search along the chain, creation,
    deletion and reading of small files.
  \<^item> \<open>Ouiche_Grow\<close>: a small file that changes its number of slices; a ghost owner of the old slices carries
    the invariant through the middle of the operation.
  \<^item> \<open>Ouiche_FileOps\<close>: the block map, truncation, the block count after a write, rewriting in
    place, failing writes.
  \<^item> \<open>Ouiche_Super\<close>: \<^verbatim>\<open>src/super.c\<close> and \<^verbatim>\<open>ouichefs_iget\<close> of \<^verbatim>\<open>src/inode.c\<close>: inode write-back, the
    sync of superblock and bitmaps, \<^verbatim>\<open>statfs\<close>, mounting with every error exit.
  \<^item> \<open>Ouiche_Dir\<close>: the handlers of \<^verbatim>\<open>src/inode.c\<close> (\<^verbatim>\<open>lookup\<close>, \<^verbatim>\<open>create\<close>, \<^verbatim>\<open>mkdir\<close>, \<^verbatim>\<open>unlink\<close>,
    \<^verbatim>\<open>rmdir\<close>, \<^verbatim>\<open>rename\<close>) and \<^verbatim>\<open>ouichefs_iterate\<close> of \<^verbatim>\<open>src/dir.c\<close>.
  \<^item> \<open>Ouiche_DirSpec\<close>: a directory block as a list of entries; the locale \<open>directory\<close> is what the
    handlers rely on, interpreted on the operations of a directory block.  \<open>Ouiche_DirOps\<close>,
    \<open>Ouiche_Unlink\<close> and \<open>Ouiche_Rename\<close> prove the handlers on it: creation and listing, removal
    of empty, small and big files and of directories, renaming.
  \<^item> \<open>Ouiche_Namespace\<close> and \<open>Ouiche_Persist\<close>: the properties of the namespace and of persistence
    (write-back and reload of an inode, sync and mount).
  \<^item> \<open>Ouiche_Mkfs\<close>: \<^verbatim>\<open>src/mkfs/mkfs-ouichefs.c\<close> and what a mount finds on a fresh image.
  \<^item> \<open>Ouiche_Stats\<close>: the attributes of \<^verbatim>\<open>src/sysfs.c\<close>.  \<open>Ouiche_Module\<close>: the ioctl of
    \<^verbatim>\<open>src/ioctl.c\<close>, loading and unloading of the module, \<^verbatim>\<open>src/fs.c\<close>.
  \<^item> \<open>Ouiche_Session\<close>: the components together as a state machine of VFS calls, refining a map from
    names to contents, from the formatted disk on.
  \<^item> \<open>Ouiche_Volumes\<close>: concrete volumes for the witnesses.

  \<^bold>\<open>Conventions.\<close>  A handler takes the state and returns the C return value with the new state.
  A null dereference, an access outside a buffer and a loop that does not end are \<open>Inl\<close> of a fault.
  Buffers are shared by block number, as in the buffer cache, so that two references to one block
  see each other's stores; \<open>refs\<close> counts references, so leaks and double releases are visible.
  Unsigned arithmetic is on words of the C width wherever it can wrap (block counts, the space check,
  masks, counters); sizes and positions are natural numbers, as the VFS keeps them in range.
  In-memory inodes are shared objects addressed by number; the entries of the VFS dentry cache and
  the reference counts of inodes are not part of the state.

  \<^bold>\<open>Fuel.\<close>  The two loops that follow on-disk pointers, the walk of \<^verbatim>\<open>delete_slice\<close>
  and the search of \<^verbatim>\<open>write_small_file\<close>, take a number of steps.  On a well-formed chain the
  length of the chain, respectively one more for a fresh block, is enough, and the theorems say so;
  a chain is shorter than the device, so \<open>2 ^ 27\<close> steps are enough for every call of a session.
  Every other loop terminates by a measure.

  \<^bold>\<open>What is shown.\<close>  Sessions: any sequence of creations, first writes, removals and renamings on a
  volume keeps the invariant and does what the map from names to contents does, starting from what
  the formatter writes.  Small files: creation, growth, deletion, in-place writes and reads, the invariant
  that every slice is either free, zeroed and marked so, or owned by exactly one file, and round
  trips.  Big files: a write overlays bytes and touches no other file, a read returns them, and
  the client contract.  Directories: every handler refines the list of entries.  Persistence: what is
  written back is what is loaded later.  The allocators keep their pools consistent.  The block map,
  truncation on open and the block count after a write.  The statistics agree with the state they
  describe, or how they depart from it.  Error theorems state what the code does when space or
  memory runs out, and where it departs from what it means to do.

  \<^bold>\<open>Assumed of the code without its saying so.\<close>  A free block holds zeroes (\<open>free_zeroed\<close>): the
  allocators hand out blocks that are used as index blocks or sliced blocks without being cleared.
  Deleting a file keeps this, truncation does not.  The formatter does not clear the data blocks, so
  it holds on a fresh volume only if the disk was zero behind the metadata.

  \<^bold>\<open>Not modelled.\<close>  Sessions have one directory and write a file once.
  The slab cache of inodes and the frees of \<^verbatim>\<open>put_super\<close> are memory management of the kernel;
  \<^verbatim>\<open>ouichefs_mount\<close>, \<^verbatim>\<open>ouichefs_kill_sb\<close>, \<^verbatim>\<open>ouichefs_readahead\<close> and \<^verbatim>\<open>ouichefs_writepage\<close> pass a modelled function
  to the kernel.  Log output, locking by the VFS, the user tools and the test programs are left out.
\<close>

section \<open>Small files\<close>

text \<open>C4.  The first write of a small file succeeds whenever a sliced block has a long enough run of
  free slices or a block is free: the search over the chain ends (with one step per chain block and
  one for a fresh block), the bytes are stored, zeroes precede them, every other small file keeps
  its bytes, the ownership invariant of the slices is kept, no buffer reference is leaked.\<close>

theorem small_file_create:
  assumes "small_vol E s xs F" and "i \<notin> F"
    and "index_block (inodes s i) = 0" and "i_blocks (inodes s i) = 0" and "i_size (inodes s i) = 0"
    and "length (it_bytes it) = it_count it" and "0 < it_count it"
    and "\<not> ki_append iocb" and "ki_pos iocb + it_count it \<le> 3968"
    and "pick s (slices_of (ki_pos iocb + it_count it)) xs \<noteq> None \<or> free_blocks (sbi s) \<noteq> {}"
    and "length xs < fuel"
  shows "\<exists>it' s'. custom_write_iter E fuel i iocb it s = Inr (int (it_count it), iocb, it', s') \<and>
    small_created E i (ki_pos iocb) (it_bytes it) s xs F s'"
  using assms by (intro custom_write_iter_small_new) simp_all

theorem small_file_create_witness:
  "\<exists>it' s'. custom_write_iter demo_env 1 2 \<lparr>ki_pos = 3, ki_append = False\<rparr> \<lparr>it_bytes = hello, it_count = 5\<rparr> demo_fs =
      Inr (5, \<lparr>ki_pos = 3, ki_append = False\<rparr>, it', s') \<and>
    small_created demo_env 2 3 hello demo_fs [] {} s'"
  using small_file_create [OF demo_fs_vol, of 2 "\<lparr>it_bytes = hello, it_count = 5\<rparr>" "\<lparr>ki_pos = 3, ki_append = False\<rparr>" 1]
    demo_fs_new by simp

text \<open>C5.  Deleting a small file succeeds: its slices are free and zeroed again, the sliced blocks that
  became empty return to the block pool, the chain is repaired and visits the remaining blocks,
  every other small file keeps its bytes, and the ownership invariant holds without the file.\<close>

theorem small_file_delete:
  assumes "small_vol E s xs F" and "i \<in> F" and "length xs \<le> fuel"
  shows "\<exists>s'. delete_slice_and_clear_inode E fuel i s = Inr (0, s') \<and> small_deleted E i s xs F s'"
  by (rule delete_small [OF assms])

theorem small_file_delete_witness:
  "\<exists>s'. delete_slice_and_clear_inode demo_env 1 2 demo_small = Inr (0, s') \<and> small_deleted demo_env 2 demo_small [4] {2} s'"
  using small_file_delete [OF demo_small_vol, of 2 1] by simp

text \<open>A small file written from its start reads back as the bytes written.\<close>

theorem small_write_read:
  assumes "small_vol E s xs F" and "i \<notin> F"
    and "index_block (inodes s i) = 0" and "i_blocks (inodes s i) = 0" and "i_size (inodes s i) = 0"
    and "bs \<noteq> []" and "length bs \<le> 3968"
    and "pick s (slices_of (length bs)) xs \<noteq> None \<or> free_blocks (sbi s) \<noteq> {}"
    and "length xs < fuel"
  shows "\<exists>s'. write_bytes E fuel i s 0 bs = Some s' \<and> read_bytes E i s' 0 (length bs) = Some bs"
proof -
  let ?k = "\<lparr>ki_pos = 0, ki_append = False\<rparr>" and ?it = "\<lparr>it_bytes = bs, it_count = length bs\<rparr>"
  obtain it' s' where w: "custom_write_iter E fuel i ?k ?it s = Inr (int (length bs), ?k, it', s')"
    and c: "small_created E i 0 bs s xs F s'"
    using custom_write_iter_small_new [OF assms(1-5), of ?it ?k fuel] assms(6-9) by auto
  obtain xs' where inv: "slice_inv E s' xs' (insert i F)" using c by (auto simp: small_created_def small_vol_def)
  have "map (small_byte s' i) [0..<length bs] = bs"
    by (rule nth_equalityI) (use c in \<open>simp_all add: small_created_def\<close>)
  then show ?thesis
    using custom_read_iter_small [OF inv, of i ?k "\<lparr>out_bytes = [], out_room = length bs, out_count = length bs\<rparr>"]
      c w assms(6) by (simp add: write_bytes_def read_bytes_def small_created_def)
qed

theorem small_write_read_witness:
  "\<exists>s'. write_bytes demo_env 1 2 demo_fs 0 hello = Some s' \<and> read_bytes demo_env 2 s' 0 5 = Some hello"
  using small_write_read [OF demo_fs_vol, of 2 hello 1] demo_fs_new by simp

text \<open>Creating a small file and deleting it again gives back every block and every slice: the
  block pool and the count of used slices are the old ones and the other files are untouched.\<close>

theorem small_create_delete:
  assumes "small_vol E s xs F" and "i \<notin> F"
    and "index_block (inodes s i) = 0" and "i_blocks (inodes s i) = 0" and "i_size (inodes s i) = 0"
    and "bs \<noteq> []" and "pos + length bs \<le> 3968"
    and "pick s (slices_of (pos + length bs)) xs \<noteq> None \<or> free_blocks (sbi s) \<noteq> {}"
    and "Suc (length xs) \<le> fuel"
  shows "\<exists>s' s'' xs''. write_bytes E fuel i s pos bs = Some s' \<and>
    delete_slice_and_clear_inode E fuel i s' = Inr (0, s'') \<and>
    small_vol E s'' xs'' F \<and> set xs'' = set xs \<and> free_blocks (sbi s'') = free_blocks (sbi s) \<and>
    nr_used_slices (sbi s'') = nr_used_slices (sbi s) \<and>
    (\<forall>l \<in> F. \<forall>p < i_size (inodes s l). small_byte s'' l p = small_byte s l p)"
proof -
  let ?k = "\<lparr>ki_pos = pos, ki_append = False\<rparr>" and ?it = "\<lparr>it_bytes = bs, it_count = length bs\<rparr>"
  obtain it' s' where w: "custom_write_iter E fuel i ?k ?it s = Inr (int (length bs), ?k, it', s')"
    and c: "small_created E i pos bs s xs F s'"
    using custom_write_iter_small_new [OF assms(1-5), of ?it ?k fuel] assms(6-9) by auto
  obtain xs' where x: "xs' = xs \<or> (\<exists>nb \<in> free_blocks (sbi s). xs' = xs @ [nb])" "small_vol E s' xs' (insert i F)"
    "free_blocks (sbi s') = free_blocks (sbi s) - set xs'" using c by (auto simp: small_created_def)
  have "length xs' \<le> fuel" using x(1) assms(9) by auto
  then obtain s'' where d: "delete_slice_and_clear_inode E fuel i s' = Inr (0, s'')"
    and del: "small_deleted E i s' xs' (insert i F) s''" using delete_small [OF x(2), of i fuel] by auto
  have F: "insert i F - {i} = F" using assms(2) by simp
  obtain xs'' where y: "small_vol E s'' xs'' F" "set xs'' \<subseteq> set xs'"
    "free_blocks (sbi s'') = free_blocks (sbi s') \<union> (set xs' - set xs'')"
    using del by (auto simp: small_deleted_def F)
  have nds: "inodes s'' l = inodes s l" if "l \<in> F" for l
    using c del that assms(2) by (auto simp: small_created_def small_deleted_def)
  have used: "set ys = (\<lambda>l. SMALL_FILE_GET_BNO (inodes t l)) ` F" if "small_vol E t ys F" for t ys
    using that slice_invD(5) by (auto simp: small_vol_def small_node_def)
  have xs: "set xs'' = set xs" using used [OF y(1)] used [OF assms(1)] nds by simp
  have dis: "set xs \<inter> free_blocks (sbi s) = {}"
    using assms(1) by (auto simp: small_vol_def slice_inv_def sliced_chain_def)
  have "free_blocks (sbi s'') = free_blocks (sbi s)"
    using x(1,3) y(3) dis by (auto simp: xs)
  moreover have "nr_used_slices (sbi s'') = nr_used_slices (sbi s)"
    using slice_invD(10) [of E s'' xs'' F] slice_invD(10) [of E s xs F] y(1) assms(1) nds by (simp add: small_vol_def)
  moreover have "small_byte s'' l p = small_byte s l p" if "l \<in> F" "p < i_size (inodes s l)" for l p
    using c del that assms(2) nds [OF that(1)] by (auto simp: small_created_def small_deleted_def)
  ultimately show ?thesis
    using w d y(1) xs by (auto simp: write_bytes_def)
qed

theorem small_create_delete_witness:
  "\<exists>s' s'' xs''. write_bytes demo_env 2 3 demo_small 0 hello = Some s' \<and>
    delete_slice_and_clear_inode demo_env 2 3 s' = Inr (0, s'') \<and>
    small_vol demo_env s'' xs'' {2} \<and> set xs'' = {4} \<and> free_blocks (sbi s'') = {5, 6, 7}"
  using small_create_delete [OF demo_small_vol, of 3 hello 0 2] demo_free_blocks(2) demo_small_other [of 3]
  by auto

section \<open>Big files\<close>

text \<open>C7.  A write to a big file that has room succeeds, returns the number of bytes and advances the
  position; the file's bytes are the old ones overlaid with the written ones, its size grows to
  the end of the write, its index block stays well formed, and no other file, allocated block or
  buffer reference changes.\<close>

theorem big_file_write:
  assumes "big_file E i s" and "room_for i s pos (it_count it)"
    and "pos = (if ki_append iocb then i_size (inodes s i) else ki_pos iocb)"
    and "0 < it_count it" and "length (it_bytes it) = it_count it"
  shows "\<exists>it' s'. custom_write_iter E fuel i iocb it s =
      Inr (int (it_count it), iocb\<lparr>ki_pos := pos + it_count it\<rparr>, it', s') \<and>
    file_written E i (index_block (inodes s i)) pos (it_bytes it) s s'"
  using write_big_file_existing [OF assms] by (simp add: custom_write_iter_big [OF assms(1)])

theorem big_file_write_witness:
  "\<exists>it' s'. custom_write_iter demo_env 0 2 \<lparr>ki_pos = 1, ki_append = False\<rparr>
      \<lparr>it_bytes = [9, 8, 7, 6], it_count = 4\<rparr> demo_big =
      Inr (4, \<lparr>ki_pos = 5, ki_append = False\<rparr>, it', s') \<and>
    file_written demo_env 2 4 1 [9, 8, 7, 6] demo_big s'"
  using big_file_write [OF demo_big_file, of 1 "\<lparr>it_bytes = [9, 8, 7, 6], it_count = 4\<rparr>"
      "\<lparr>ki_pos = 1, ki_append = False\<rparr>" 0] demo_big_room demo_big_inode by simp

text \<open>C8.  The first write of a file that does not fit the slices allocates an index block and data
  blocks, all taken from the free pool, and leaves a well-formed big file that holds zeroes up to
  the write position and then the bytes.\<close>

theorem big_file_create:
  assumes "index_block (inodes s i) = 0" and "i_blocks (inodes s i) = 0" and "i_size (inodes s i) = 0"
    and "block_pool (sbi s)" and "free_zeroed s" and "io_ok E s" and "\<not> ki_append iocb"
    and "3968 < ki_pos iocb + it_count it" and "ki_pos iocb + it_count it \<le> 4194304"
    and "0 < it_count it" and "length (it_bytes it) = it_count it"
    and "div_round_up (ki_pos iocb + it_count it) 4096 - ki_pos iocb div 4096 < unat (nr_free_blocks (sbi s))"
  shows "\<exists>ib it' s'. custom_write_iter E fuel i iocb it s =
      Inr (int (it_count it), iocb\<lparr>ki_pos := ki_pos iocb + it_count it\<rparr>, it', s') \<and>
    ib \<in> free_blocks (sbi s) \<and> ib \<notin> free_blocks (sbi s') \<and> index_block (inodes s' i) = ib \<and>
    big_file E i s' \<and> i_size (inodes s' i) = ki_pos iocb + it_count it \<and>
    (\<forall>p < ki_pos iocb + it_count it.
       content i s' p = (if p < ki_pos iocb then 0 else it_bytes it ! (p - ki_pos iocb))) \<and>
    (\<forall>c. c \<notin> free_blocks (sbi s) \<longrightarrow> cache s' c = cache s c) \<and>
    (\<forall>j. j \<noteq> i \<longrightarrow> inodes s' j = inodes s j) \<and> refs s' = refs s \<and> (coherent s \<longrightarrow> coherent s')"
proof -
  have h: "custom_write_iter E fuel i iocb it s = Inr (write_big_file E i iocb it s)"
    using assms(1,3,8) by (simp add: custom_write_iter_def is_new_def will_be_small_def Let_def)
  have o: "overlay 0 (ki_pos iocb) (it_bytes it) (\<lambda>_. 0) p =
      (if p < ki_pos iocb then 0 else it_bytes it ! (p - ki_pos iocb))" if "p < ki_pos iocb + it_count it" for p
    using that assms(11) by (simp add: overlay_def)
  have p: "ki_pos iocb = (if ki_append iocb then 0 else ki_pos iocb)" using assms(7) by simp
  obtain ib it' s' where w: "write_big_file E i iocb it s =
      (int (it_count it), iocb\<lparr>ki_pos := ki_pos iocb + it_count it\<rparr>, it', s')"
    and W: "ib \<in> free_blocks (sbi s)" "ib \<notin> free_blocks (sbi s')" "index_block (inodes s' i) = ib"
      "big_file E i s'" "i_size (inodes s' i) = ki_pos iocb + it_count it"
      "\<forall>p < 4194304. content i s' p = overlay 0 (ki_pos iocb) (it_bytes it) (\<lambda>_. 0) p"
      "\<forall>c. c \<notin> free_blocks (sbi s) \<longrightarrow> cache s' c = cache s c"
      "\<forall>j. j \<noteq> i \<longrightarrow> inodes s' j = inodes s j" "refs s' = refs s" "coherent s \<longrightarrow> coherent s'"
    using write_big_file_new [OF assms(1-6) p assms(10,11,9,12)] by blast
  have "\<forall>p < ki_pos iocb + it_count it.
      content i s' p = (if p < ki_pos iocb then 0 else it_bytes it ! (p - ki_pos iocb))"
    using W(6) o assms(9) by auto
  moreover have "custom_write_iter E fuel i iocb it s =
      Inr (int (it_count it), iocb\<lparr>ki_pos := ki_pos iocb + it_count it\<rparr>, it', s')" using h w by simp
  ultimately show ?thesis using W by blast
qed

theorem big_file_create_witness:
  "\<exists>ib it' s'. custom_write_iter demo_env 0 2 \<lparr>ki_pos = 4000, ki_append = False\<rparr>
      \<lparr>it_bytes = hello, it_count = 5\<rparr> demo_fs =
      Inr (5, \<lparr>ki_pos = 4005, ki_append = False\<rparr>, it', s') \<and>
    ib \<in> free_blocks (sbi demo_fs) \<and> index_block (inodes s' 2) = ib \<and> content 2 s' 4001 = 101"
proof -
  have "sbi demo_fs = demo_sb" "nr_free_blocks demo_sb = 4" by (simp_all add: demo_fs_def demo_sb_def)
  then show ?thesis
    using big_file_create [of demo_fs 2 demo_env "\<lparr>ki_pos = 4000, ki_append = False\<rparr>" "\<lparr>it_bytes = hello, it_count = 5\<rparr>" 0]
      demo_fs_new demo_pools(1) demo_free_zeroed(1) demo_mounted(1)
    by (auto simp: mounted_def div_round_up_def) (auto simp: hello_def)
qed

text \<open>C20.  A read of a big file returns its bytes from the position on, up to the end of the file and
  the size of the buffer, holes as zeroes, and advances the position; the state is unchanged.\<close>

theorem big_file_read:
  assumes "big_file E i s" and "ki_pos iocb < i_size (inodes s i)" and "0 < out_count it"
    and "n = min (out_count it) (i_size (inodes s i) - ki_pos iocb)" and "n \<le> out_room it"
  shows "custom_read_iter E i iocb it s =
    Inr (int n, iocb\<lparr>ki_pos := ki_pos iocb + n\<rparr>,
      it\<lparr>out_bytes := out_bytes it @ map (content i s) [ki_pos iocb..<ki_pos iocb + n],
         out_room := out_room it - n, out_count := out_count it - n\<rparr>, s)"
  by (rule custom_read_iter_big [OF assms])

theorem big_file_read_witness:
  "custom_read_iter demo_env 2 \<lparr>ki_pos = 1, ki_append = False\<rparr> \<lparr>out_bytes = [], out_room = 10, out_count = 10\<rparr> demo_big =
    Inr (2, \<lparr>ki_pos = 3, ki_append = False\<rparr>, \<lparr>out_bytes = [2, 3], out_room = 8, out_count = 8\<rparr>, demo_big)"
proof -
  let ?k = "\<lparr>ki_pos = 1, ki_append = False\<rparr>" and ?it = "\<lparr>out_bytes = [], out_room = 10, out_count = 10\<rparr>"
  have m: "map (content 2 demo_big) [1..<1 + 2] = [2, 3]" using demo_big_content by (simp add: upt_conv_Cons)
  have "custom_read_iter demo_env 2 ?k ?it demo_big =
    Inr (int 2, ?k\<lparr>ki_pos := ki_pos ?k + 2\<rparr>, ?it\<lparr>out_bytes := out_bytes ?it @ map (content 2 demo_big) [ki_pos ?k..<ki_pos ?k + 2],
         out_room := out_room ?it - 2, out_count := out_count ?it - 2\<rparr>, demo_big)"
    by (rule big_file_read [OF demo_big_file]) (simp_all add: demo_big_inode)
  then show ?thesis by (simp only: kiocb.simps out_iter.simps m) simp
qed

text \<open>C19.  Reading what was just written to a big file returns it.\<close>

theorem big_read_written:
  assumes "big_file E i s" and "room_for i s pos (length bs)" and "bs \<noteq> []"
  shows "\<exists>s'. write_bytes E fuel i s pos bs = Some s' \<and> read_bytes E i s' pos (length bs) = Some bs"
  using bigf.wr [OF assms, of fuel] bigf.read_written [OF assms, of fuel] by blast

theorem big_read_written_witness:
  "\<exists>s'. write_bytes demo_env 0 2 demo_big 1 [9, 8, 7, 6] = Some s' \<and> read_bytes demo_env 2 s' 1 4 = Some [9, 8, 7, 6]"
  using big_read_written [OF demo_big_file, of 1 "[9, 8, 7, 6]" 0] demo_big_room by (simp add: eval_nat_numeral)

text \<open>Reading a range of a big file that a write did not touch returns what it returned before.\<close>

theorem big_read_unwritten:
  assumes "big_file E i s" and "room_for i s pos (length bs)" and "bs \<noteq> []"
    and "0 < n" and "q + n \<le> i_size (inodes s i)" and "q + n \<le> pos \<or> pos + length bs \<le> q"
  shows "\<exists>s'. write_bytes E fuel i s pos bs = Some s' \<and> read_bytes E i s' q n = read_bytes E i s q n"
  using bigf.wr [OF assms(1-3), of fuel] bigf.read_unwritten [OF assms(1-3) _ assms(4-6), of fuel] by blast

theorem big_read_unwritten_witness:
  "\<exists>s'. write_bytes demo_env 0 2 demo_big 1 [9, 8, 7, 6] = Some s' \<and> read_bytes demo_env 2 s' 0 1 = read_bytes demo_env 2 demo_big 0 1"
  using big_read_unwritten [OF demo_big_file, of 1 "[9, 8, 7, 6]" 1 0 0] demo_big_room demo_big_inode
  by (simp add: eval_nat_numeral)

text \<open>Appending to a big file: afterwards it reads as its old content followed by the new bytes.\<close>

theorem big_append:
  assumes "big_file E i s" and "0 < i_size (inodes s i)" and "room_for i s (i_size (inodes s i)) (length bs)"
    and "bs \<noteq> []" and "read_bytes E i s 0 (i_size (inodes s i)) = Some old"
  shows "\<exists>s'. write_bytes E fuel i s (i_size (inodes s i)) bs = Some s' \<and>
    read_bytes E i s' 0 (i_size (inodes s i) + length bs) = Some (old @ bs)"
  using bigf.wr [OF assms(1,3,4), of fuel] bigf.read_appended [OF assms(1,3,4) _ assms(5,2), of fuel] by blast

theorem big_append_witness:
  "\<exists>s'. write_bytes demo_env 0 2 demo_big 3 [9] = Some s' \<and> read_bytes demo_env 2 s' 0 4 = Some [1, 2, 3, 9]"
proof -
  have "map (content 2 demo_big) [0..<3] = [1, 2, 3]" using demo_big_content by (simp add: upt_conv_Cons)
  then have "read_bytes demo_env 2 demo_big 0 3 = Some [1, 2, 3]"
    using read_bytes_big [OF demo_big_file, of 0 3] demo_big_inode by simp
  moreover have "room_for 2 demo_big 3 (Suc 0)" using demo_big_room by (simp add: room_for_def demo_big_inode div_round_up_def)
  ultimately show ?thesis
    using big_append [OF demo_big_file, of "[9]" "[1, 2, 3]" 0] demo_big_inode by simp
qed

section \<open>Slices\<close>

text \<open>Deleting a run of slices on any well-formed chain: the call ends within one step per chain
  block, the sliced blocks whose bitmap becomes all-free are zeroed, leave the chain and return to
  the pool, exactly they do, and the others keep their order, bitmaps and data outside the run.\<close>

theorem delete_slice_effect:
  assumes "sliced_chain E s xs" and "bno \<in> set xs" and "num \<noteq> 0"
    and "unat sl \<noteq> 0" and "unat sl + unat num \<le> 32" and "length xs \<le> fuel"
  shows "\<exists>s'. delete_slice E fuel bno sl num s = Inr (0, s') \<and>
    (let kept = filter (\<lambda>b. bitmap_after_delete s bno sl num b \<noteq> 0xFFFFFFFE) xs in
     sliced_chain E s' kept \<and>
     free_blocks (sbi s') = free_blocks (sbi s) \<union> (set xs - set kept) \<and>
     (\<forall>b \<in> set xs - set kept. zeroed (cache s' b)) \<and>
     (\<forall>b \<in> set kept. SLICED_BLOCK_SB_BITMAP (cache s' b) = bitmap_after_delete s bno sl num b) \<and>
     (\<forall>b \<in> set kept. \<forall>k \<ge> 8. cache s' b k =
        (if b = bno \<and> unat sl * 128 \<le> k \<and> k < (unat sl + unat num) * 128 then 0 else cache s b k)) \<and>
     (\<forall>b. b \<notin> set xs \<longrightarrow> cache s' b = cache s b) \<and>
     nr_used_slices (sbi s') = nr_used_slices (sbi s) - num \<and> refs s' = refs s \<and> inodes s' = inodes s)"
proof -
  let ?v = "run_cleared bno (unat sl) (unat num) s"
  let ?kept = "filter (\<lambda>b. bitmap_after_delete s bno sl num b \<noteq> 0xFFFFFFFE) xs"
  obtain s' where d: "delete_slice E fuel bno sl num s = Inr (0, s')" and R: "reaped xs None ?v s'"
    using delete_slice_reaped [OF assms] by blast
  note S = run_cleared_simps
  have kept: "kept_blocks ?v xs = ?kept" and empty: "set (empty_blocks ?v xs) = set xs - set ?kept"
    using bitmap_run_cleared [OF assms(4)]
    by (auto simp: kept_blocks_def empty_blocks_def BITMAP_IS_ALL_FREE_def)
  have ch: "distinct xs" "\<forall>b \<in> set xs. bread_ok E b \<and> b \<in> block_univ (sbi ?v) \<and> b \<notin> free_blocks (sbi ?v)"
    using assms(1) by (auto simp: sliced_chain_def S)
  have "sliced_chain E s' ?kept" using reaped_None_chain [OF R ch] kept by simp
  moreover note R' = R [unfolded reaped_def kept empty]
  have same: "same_but_next (cache ?v b) (cache s' b)" if "b \<in> set ?kept" for b
    using R' that by blast
  have "SLICED_BLOCK_SB_BITMAP (cache s' b) = bitmap_after_delete s bno sl num b" if "b \<in> set ?kept" for b
    using same_but_next_bitmap [OF same [OF that]] bitmap_run_cleared [OF assms(4)] by simp
  moreover have "cache s' b k = (if b = bno \<and> unat sl * 128 \<le> k \<and> k < (unat sl + unat num) * 128 then 0 else cache s b k)"
    if "b \<in> set ?kept" "8 \<le> k" for b k
  proof -
    have "cache s' b k = cache ?v b k" using same [OF that(1)] that(2) by (simp add: same_but_next_def)
    then show ?thesis using that(2) by (simp add: S(1) clear_run_payload)
  qed
  moreover have "cache s' b = cache s b" if "b \<notin> set xs" for b
    using R' that assms(2) by (auto simp: S(1))
  ultimately show ?thesis
    using d R' by (simp add: Let_def S brelse_opt_def)
qed

theorem delete_slice_effect_witness:
  "\<exists>s'. delete_slice demo_env 1 4 1 1 demo_small = Inr (0, s') \<and> free_blocks (sbi s') = {4, 5, 6, 7}"
proof -
  have "bitmap_after_delete demo_small 4 1 1 4 = 0xFFFFFFFE"
    by (simp add: bitmap_after_delete_def demo_small_header run_mask_def)
  then show ?thesis
    using delete_slice_effect [OF demo_small_chain, of 4 1 1 1] demo_free_blocks(2) by (auto simp: Let_def)
qed

text \<open>C25.  The search in one sliced block is first fit: it returns the lowest slice that starts a run of
  free slices of the size needed, claims exactly that run, and returns 0 without any change when
  the block has no such run.\<close>

theorem get_consequitive_first_fit:
  assumes "sz \<le> 3968" and "n = div_round_up sz 128"
    and "get_consequitive_free_slices b i sz s = (sl, s')"
  shows "sl = 0 \<and> s' = s \<and> (\<forall>j. 1 \<le> j \<and> j + n \<le> 32 \<longrightarrow> \<not> run_free (SLICED_BLOCK_SB_BITMAP (cache s b)) j n) \<or>
    1 \<le> unat sl \<and> unat sl + n \<le> 32 \<and> run_free (SLICED_BLOCK_SB_BITMAP (cache s b)) (unat sl) n \<and>
    (\<forall>j. 1 \<le> j \<and> j < unat sl \<longrightarrow> \<not> run_free (SLICED_BLOCK_SB_BITMAP (cache s b)) j n) \<and>
    (\<forall>k < 32. bit (SLICED_BLOCK_SB_BITMAP (cache s' b)) k \<longleftrightarrow>
       bit (SLICED_BLOCK_SB_BITMAP (cache s b)) k \<and> \<not> (unat sl \<le> k \<and> k < unat sl + n)) \<and>
    (\<forall>k \<ge> 8. cache s' b k = cache s b k) \<and> (\<forall>c. c \<noteq> b \<longrightarrow> cache s' c = cache s c) \<and>
    num_slices (inodes s' i) = of_nat n"
proof (cases "has_run (bm_of s b) n")
  case False
  then show ?thesis using assms get_slices_none [of sz s b i] by (auto simp: has_run_def)
next
  case True
  let ?j = "first_run (bm_of s b) n"
  note P = first_run_props [OF True]
  have c: "sl = of_nat ?j" "s' = claim_run b i ?j n s" "unat sl = ?j"
    using assms True get_slices_claim(1) [of sz s b i] get_slices_claim(3) [of sz s b] by auto
  have least: "\<not> run_free (bm_of s b) j n" if "1 \<le> j" "j < ?j" for j
    using not_less_Least [of j "\<lambda>j. 1 \<le> j \<and> run_free (bm_of s b) j n"] that by (simp add: first_run_def)
  show ?thesis
    using P least c bit_claimed [OF P(2)] by (simp add: claim_run_def fs_defs)
qed

theorem get_consequitive_first_fit_witness:
  "\<exists>sl s'. get_consequitive_free_slices 4 3 200 demo_small = (sl, s') \<and> sl = 2 \<and> num_slices (inodes s' 3) = 2"
proof -
  obtain sl s' where g: "get_consequitive_free_slices 4 3 200 demo_small = (sl, s')" by fastforce
  have run: "run_free 0xFFFFFFFC 2 2" "\<not> run_free 0xFFFFFFFC 1 2"
    unfolding run_free_def bit_one_used by auto
  have n: "(2 :: nat) = div_round_up 200 128" by (simp add: div_round_up_def)
  note f = get_consequitive_first_fit [OF _ n g, simplified, unfolded demo_small_header]
  have "\<not> 2 < unat sl" using f run(1) by auto
  moreover have "unat sl \<noteq> 1" "unat sl \<noteq> 0" using f run by auto
  ultimately have "unat sl = 2" by linarith
  then have "sl = 2" by (simp add: word_unat_eq_iff)
  then show ?thesis using f g by auto
qed

text \<open>C24.  The search along the chain ends and returns the first block of the chain with a run of free
  slices of the size needed, with one reference held on its buffer and none on the others.\<close>

theorem slice_search_first_fit:
  assumes "sliced_chain E s (bh # rest)" and "length rest \<le> fuel" and "sz \<le> 3968"
    and "pick s (slices_of sz) rest = Some b"
  shows "\<exists>s'. slice_search E fuel i sz bh 0 (hold bh s) =
      Inr (Inr (b, of_nat (first_run (bm_of s b) (slices_of sz))), s') \<and>
    refs s' = (refs s)(b := refs s b + 1) \<and> sbi s' = sbi s"
  using slice_search_chain [of s bh rest fuel E sz b _ i] assms
  by (auto simp: sliced_chain_def claim_run_def fs_defs hold_def)

text \<open>The witness has a chain of two blocks, the first full and the second with free slices.\<close>

theorem slice_search_first_fit_witness:
  "\<exists>s. sliced_chain demo_env s [4, 5] \<and> (\<exists>s'. slice_search demo_env 1 3 5 4 0 (hold 4 s) =
      Inr (Inr (5, of_nat (first_run 0xFFFFFFFE 1)), s'))"
proof -
  define c where "c = (\<lambda>(_ :: u32) _. 0 :: u8)(4 := SLICED_BLOCK_SB_SET_NEXT 5 (\<lambda>_. 0), 5 := fresh_header (\<lambda>_. 0))"
  let ?s = "demo_small\<lparr>cache := c, sbi := (sbi demo_big)\<lparr>s_free_sliced_blocks := 4\<rparr>\<rparr>"
  have z: "SLICED_BLOCK_SB_NEXT (\<lambda>_. 0) = 0" by (simp add: SLICED_BLOCK_SB_NEXT_def get_le_zero)
  have "sliced_chain demo_env ?s [4, 5]"
    using demo_pools(3) demo_free_blocks(3) z
    by (simp add: sliced_chain_def block_univ_def c_def) (simp add: demo_big_def demo_sb_def demo_env_def)
  moreover have "slices_of 5 = 1" "bm_of ?s 5 = 0xFFFFFFFE" by (simp_all add: div_round_up_def c_def)
  ultimately show ?thesis
    using slice_search_first_fit [of demo_env ?s 4 "[5]" 1 5 5 3] fresh_run(1) [of 1] by auto
qed

text \<open>The packed address of a small file: unpacking what was packed gives the block and the slice
  (for the 27-bit block numbers the format has), and packing what was unpacked gives the field.\<close>

theorem slice_address_roundtrip:
  assumes "unat bno < 2 ^ 27" and "unat sl < 32"
  shows "SMALL_FILE_GET_BNO (ci\<lparr>index_block := pack_slice bno sl\<rparr>) = bno \<and>
    SMALL_FILE_GET_SLICE (ci\<lparr>index_block := pack_slice bno sl\<rparr>) = sl \<and>
    pack_slice (SMALL_FILE_GET_BNO ci) (SMALL_FILE_GET_SLICE ci) = index_block ci"
  using pack_slice_roundtrip [OF assms] pack_unpack by simp

theorem slice_address_roundtrip_witness:
  "SMALL_FILE_GET_BNO (demo_inode\<lparr>index_block := pack_slice 4 1\<rparr>) = 4"
  using slice_address_roundtrip [of 4 1 demo_inode] by simp

section \<open>Allocators\<close>

text \<open>C26.  The block allocator on a consistent pool: it returns 0 exactly when no block is free, and then
  changes nothing; otherwise it returns the lowest free block, which is not block 0, marks that
  block and no other, and the free counter follows.\<close>

theorem get_free_block_correct:
  assumes "block_pool sb" and "get_free_block sb = (b, sb')"
  shows "(b = 0 \<longleftrightarrow> free_blocks sb = {}) \<and> (b = 0 \<longrightarrow> sb' = sb) \<and>
    (b \<noteq> 0 \<longrightarrow> b \<in> free_blocks sb \<and> (\<forall>c \<in> free_blocks sb. b \<le> c) \<and>
       free_blocks sb' = free_blocks sb - {b} \<and> unat (nr_free_blocks sb') + 1 = unat (nr_free_blocks sb)) \<and>
    block_pool sb'"
  using blocks.grab_zero_iff [OF assms(1)] blocks.grab_none [OF assms(1)] blocks.grab_free [OF assms(1)]
    blocks.grab_least [OF assms(1)] blocks.free_grab [OF assms(1)] blocks.counter_grab [OF assms(1)]
    blocks.grab_pool [OF assms(1)] assms(2) by auto

theorem get_free_block_correct_witness:
  "\<exists>sb'. get_free_block demo_sb = (4, sb') \<and> free_blocks sb' = {5, 6, 7} \<and> block_pool sb'"
proof -
  obtain b sb' where g: "get_free_block demo_sb = (b, sb')" by fastforce
  note c = get_free_block_correct [OF demo_pools(1) g, unfolded demo_free_blocks]
  have "b \<in> {4, 5, 6, 7}" "b \<le> 4" using c by simp_all
  then have b: "b = 4" by (auto simp: word_le_nat_alt)
  have "{4, 5, 6, 7} - {4} = {5, 6, 7 :: u32}" by auto
  then show ?thesis using c g unfolding b by simp
qed

text \<open>Blocks handed out one after the other are distinct and were free, and the pool stays
  consistent; as many can be had as the counter says.\<close>

theorem get_free_blocks_distinct:
  assumes "block_pool sb" and "n \<le> unat (nr_free_blocks sb)"
  shows "distinct (fst (blocks.grabs n sb)) \<and> set (fst (blocks.grabs n sb)) \<subseteq> free_blocks sb \<and>
    length (fst (blocks.grabs n sb)) = n \<and> block_pool (snd (blocks.grabs n sb)) \<and>
    free_blocks (snd (blocks.grabs n sb)) = free_blocks sb - set (fst (blocks.grabs n sb))"
  using blocks.grabs_sound [OF assms(1)] blocks.counter_free [OF assms(1)] assms(2) by simp

theorem get_free_blocks_distinct_witness: "length (fst (blocks.grabs 4 demo_sb)) = 4"
proof -
  have "(4 :: nat) \<le> unat (nr_free_blocks demo_sb)" by (simp add: demo_sb_def)
  then show ?thesis using get_free_blocks_distinct [OF demo_pools(1)] by blast
qed

text \<open>Giving back a block that is in use makes it free and nothing else, keeps the pool consistent,
  and undoes an allocation.\<close>

theorem put_block_correct:
  assumes "block_pool sb" and "0 < b" and "b < nr_blocks sb" and "b \<notin> free_blocks sb"
  shows "block_pool (put_block sb b) \<and> free_blocks (put_block sb b) = insert b (free_blocks sb) \<and>
    unat (nr_free_blocks (put_block sb b)) = unat (nr_free_blocks sb) + 1"
proof -
  have u: "b \<in> block_univ sb" using assms(2,3) by (simp add: block_univ_def)
  have p: "block_pool (put_block sb b)" using blocks.put_pool [OF assms(1)] u assms(4) by simp
  have f: "free_blocks (put_block sb b) = insert b (free_blocks sb)" by (rule blocks.free_put [OF assms(1) u])
  show ?thesis
    using p f assms(4) blocks.counter_free [OF p] blocks.counter_free [OF assms(1)] by simp
qed

theorem put_block_correct_witness: "free_blocks (put_block demo_sb 3) = {3, 4, 5, 6, 7}"
proof -
  have "(3 :: u32) < nr_blocks demo_sb" by (simp add: demo_sb_def)
  then show ?thesis using put_block_correct [OF demo_pools(1), of 3] demo_free_blocks(1) by simp
qed

section \<open>Block map, truncation and block count\<close>

text \<open>C27.  The block map with \<^verbatim>\<open>create\<close>: an index entry in range is returned, allocated from the free
  pool if it was a hole, and no byte a reader sees changes; past the last entry the call fails.\<close>

theorem file_get_block_correct:
  assumes "big_wf s (index_block (inodes s i))" and "io_ok E s"
    and "k < 1024 \<longrightarrow> index_get (cache s (index_block (inodes s i))) k \<noteq> 0 \<or> free_blocks (sbi s) \<noteq> {}"
  shows "if k < 1024
    then \<exists>pb s'. ouichefs_file_get_block E i k True s = (0, Some pb, s') \<and>
      entry_mapped (index_block (inodes s i)) k pb s s'
    else ouichefs_file_get_block E i k True s = (- EFBIG, None, s)"
  using ouichefs_file_get_block_create [OF assms(1) refl assms(2), of k] assms(3)
  by (simp add: ouichefs_file_get_block_def)

theorem file_get_block_correct_witness:
  "\<exists>pb s'. ouichefs_file_get_block demo_env 2 7 True demo_big = (0, Some pb, s') \<and> entry_mapped 4 7 pb demo_big s'"
  using file_get_block_correct [of demo_big 2 demo_env 7] demo_big_file demo_free_blocks(3)
  by (simp add: big_file_def demo_big_inode)

text \<open>C28.  Opening a big file with truncation gives back the blocks before the first hole of the index,
  clears their entries and the size, and does not clear the blocks themselves: their old bytes stay
  in blocks that are now free.\<close>

theorem open_truncates:
  assumes "big_file E i s" and "i_size (inodes s i) \<noteq> 0" and "first_hole s (index_block (inodes s i)) m"
  shows "\<exists>s'. ouichefs_open E w (\<not> w) True i s = Inr (0, s') \<and> i_size (inodes s' i) = 0 \<and>
    free_blocks (sbi s') = free_blocks (sbi s) \<union> index_get (cache s (index_block (inodes s i))) ` {0..<m} \<and>
    block_pool (sbi s') \<and> refs s' = refs s \<and>
    (\<forall>k < m. index_get (cache s' (index_block (inodes s i))) k = 0) \<and>
    (\<forall>c. c \<noteq> index_block (inodes s i) \<longrightarrow> cache s' c = cache s c)"
  using ouichefs_open_truncates [OF _ refl _ assms(3,2), of E w] assms(1)
  by (auto simp: big_file_def entries_freed_def fs_defs)

theorem open_truncates_witness:
  "\<exists>s'. ouichefs_open demo_env True False True 2 demo_big = Inr (0, s') \<and> 5 \<in> free_blocks (sbi s') \<and>
    cache s' 5 2 = 3 \<and> \<not> free_zeroed s'"
proof -
  have "first_hole demo_big 4 1" by (simp add: first_hole_def demo_big_index)
  then obtain s' where o: "ouichefs_open demo_env True False True 2 demo_big = Inr (0, s')"
    and f: "5 \<in> free_blocks (sbi s')" and c: "cache s' 5 = cache demo_big 5"
    using open_truncates [OF demo_big_file, of 1 True] demo_big_index [of 0] by (auto simp: demo_big_inode)
  have "cache s' 5 2 = 3" using c by (simp add: demo_big_def memcpy_def)
  moreover from this have "\<not> free_zeroed s'"
    using f by (auto simp: free_zeroed_def zeroed_def intro!: bexI [of _ 5] exI [of _ 2])
  ultimately show ?thesis using o f by blast
qed






section \<open>Small files in place, and reads at a position\<close>

text \<open>C30.  Rewriting a small file whose number of slices stays the same stores the bytes in place, keeps its
  other bytes and those of every other small file, and grows the size; the position is left at the
  start of the write, and the count of used slices is increased by slices that were already
  counted.\<close>

theorem small_file_rewrite:
  assumes "slice_inv E s xs F" and "i \<in> F"
    and "pos = (if ki_append iocb then i_size (inodes s i) else ki_pos iocb)"
    and "sz = max (pos + it_count it) (i_size (inodes s i))"
    and "div_round_up sz 128 = unat (num_slices (inodes s i))"
    and "length (it_bytes it) = it_count it"
  shows "\<exists>it' s'. write_small_file E fuel i iocb it s = Inr (int (it_count it), iocb\<lparr>ki_pos := pos\<rparr>, it', s') \<and>
    i_size (inodes s' i) = sz \<and> index_block (inodes s' i) = index_block (inodes s i) \<and>
    (\<forall>k < it_count it. small_byte s' i (pos + k) = it_bytes it ! k) \<and>
    (\<forall>p. p < pos \<or> pos + it_count it \<le> p \<longrightarrow> small_byte s' i p = small_byte s i p) \<and>
    (\<forall>l \<in> F - {i}. \<forall>p < i_size (inodes s l). small_byte s' l p = small_byte s l p) \<and> refs s' = refs s \<and>
    nr_used_slices (sbi s') = nr_used_slices (sbi s) + of_nat (unat (num_slices (inodes s i)))"
proof -
  let ?s = "small_rewritten E i pos sz (it_bytes it) s"
  note I = slice_invD [OF assms(1)]
  have nds: "SMALL_FILE_GET_BNO (inodes ?s l) = SMALL_FILE_GET_BNO (inodes s l)"
    "SMALL_FILE_GET_SLICE (inodes ?s l) = SMALL_FILE_GET_SLICE (inodes s l)" for l
    by (simp_all add: small_rewritten_def Let_def SMALL_FILE_GET_BNO_def SMALL_FILE_GET_SLICE_def)
  have own: "small_byte ?s i p = (if pos \<le> p \<and> p < pos + length (it_bytes it) then it_bytes it ! (p - pos) else small_byte s i p)" for p
    by (auto simp: small_byte_def nds) (auto simp: small_rewritten_def Let_def memcpy_def)
  have other: "small_byte ?s l p = small_byte s l p" if l: "l \<in> F" "l \<noteq> i" and p: "p < i_size (inodes s l)" for l p
  proof -
    let ?q = "unat (SMALL_FILE_GET_SLICE (inodes s l)) * 128 + p"
    have ol: "occupies (inodes s l) (SMALL_FILE_GET_BNO (inodes s l)) (?q div 128)"
      using small_occupies [OF I(5) [OF l(1)] p] .
    have "occupies (inodes s i) (SMALL_FILE_GET_BNO (inodes s i)) (?q div 128)"
      if "unat (SMALL_FILE_GET_SLICE (inodes s i)) * 128 + pos \<le> ?q"
        "?q < unat (SMALL_FILE_GET_SLICE (inodes s i)) * 128 + pos + length (it_bytes it)"
    proof -
      have "sz \<le> unat (num_slices (inodes s i)) * 128" using assms(5) by (simp add: div_round_up_def)
      then have "?q < (unat (SMALL_FILE_GET_SLICE (inodes s i)) + unat (num_slices (inodes s i))) * 128"
        using that(2) assms(4,6) by (simp add: add_mult_distrib)
      then show ?thesis using slice_index that(1) by (simp only: occupies_def)
    qed
    then have "\<not> (SMALL_FILE_GET_BNO (inodes s l) = SMALL_FILE_GET_BNO (inodes s i) \<and>
        unat (SMALL_FILE_GET_SLICE (inodes s i)) * 128 + pos \<le> ?q \<and>
        ?q < unat (SMALL_FILE_GET_SLICE (inodes s i)) * 128 + pos + length (it_bytes it))"
      using I(6) [OF assms(2) l(1)] l(2) ol by metis
    then show ?thesis
      by (simp add: small_byte_def nds) (auto simp: small_rewritten_def Let_def memcpy_def)
  qed
  obtain it' where "write_small_file E fuel i iocb it s = Inr (int (it_count it), iocb\<lparr>ki_pos := pos\<rparr>, it', ?s)"
    using write_small_file_rewrite [OF assms] by blast
  moreover have "i_size (inodes ?s i) = sz" "index_block (inodes ?s i) = index_block (inodes s i)" "refs ?s = refs s"
    "nr_used_slices (sbi ?s) = nr_used_slices (sbi s) + of_nat (unat (num_slices (inodes s i)))"
    by (simp_all add: small_rewritten_def Let_def assms(5))
  ultimately show ?thesis using own other assms(6) by (intro exI [of _ it'] exI [of _ ?s]) auto
qed

theorem small_file_rewrite_witness:
  "\<exists>it' s'. write_small_file demo_env 0 2 \<lparr>ki_pos = 1, ki_append = False\<rparr> \<lparr>it_bytes = [97], it_count = 1\<rparr> demo_small =
      Inr (1, \<lparr>ki_pos = 1, ki_append = False\<rparr>, it', s') \<and> small_byte s' 2 1 = 97 \<and>
    nr_used_slices (sbi s') = nr_used_slices (sbi demo_small) + 1"
  using small_file_rewrite [of demo_env demo_small "[4]" "{2}" 2 1 "\<lparr>ki_pos = 1, ki_append = False\<rparr>" 5
      "\<lparr>it_bytes = [97], it_count = 1\<rparr>" 0] demo_small_vol demo_small_inode
  by (auto simp: small_vol_def div_round_up_def)

text \<open>C31.  A read of a small file copies the bytes from its start whatever the position, as many as lie
  between the position and the end, and sets the position to their number: at position 0 these are
  the bytes of the file, at a later position they are not the bytes there.\<close>

theorem small_file_read:
  assumes "slice_inv E s xs F" and "i \<in> F" and "ki_pos iocb < i_size (inodes s i)" and "0 < out_count it"
    and "n = min (out_count it) (i_size (inodes s i) - ki_pos iocb)" and "n \<le> out_room it"
  shows "custom_read_iter E i iocb it s =
    Inr (int n, iocb\<lparr>ki_pos := n\<rparr>,
      it\<lparr>out_bytes := out_bytes it @ map (small_byte s i) [0..<n],
         out_room := out_room it - n, out_count := out_count it - n\<rparr>, s)"
  by (rule custom_read_iter_small [OF assms])

theorem small_file_read_witness:
  "read_bytes demo_env 2 demo_small 3 2 = Some [104, 101]"
proof -
  have "custom_read_iter demo_env 2 \<lparr>ki_pos = 3, ki_append = False\<rparr> \<lparr>out_bytes = [], out_room = 2, out_count = 2\<rparr> demo_small =
    Inr (int 2, \<lparr>ki_pos = 3, ki_append = False\<rparr>\<lparr>ki_pos := 2\<rparr>,
      \<lparr>out_bytes = [], out_room = 2, out_count = 2\<rparr>\<lparr>out_bytes := [] @ map (small_byte demo_small 2) [0..<2],
         out_room := 2 - 2, out_count := 2 - 2\<rparr>, demo_small)"
    using small_file_read [of demo_env demo_small "[4]" "{2}" 2 "\<lparr>ki_pos = 3, ki_append = False\<rparr>"
        "\<lparr>out_bytes = [], out_room = 2, out_count = 2\<rparr>" 2] demo_small_vol
    by (simp add: small_vol_def demo_small_inode)
  moreover have "map (small_byte demo_small 2) [0..<2] = [104, 101]"
    by (simp add: upt_conv_Cons small_byte_def demo_small_inode) (simp add: demo_small_def memcpy_def hello_def)
  ultimately show ?thesis by (simp add: read_bytes_def)
qed

section \<open>Errors and limits\<close>

text \<open>C35.  The free-space check of \<^verbatim>\<open>write_big_file\<close> looks at the size alone.  A write of at most 4 MiB that
  grows an existing big file, and whose new size needs more blocks beyond those of the old size than
  are free, fails with \<^verbatim>\<open>ENOSPC\<close> and changes nothing.  The check does not cover the blocks a write into
  holes takes, nor the first blocks of a new file.\<close>

theorem big_file_no_space:
  assumes "big_file E i s" and "pos = (if ki_append iocb then i_size (inodes s i) else ki_pos iocb)"
    and "pos + it_count it \<le> 4194304"
    and "div_round_up (max (pos + it_count it) (i_size (inodes s i))) 4096 - div_round_up (i_size (inodes s i)) 4096
      > unat (nr_free_blocks (sbi s))"
  shows "custom_write_iter E fuel i iocb it s = Inr (- ENOSPC, iocb, it, s)"
proof -
  have sz: "i_size (inodes s i) \<le> 4194304" and nb: "i_blocks (inodes s i) = of_nat (div_round_up (i_size (inodes s i)) 4096) + 1"
    using assms(1) by (simp_all add: big_file_def)
  have "space_check_fails (max (pos + it_count it) (i_size (inodes s i))) (i_blocks (inodes s i)) (nr_free_blocks (sbi s))"
    unfolding nb using assms(3,4) sz by (subst space_check_existing) simp_all
  then have "write_big_file E i iocb it s = (- ENOSPC, iocb, it, s)"
    using big_file_blocks(3) [OF assms(1)]
    unfolding write_big_file_def Let_def assms(2) [symmetric] by (simp add: space_check_fails_def Let_def)
  then show ?thesis by (simp add: custom_write_iter_big [OF assms(1)])
qed

theorem big_file_no_space_witness:
  "custom_write_iter demo_env 0 2 \<lparr>ki_pos = 0, ki_append = False\<rparr> \<lparr>it_bytes = [], it_count = 20000\<rparr> demo_big =
    Inr (- ENOSPC, \<lparr>ki_pos = 0, ki_append = False\<rparr>, \<lparr>it_bytes = [], it_count = 20000\<rparr>, demo_big)"
proof -
  have "nr_free_blocks (sbi demo_big) = 2" by (simp add: demo_big_def)
  then show ?thesis
    using big_file_no_space [OF demo_big_file, of 0 "\<lparr>ki_pos = 0, ki_append = False\<rparr>" "\<lparr>it_bytes = [], it_count = 20000\<rparr>"]
    by (simp add: demo_big_inode div_round_up_def)
qed



text \<open>C37.  With no free block and no sliced block, the first write of a small file dereferences a null
  buffer: the negative error code is stored in an unsigned variable, so the test for failure does
  not see it.\<close>

theorem small_file_create_no_block:
  assumes "block_pool (sbi s)" and "free_blocks (sbi s) = {}" and "s_free_sliced_blocks (sbi s) = 0"
    and "index_block (inodes s i) = 0" and "i_size (inodes s i) = 0" and "ki_pos iocb + it_count it \<le> 3968"
  shows "custom_write_iter E fuel i iocb it s = Inl NullDeref"
  using assms(4-6) write_small_new_no_block [OF assms(1-3)]
  by (simp add: custom_write_iter_def is_new_def will_be_small_def write_small_file_def Let_def)

theorem small_file_create_no_block_witness:
  "custom_write_iter demo_env 3 2 \<lparr>ki_pos = 0, ki_append = False\<rparr> \<lparr>it_bytes = hello, it_count = 5\<rparr> demo_full = Inl NullDeref"
proof -
  have "s_free_sliced_blocks (sbi demo_full) = 0" "index_block (inodes demo_full 2) = 0" "i_size (inodes demo_full 2) = 0"
    by (simp_all add: demo_full_def demo_fs_def demo_inode_def demo_sb_def)
  then show ?thesis using small_file_create_no_block [OF demo_full_pool] by simp
qed

text \<open>A failed allocation of a sliced block gives block 0, the superblock, to the pool and counts it as
  free, so the pool is no longer consistent.\<close>

theorem allocate_failure_frees_superblock:
  assumes "block_pool (sbi s)" and "free_blocks (sbi s) = {}"
  shows "\<exists>s'. allocate_and_init_slice_block E s = (- ENOSPC, None, s') \<and>
    test_bit (bfree_bitmap (sbi s')) 0 \<and> nr_free_blocks (sbi s') = 1 \<and> \<not> block_pool (sbi s')"
proof -
  have "nr_free_blocks (sbi s) = 0"
    using blocks.counter_free [OF assms(1)] assms(2) by (simp add: word_unat_eq_iff)
  moreover have "put_block (sbi s) 0 = (sbi s)\<lparr>bfree_bitmap := bitmap_set1 (bfree_bitmap (sbi s)) 0,
      nr_free_blocks := nr_free_blocks (sbi s) + 1\<rparr>"
    by (simp add: put_block_def put_free_bit_def)
  ultimately show ?thesis
    using allocate_no_block [OF assms] by (simp add: fs_put_block_def block_pool_def bitmap_pool_def)
qed

theorem allocate_failure_frees_superblock_witness:
  "\<exists>s'. allocate_and_init_slice_block demo_env demo_full = (- ENOSPC, None, s') \<and> \<not> block_pool (sbi s')"
  using allocate_failure_frees_superblock [OF demo_full_pool] by blast

text \<open>The bound check of \<^verbatim>\<open>put_free_bit\<close> admits the first number past the bitmap: giving back the
  block with that number sets a bit no allocation looks at and increases the free counter, which
  then exceeds the number of free blocks.\<close>

theorem put_block_past_end:
  assumes "block_pool sb" and "unat (nr_free_blocks sb) + 1 < 2 ^ 32"
  shows "free_blocks (put_block sb (nr_blocks sb)) = free_blocks sb \<and>
    nr_free_blocks (put_block sb (nr_blocks sb)) = nr_free_blocks sb + 1 \<and> \<not> block_pool (put_block sb (nr_blocks sb))"
proof -
  let ?sb = "put_block sb (nr_blocks sb)"
  have p: "?sb = sb\<lparr>bfree_bitmap := bitmap_set1 (bfree_bitmap sb) (unat (nr_blocks sb)),
      nr_free_blocks := nr_free_blocks sb + 1\<rparr>"
    by (simp add: put_block_def put_free_bit_def)
  have f: "free_blocks ?sb = free_blocks sb"
    by (auto simp: p free_blocks_def free_bits_def)
  have "unat (nr_free_blocks sb + 1) = unat (nr_free_blocks sb) + 1"
    using assms(2) by (simp add: unat_word_ariths)
  then have "\<not> block_pool ?sb"
    using blocks.counter_free [of ?sb] blocks.counter_free [OF assms(1)] f by (auto simp: p)
  then show ?thesis using f by (simp add: p)
qed

theorem put_block_past_end_witness: "\<not> block_pool (put_block demo_sb 8)"
proof -
  have "nr_blocks demo_sb = 8" "nr_free_blocks demo_sb = 4" by (simp_all add: demo_sb_def)
  then show ?thesis using put_block_past_end [OF demo_pools(1)] by simp
qed

text \<open>The guard of the sliced-block allocation lets block \<open>2 ^ 27\<close> pass, whose packed address is that
  of block 0: a file stored there is looked up in the superblock.\<close>

theorem slice_address_collision:
  assumes "get_free_block (sbi s) = (2 ^ 27, sb')" and "bread_ok E (2 ^ 27)" and "unat sl < 32"
  shows "fst (allocate_and_init_slice_block E s) = 2 ^ 27 \<and>
    SMALL_FILE_GET_BNO (ci\<lparr>index_block := pack_slice (2 ^ 27) sl\<rparr>) = 0"
proof -
  have "fst (allocate_and_init_slice_block E s) = 2 ^ 27"
    using allocate_fresh [OF assms(1) _ _ assms(2)] by simp
  moreover have "pack_slice (2 ^ 27) sl = sl" by (simp add: pack_slice_def push_bit_eq_mult)
  moreover have "drop_bit 5 sl = 0" using assms(3) by (simp add: drop_bit_eq_div word_unat_eq_iff unat_div)
  ultimately show ?thesis by (simp add: SMALL_FILE_GET_BNO_def)
qed

theorem slice_address_collision_witness:
  "\<exists>s. fst (allocate_and_init_slice_block demo_env s) = 2 ^ 27 \<and>
    SMALL_FILE_GET_BNO (demo_inode\<lparr>index_block := pack_slice (2 ^ 27) 1\<rparr>) = 0"
proof -
  let ?m = "bitmap_set1 (\<lambda>_. 0) (2 ^ 27)"
  let ?sb = "demo_sb\<lparr>nr_blocks := 2 ^ 27 + 1, bfree_bitmap := ?m\<rparr>"
  have "free_bits ?m (2 ^ 27 + 1) = {2 ^ 27}" by (auto simp: free_bits_def) (simp add: test_bit_def)
  then have "get_first_free_bit ?m (2 ^ 27 + 1) = (2 ^ 27, bitmap_clear1 ?m (2 ^ 27))"
    by (subst get_first_free_bit_some) simp_all
  then obtain sb' where g: "get_free_block ?sb = (2 ^ 27, sb')" by (simp add: get_free_block_def)
  then show ?thesis
    using slice_address_collision [of "demo_fs\<lparr>sbi := ?sb\<rparr>" sb' demo_env 1 demo_inode]
    by (auto simp: demo_env_def)
qed

text \<open>An append to a small file whose end would pass the largest small size, issued at a position that
  looks small, goes to the small-file path and never succeeds there, whatever the number of steps:
  the choice of the path ignores the append flag.\<close>

theorem small_append_too_big:
  assumes "small_node xs (inodes s i)" and "index_block (inodes s i) \<noteq> 0" and "ki_append iocb"
    and "max (ki_pos iocb + it_count it) (i_size (inodes s i)) \<le> 3968"
    and "3968 < i_size (inodes s i) + it_count it"
    and "custom_write_iter E fuel i iocb it s = Inr (ret, iocb', it', s')"
  shows "ret \<le> 0"
proof -
  let ?sz = "i_size (inodes s i) + it_count it"
  have w: "write_small_file E fuel i iocb it s = Inr (ret, iocb', it', s')"
    using assms by (simp add: custom_write_iter_def is_new_def will_be_small_def is_small_file_def small_node_def Let_def)
  have nd: "unat (num_slices (inodes s i)) \<le> 31" "i_size (inodes s i) \<noteq> 0"
    using assms(1) slices_of_bounds(1) assms(4) by (auto simp: small_node_def)
  have "32 \<le> div_round_up ?sz 128" "div_round_up ?sz 128 < 2 ^ 32"
    using assms(4,5) by (simp_all add: div_round_up_def div_less_iff_less_mult)
  then have "unat (ucast (num_slices (inodes s i)) :: u32) \<noteq> unat (of_nat (div_round_up ?sz 128) :: u32)"
    using nd(1) by (simp only: unat_ucast_16_32 unat_of_nat_u32)
  then have "(ucast (num_slices (inodes s i)) :: u32) \<noteq> of_nat (div_round_up ?sz 128)" by metis
  then show ?thesis
    by (rule write_small_file_too_big [OF w assms(2) nd(2) assms(3) refl assms(5)])
qed

theorem small_append_too_big_witness:
  "\<forall>ret k it s'. custom_write_iter demo_env 9 2 \<lparr>ki_pos = 0, ki_append = True\<rparr> \<lparr>it_bytes = [], it_count = 3965\<rparr> demo_small \<noteq>
    Inr (3965, k, it, s')"
proof -
  have "small_node [4] (inodes demo_small 2)" using demo_small_vol by (simp add: small_vol_def slice_inv_def)
  moreover have "index_block (inodes demo_small 2) \<noteq> 0" by (simp add: demo_small_def)
  ultimately show ?thesis
    using small_append_too_big [of "[4]" demo_small 2 "\<lparr>ki_pos = 0, ki_append = True\<rparr>"
        "\<lparr>it_bytes = [], it_count = 3965\<rparr>" demo_env 9 3965] demo_small_inode by fastforce
qed

text \<open>A write of no bytes to a new file leaves it with an index block and no slices; every later
  small write to it fails with \<^verbatim>\<open>EIO\<close> and changes nothing.\<close>

theorem empty_write_blocks_file:
  assumes "small_vol E s xs F" and "i \<notin> F" and "Suc (length xs) \<le> fuel"
    and "index_block (inodes s i) = 0" and "i_blocks (inodes s i) = 0" and "i_size (inodes s i) = 0"
    and "xs \<noteq> [] \<or> free_blocks (sbi s) \<noteq> {}"
    and "iocb = \<lparr>ki_pos = 0, ki_append = False\<rparr>" and "it = \<lparr>it_bytes = [], it_count = 0\<rparr>"
  shows "\<exists>it' s'. custom_write_iter E fuel i iocb it s = Inr (0, iocb, it', s') \<and>
    (\<forall>fuel' k jt. ki_pos k + it_count jt \<le> 3968 \<longrightarrow> custom_write_iter E fuel' i k jt s' = Inr (- EIO, k, jt, s'))"
proof -
  have inv: "slice_inv E s xs F" using assms(1) by (simp add: small_vol_def)
  note I = slice_invD [OF inv]
  have run0: "run_free bm j 0" for bm j by (auto simp: run_free_def)
  then have r1: "has_run bm 0" "first_run bm 0 = 1" for bm
    by (auto simp: has_run_def first_run_def intro!: exI [of _ 1] Least_equality)
  have sl: "slices_of 0 = 0" by (simp add: div_round_up_def)
  have "pick s (slices_of 0) xs \<noteq> None \<or> free_blocks (sbi s) \<noteq> {}"
    using assms(7) r1(1) by (cases xs) (auto simp: sl)
  then obtain b u it' where p: "placed s xs (slices_of 0) b u"
    and w: "write_small_new E fuel i iocb it s = Inr (0, iocb, it', small_stored E i b 1 0 0 [] u)"
    using write_small_new_placed [OF I(1) assms(3) I(2), of 0 iocb i 0 it] assms(6,8,9) r1(2) by (auto simp: sl)
  let ?s = "small_stored E i b 1 0 0 [] u"
  have h: "custom_write_iter E fuel i iocb it s = Inr (0, iocb, it', ?s)"
    using assms(4,6,8,9) w
    by (simp add: custom_write_iter_def is_new_def will_be_small_def write_small_file_def Let_def)
  obtain xs' where x: "slice_inv E u xs' F" "search_frame s xs b u xs'" using placed_frame [OF inv p] by blast
  have b: "unat b < 2 ^ 27" and u: "inodes u = inodes s"
    using slice_invD(1,2) [OF x(1)] x(2)
    by (auto simp: search_frame_def sliced_chain_def mounted_def block_univ_def word_less_nat_alt)
  have "unat (pack_slice b 1) = unat b * 32 + 1" using unat_pack_slice [OF b, of 1] by simp
  then have "pack_slice b 1 \<noteq> 0" by auto
  then have "index_block (inodes ?s i) \<noteq> 0" "num_slices (inodes ?s i) = 0" "i_blocks (inodes ?s i) = 0" "i_size (inodes ?s i) = 0"
    using assms(5) u by (simp_all add: small_stored_simps stored_node_def sl)
  then have "custom_write_iter E fuel' i k jt ?s = Inr (- EIO, k, jt, ?s)" if "ki_pos k + it_count jt \<le> 3968" for fuel' k jt
    using that write_small_file_no_slices [of ?s i]
    by (simp add: custom_write_iter_def is_new_def will_be_small_def is_small_file_def Let_def)
  then show ?thesis using h by blast
qed

theorem empty_write_blocks_file_witness:
  "\<exists>it' s'. custom_write_iter demo_env 1 2 \<lparr>ki_pos = 0, ki_append = False\<rparr> \<lparr>it_bytes = [], it_count = 0\<rparr> demo_fs =
      Inr (0, \<lparr>ki_pos = 0, ki_append = False\<rparr>, it', s') \<and>
    custom_write_iter demo_env 1 2 \<lparr>ki_pos = 0, ki_append = False\<rparr> \<lparr>it_bytes = hello, it_count = 5\<rparr> s' =
      Inr (- EIO, \<lparr>ki_pos = 0, ki_append = False\<rparr>, \<lparr>it_bytes = hello, it_count = 5\<rparr>, s')"
  using empty_write_blocks_file [OF demo_fs_vol, of 2 1 _ "\<lparr>it_bytes = [], it_count = 0\<rparr>"] demo_fs_new by fastforce

text \<open>C38.  The conversion of a small file into a big one uses the packed slice address as the number of the
  index block.  When the device has no such block, every write that would make the file big fails
  with \<^verbatim>\<open>EIO\<close> and leaves the file as it was.\<close>

theorem conversion_uses_packed_address:
  assumes "slice_inv E s xs F" and "i \<in> F" and "\<not> bread_ok E (index_block (inodes s i))"
    and "kmalloc_ok E = (\<lambda>_. True)" and "length (it_bytes it) = it_count it"
    and "3968 < max (ki_pos iocb + it_count it) (i_size (inodes s i))"
  shows "\<exists>it'. custom_write_iter E fuel i iocb it s = Inr (- EIO, iocb, it', s)"
proof -
  have nd: "i_blocks (inodes s i) = 0" "1 \<le> unat (SMALL_FILE_GET_SLICE (inodes s i))"
    using slice_invD(5) [OF assms(1,2)] by (auto simp: small_node_def)
  then have "index_block (inodes s i) \<noteq> 0" by (auto simp: SMALL_FILE_GET_SLICE_def)
  then have "custom_write_iter E fuel i iocb it s = convert_small_to_big E fuel i iocb it s"
    using nd(1) assms(6) by (auto simp: custom_write_iter_def is_new_def will_be_small_def is_small_file_def Let_def)
  then show ?thesis using convert_small_to_big_unreadable [OF assms(1-5)] by simp
qed

text \<open>In the volume of the witness a read beyond its eight blocks fails.\<close>

theorem conversion_uses_packed_address_witness:
  "\<exists>it'. custom_write_iter (demo_env\<lparr>bread_ok := \<lambda>b. b < 8\<rparr>) 5 2 \<lparr>ki_pos = 3968, ki_append = False\<rparr>
      \<lparr>it_bytes = hello, it_count = 5\<rparr> demo_small = Inr (- EIO, \<lparr>ki_pos = 3968, ki_append = False\<rparr>, it', demo_small)"
proof -
  let ?E = "demo_env\<lparr>bread_ok := \<lambda>b. b < 8\<rparr>"
  have "slice_inv demo_env demo_small [4] {2}" using demo_small_vol by (simp add: small_vol_def)
  then have "slice_inv ?E demo_small [4] {2}"
    by (simp add: slice_inv_def sliced_chain_def mounted_def io_ok_def block_univ_def)
      (simp add: demo_small_def demo_sb_def)
  moreover have "index_block (inodes demo_small 2) = 129" by (simp add: demo_small_def)
  ultimately show ?thesis
    using conversion_uses_packed_address [of ?E demo_small "[4]" "{2}" 2 "\<lparr>it_bytes = hello, it_count = 5\<rparr>"
        "\<lparr>ki_pos = 3968, ki_append = False\<rparr>" 5] by (simp add: demo_env_def)
qed

text \<open>A fresh sliced block takes its next pointer from whatever the block held before: the header
  initialisation sets the bitmap only.  On a block that was freed without being cleared the chain
  continues into stale data.\<close>

theorem fresh_sliced_block_next:
  assumes "get_free_block (sbi s) = (nb, sb')" and "nb \<noteq> 0" and "nb \<le> 2 ^ 27" and "bread_ok E nb"
  shows "\<exists>s'. allocate_and_init_slice_block E s = (int (unat nb), Some nb, s') \<and>
    SLICED_BLOCK_SB_BITMAP (cache s' nb) = 0xFFFFFFFE \<and>
    SLICED_BLOCK_SB_NEXT (cache s' nb) = SLICED_BLOCK_SB_NEXT (cache s nb)"
  using allocate_fresh [OF assms] by simp

theorem fresh_sliced_block_next_witness:
  "\<exists>s s'. allocate_and_init_slice_block demo_env s = (4, Some 4, s') \<and> SLICED_BLOCK_SB_NEXT (cache s' 4) = 6"
proof -
  let ?s = "demo_fs\<lparr>cache := (cache demo_fs)(4 := SLICED_BLOCK_SB_SET_NEXT 6 (\<lambda>_. 0))\<rparr>"
  obtain b sb' where g: "get_free_block demo_sb = (b, sb')" by fastforce
  have "b \<in> {4, 5, 6, 7}" "b \<le> 4"
    using blocks.grab_free [OF demo_pools(1)] blocks.grab_least [OF demo_pools(1), of 4] g by (simp_all add: demo_free_blocks)
  then have "b = 4" by (auto simp: word_le_nat_alt)
  then show ?thesis
    using fresh_sliced_block_next [of ?s 4 sb' demo_env] g
    by (auto simp: demo_fs_def demo_env_def word_le_nat_alt)
qed

end
